(* ===== verification/Prelude.thy ===== *)
theory Prelude
  imports Main "HOL-Library.Word"
begin

section \<open>Prelude: results, byte buffers, shared facts\<close>

text \<open>
  What every component shares: the type of byte buffers, the faults a C++ operation can end in
  (a thrown exception or the use of an indeterminate value), the result type that makes such an
  end a value, sequencing of results, and the growth of a \<open>std::vector<char>\<close>.
\<close>

named_theorems buffer_simps \<open>equations of the buffer operations\<close>

type_synonym bytes = "char list"

type_synonym size_t = "64 word"

text \<open>
  A fault is an end of an operation other than its normal return. \<open>Length_Error\<close>,
  \<open>Bad_Lexical_Cast\<close> and \<open>System_Error\<close> are the exceptions \<open>std::length_error\<close>,
  \<open>boost::bad_lexical_cast\<close> and \<open>boost::system::system_error\<close>; \<open>Indeterminate_Value\<close> is the
  use of a variable that was never assigned; \<open>Program_Options_Error\<close> and
  \<open>Property_Tree_Error\<close> are the exceptions of the two libraries named so; \<open>Terminate\<close> is a call of \<open>std::terminate\<close>.
\<close>

datatype cxx_fault =
    Length_Error
  | Indeterminate_Value
  | Bad_Lexical_Cast
  | System_Error
  | Program_Options_Error
  | Property_Tree_Error
  | Terminate

type_synonym 'a result = "cxx_fault + 'a"

fun bind_result :: "'a result \<Rightarrow> ('a \<Rightarrow> 'b result) \<Rightarrow> 'b result" where
  "bind_result (Inl e) f = Inl e"
| "bind_result (Inr x) f = f x"

lemma bind_result_eq_Inr:
  "bind_result r f = Inr y \<longleftrightarrow> (\<exists>x. r = Inr x \<and> f x = Inr y)"
  by (cases r) auto

lemma bind_result_eq_Inl:
  "bind_result r f = Inl e \<longleftrightarrow> r = Inl e \<or> (\<exists>x. r = Inr x \<and> f x = Inl e)"
  by (cases r) auto

lemmas bind_result_conv = bind_result_eq_Inr bind_result_eq_Inl

text \<open>An exception that leaves a function that must not throw.\<close>

fun no_except :: "'a result \<Rightarrow> 'a result" where
  "no_except (Inl e) = Inl Terminate"
| "no_except (Inr x) = Inr x"

lemma bind_result_assoc:
  "bind_result (bind_result r f) g = bind_result r (\<lambda>x. bind_result (f x) g)"
  by (cases r) auto

text \<open>
  A call that may leave an object changed and throw: the exception, if any, and the object; as a result
  for a caller that does not catch it.
\<close>

fun uncaught :: "cxx_fault option \<times> 'a \<Rightarrow> 'a result" where
  "uncaught (None, x) = Inr x"
| "uncaught (Some e, x) = Inl e"

lemma uncaught_conv:
  "uncaught r = Inr y \<longleftrightarrow> r = (None, y)" "uncaught r = Inl e \<longleftrightarrow> fst r = Some e"
  by (cases r rule: uncaught.cases; simp)+

text \<open>
  \<open>vector<char>::resize\<close> on a 64-bit platform: a request above \<open>max_size()\<close> throws
  \<open>std::length_error\<close>; a smaller vector is extended by value-initialised (zero) bytes and a
  larger one is cut. Running out of memory (\<open>std::bad_alloc\<close>) is not modelled.
\<close>

definition vec_max_size :: nat where
  "vec_max_size = 2 ^ 63 - 1"

definition zero_byte :: char where
  "zero_byte = CHR 0x00"

definition vec_resize :: "nat \<Rightarrow> bytes \<Rightarrow> bytes result" where
  "vec_resize n xs =
     (if n > vec_max_size then Inl Length_Error
      else Inr (take n xs @ replicate (n - length xs) zero_byte))"

lemma length_vec_resize: "vec_resize n xs = Inr ys \<Longrightarrow> length ys = n"
  by (auto simp: vec_resize_def split: if_splits)

lemma vec_resize_Nil: "n \<le> vec_max_size \<Longrightarrow> vec_resize n [] = Inr (replicate n zero_byte)"
  by (simp add: vec_resize_def)

text \<open>Facts on lists.\<close>

lemma dropWhile_replicate:
  "P x \<Longrightarrow> dropWhile P (replicate n x @ ys) = dropWhile P ys"
  by (induction n) auto

lemma takeWhile_list_all: "list_all P xs \<Longrightarrow> takeWhile P xs = xs"
  by (induction xs) auto

lemma dropWhile_head: "xs \<noteq> [] \<Longrightarrow> \<not> P (hd xs) \<Longrightarrow> dropWhile P xs = xs"
  by (cases xs) auto

lemma take_append_length: "n = length xs \<Longrightarrow> take n (xs @ ys) = xs"
  by simp

lemma drop_append_length: "n = length xs \<Longrightarrow> drop n (xs @ ys) = ys"
  by simp

end
