(* ===== verification/Iostream.thy ===== *)
theory Iostream
  imports Prelude
begin

section \<open>The standard streams the program uses\<close>

text \<open>
  The parts of \<open><sstream>\<close> and \<open><iomanip>\<close> that \<open>message.cpp\<close> relies on, in the classic locale:
  decimal output of an unsigned number, the minimum field width of \<open>std::setw\<close> (fill character
  space, padding on the left, used up by the first formatted output), and formatted input of a
  \<open>std::size_t\<close> with \<open>skipws\<close> set.
\<close>

subsection \<open>Characters\<close>

definition blank :: char where
  "blank = CHR '' ''"

definition is_space :: "char \<Rightarrow> bool" where
  "is_space c \<longleftrightarrow>
     c \<in> set [CHR '' '', CHR 0x09, CHR 0x0A, CHR 0x0B, CHR 0x0C, CHR 0x0D]"

definition is_digit :: "char \<Rightarrow> bool" where
  "is_digit c \<longleftrightarrow> 48 \<le> (of_char c :: nat) \<and> (of_char c :: nat) \<le> 57"

definition digit_char :: "nat \<Rightarrow> char" where
  "digit_char d = char_of (48 + d)"

definition digit_value :: "char \<Rightarrow> nat" where
  "digit_value c = of_char c - 48"

lemma is_digit_digit_char: "d < 10 \<Longrightarrow> is_digit (digit_char d)"
  by (simp add: is_digit_def digit_char_def)

lemma digit_value_digit_char: "d < 10 \<Longrightarrow> digit_value (digit_char d) = d"
  by (simp add: digit_value_def digit_char_def)

lemma digit_value_less: "is_digit c \<Longrightarrow> digit_value c < 10"
  by (auto simp: is_digit_def digit_value_def)

lemma is_space_blank [simp]: "is_space blank"
  by (simp add: is_space_def blank_def)

lemma is_digit_not_space: "is_digit c \<Longrightarrow> \<not> is_space c"
  by (auto simp: is_digit_def is_space_def)

lemma is_digit_not_sign: "is_digit c \<Longrightarrow> c \<noteq> CHR ''-'' \<and> c \<noteq> CHR ''+''"
  by (auto simp: is_digit_def)

subsection \<open>Output: decimal digits and field width\<close>

fun decimal :: "nat \<Rightarrow> bytes" where
  "decimal n = (if n < 10 then [digit_char n] else decimal (n div 10) @ [digit_char (n mod 10)])"

declare decimal.simps [simp del]

lemma decimal_small: "n < 10 \<Longrightarrow> decimal n = [digit_char n]"
  by (simp add: decimal.simps)

lemma decimal_large: "10 \<le> n \<Longrightarrow> decimal n = decimal (n div 10) @ [digit_char (n mod 10)]"
  by (subst decimal.simps) simp

definition put_field :: "nat \<Rightarrow> bytes \<Rightarrow> bytes" where
  "put_field w s = replicate (w - length s) blank @ s"

text \<open>
  \<open>std::copy\<close> to an \<open>ostream_iterator<char>\<close>: one formatted output per character, of which the
  first takes the stream's width and resets it.
\<close>

fun put_chars :: "nat \<Rightarrow> bytes \<Rightarrow> bytes" where
  "put_chars w [] = []"
| "put_chars w (c # cs) = put_field w [c] @ cs"

subsection \<open>Input of a \<open>size_t\<close>\<close>

definition digits_value :: "bytes \<Rightarrow> nat" where
  "digits_value ds = foldl (\<lambda>v c. 10 * v + digit_value c) 0 ds"

text \<open>
  \<open>stream >> n\<close> for a \<open>std::size_t n\<close>. White space is skipped; when nothing is left, the sentry
  fails and \<open>n\<close> keeps its old value (\<open>None\<close>). Otherwise an optional sign and the longest run of
  digits are read. No digit gives 0, a number of \<open>2 ^ 64\<close> or more gives the largest value,
  and a minus sign negates modulo \<open>2 ^ 64\<close>, as \<open>strtoull\<close> does.
\<close>

definition read_size_t :: "bytes \<Rightarrow> size_t option" where
  "read_size_t cs =
     (case dropWhile is_space cs of
        [] \<Rightarrow> None
      | c # cs' \<Rightarrow>
          (let signed = (c = CHR ''-'' \<or> c = CHR ''+'');
               v = digits_value (takeWhile is_digit (if signed then cs' else c # cs'))
           in Some (if v \<ge> 2 ^ 64 then - 1
                    else if c = CHR ''-'' then - of_nat v else of_nat v)))"

text \<open>The fields that read as a negative number other than zero.\<close>

definition reads_negative :: "bytes \<Rightarrow> bool" where
  "reads_negative cs \<longleftrightarrow>
     (case dropWhile is_space cs of
        [] \<Rightarrow> False
      | c # cs' \<Rightarrow> c = CHR ''-'' \<and> digits_value (takeWhile is_digit cs') > 0)"

subsection \<open>Decimal text\<close>

lemma decimal_nonempty [simp]: "decimal n \<noteq> []"
  by (subst decimal.simps) simp

lemma decimal_digits: "list_all is_digit (decimal n)"
proof (induction n rule: decimal.induct)
  case (1 n)
  then show ?case
    by (cases "n < 10") (simp_all add: decimal_small decimal_large is_digit_digit_char)
qed

lemma digits_value_snoc: "digits_value (ds @ [c]) = 10 * digits_value ds + digit_value c"
  by (simp add: digits_value_def)

lemma digits_value_decimal [simp]: "digits_value (decimal n) = n"
proof (induction n rule: decimal.induct)
  case (1 n)
  show ?case
  proof (cases "n < 10")
    case True
    then show ?thesis
      by (simp add: decimal_small digits_value_def digit_value_digit_char)
  next
    case False
    with "1.IH" show ?thesis
      by (simp add: decimal_large digits_value_snoc digit_value_digit_char)
  qed
qed

lemma length_decimal_le: "0 < k \<Longrightarrow> length (decimal n) \<le> k \<longleftrightarrow> n < 10 ^ k"
proof (induction n arbitrary: k rule: decimal.induct)
  case (1 n)
  show ?case
  proof (cases "n < 10")
    case True
    have "(10::nat) ^ 1 \<le> 10 ^ k" using "1.prems" by (intro power_increasing) auto
    with True "1.prems" show ?thesis by (simp add: decimal_small)
  next
    case False
    then have split: "length (decimal n) = Suc (length (decimal (n div 10)))"
      by (simp add: decimal_large)
    show ?thesis
    proof (cases "k = 1")
      case True
      with False split show ?thesis by simp
    next
      case k: False
      then obtain j where j: "k = Suc j" "0 < j" using "1.prems" by (cases k) auto
      then have "n < 10 ^ k \<longleftrightarrow> n div 10 < 10 ^ j"
        by (simp add: div_less_iff_less_mult mult.commute)
      with "1.IH" [OF False j(2)] split j(1) show ?thesis by simp
    qed
  qed
qed

lemma digits_value_foldl:
  "foldl (\<lambda>v c. 10 * v + digit_value c) a ds = a * 10 ^ length ds + digits_value ds"
proof (induction ds rule: rev_induct)
  case Nil
  then show ?case by (simp add: digits_value_def)
next
  case (snoc c ds)
  then show ?case by (simp add: digits_value_snoc algebra_simps)
qed

lemma digits_value_append:
  "digits_value (xs @ ys) = digits_value xs * 10 ^ length ys + digits_value ys"
  unfolding digits_value_def foldl_append by (rule digits_value_foldl [unfolded digits_value_def])

lemma digits_value_less: "list_all is_digit ds \<Longrightarrow> digits_value ds < 10 ^ length ds"
proof (induction ds rule: rev_induct)
  case Nil
  then show ?case by (simp add: digits_value_def)
next
  case (snoc c ds)
  then have "digits_value ds + 1 \<le> 10 ^ length ds" and "digit_value c < 10"
    by (auto dest: digit_value_less)
  then have "10 * digits_value ds + digit_value c < 10 * 10 ^ length ds" by linarith
  then show ?case by (simp add: digits_value_snoc)
qed

subsection \<open>Reading back what was written\<close>

lemma length_put_field: "length (put_field w s) = max w (length s)"
  by (simp add: put_field_def)

lemma put_chars_nonempty:
  "cs \<noteq> [] \<Longrightarrow> put_chars w cs = replicate (w - 1) blank @ cs"
  by (cases cs) (auto simp: put_field_def)

lemma read_size_t_skip: "read_size_t (replicate n blank @ cs) = read_size_t cs"
  by (simp add: read_size_t_def dropWhile_replicate)

lemma read_size_t_put_chars: "cs \<noteq> [] \<Longrightarrow> read_size_t (put_chars w cs) = read_size_t cs"
  by (simp add: put_chars_nonempty read_size_t_skip)

lemma read_size_t_put_field: "read_size_t (put_field w s) = read_size_t s"
  by (simp add: put_field_def read_size_t_skip)

lemma read_size_t_eq_None: "read_size_t cs = None \<longleftrightarrow> list_all is_space cs"
proof (cases "dropWhile is_space cs")
  case Nil
  then have "list_all is_space cs" by (simp add: list_all_iff)
  moreover have "read_size_t cs = None" unfolding read_size_t_def Nil by simp
  ultimately show ?thesis by simp
next
  case (Cons c cs')
  then have "dropWhile is_space cs \<noteq> []" by simp
  then have "\<not> list_all is_space cs" by (simp add: list_all_iff)
  moreover have "read_size_t cs \<noteq> None" unfolding read_size_t_def Cons by (simp add: Let_def)
  ultimately show ?thesis by simp
qed

lemma read_size_t_digits:
  assumes "list_all is_digit ds" and "ds \<noteq> []" and "digits_value ds < 2 ^ 64"
  shows "read_size_t ds = Some (of_nat (digits_value ds))"
proof -
  obtain c cs where ds: "ds = c # cs" using assms(2) by (cases ds) auto
  with assms(1) have c: "\<not> is_space c" "c \<noteq> CHR ''-''" "c \<noteq> CHR ''+''"
    by (auto dest: is_digit_not_space is_digit_not_sign)
  from ds c(1) have "dropWhile is_space ds = c # cs" by simp
  moreover have "takeWhile is_digit (c # cs) = ds"
    using assms(1) ds by (simp add: takeWhile_list_all)
  ultimately show ?thesis
    using c assms(3) by (simp add: read_size_t_def)
qed

lemma read_size_t_decimal: "n < 2 ^ 64 \<Longrightarrow> read_size_t (decimal n) = Some (of_nat n)"
  using read_size_t_digits [OF decimal_digits decimal_nonempty, of n] by simp

subsection \<open>What a field of bounded length can read as\<close>

lemma digits_value_takeWhile: "digits_value (takeWhile is_digit cs) < 10 ^ length cs"
proof -
  have "list_all is_digit (takeWhile is_digit cs)"
    by (auto simp: list_all_iff dest: set_takeWhileD)
  then have "digits_value (takeWhile is_digit cs) < 10 ^ length (takeWhile is_digit cs)"
    by (rule digits_value_less)
  also have "\<dots> \<le> 10 ^ length cs" by (intro power_increasing length_takeWhile_le) simp
  finally show ?thesis .
qed

lemma unat_of_nat_small: "v < 2 ^ 64 \<Longrightarrow> unat (of_nat v :: size_t) = v"
  by (simp add: unat_of_nat)

lemma unat_minus_of_nat:
  "0 < v \<Longrightarrow> v < 2 ^ 64 \<Longrightarrow> unat (- of_nat v :: size_t) = 2 ^ 64 - v"
proof -
  assume v: "0 < v" "v < 2 ^ 64"
  then have "(of_nat (v + (2 ^ 64 - v)) :: size_t) = 0"
    unfolding word_of_nat_eq_0_iff by simp
  then have "of_nat v + (of_nat (2 ^ 64 - v) :: size_t) = 0"
    by (simp only: of_nat_add)
  then have "- of_nat v = (of_nat (2 ^ 64 - v) :: size_t)"
    by (rule minus_unique)
  moreover have "unat (of_nat (2 ^ 64 - v) :: size_t) = 2 ^ 64 - v"
    using v by (intro unat_of_nat_small) simp
  ultimately show ?thesis by simp
qed

lemma read_size_t_value:
  assumes "read_size_t cs = Some n" and "length cs \<le> 10"
  shows "if reads_negative cs then unat n > 2 ^ 64 - 10 ^ 10 else unat n < 10 ^ 10"
proof -
  obtain c cs' where split: "dropWhile is_space cs = c # cs'"
    using assms(1) by (cases "dropWhile is_space cs") (simp_all add: read_size_t_def)
  define ds where "ds = (if c = CHR ''-'' \<or> c = CHR ''+'' then cs' else c # cs')"
  define v where "v = digits_value (takeWhile is_digit ds)"
  have "length (c # cs') \<le> length cs" unfolding split [symmetric] by (rule length_dropWhile_le)
  then have "length ds \<le> 10" using assms(2) by (auto simp: ds_def)
  then have "(10::nat) ^ length ds \<le> 10 ^ 10" by (intro power_increasing) auto
  moreover have "v < 10 ^ length ds" unfolding v_def by (rule digits_value_takeWhile)
  ultimately have v: "v < 10 ^ 10" by linarith
  then have small: "\<not> 2 ^ 64 \<le> v" "v < 2 ^ 64" by simp_all
  have n: "n = (if c = CHR ''-'' then - of_nat v else of_nat v)"
    using assms(1) split small(1)
    by (auto simp: read_size_t_def Let_def ds_def v_def)
  have neg: "reads_negative cs \<longleftrightarrow> c = CHR ''-'' \<and> 0 < v"
    unfolding reads_negative_def split by (auto simp: v_def ds_def)
  show ?thesis
  proof (cases "c = CHR ''-'' \<and> 0 < v")
    case True
    then have "unat n = 2 ^ 64 - v" using n small(2) by (simp add: unat_minus_of_nat)
    moreover have "(2::nat) ^ 64 - 10 ^ 10 < 2 ^ 64 - v" using v by (intro diff_less_mono2) simp_all
    ultimately show ?thesis using True neg by simp
  next
    case False
    then have "unat n = v" using n small(2) by (auto simp: unat_of_nat_small split: if_splits)
    then show ?thesis using False neg v by simp
  qed
qed

lemma digits_value_take_decimal:
  assumes "k \<le> length (decimal n)"
  shows "digits_value (take k (decimal n)) = n div 10 ^ (length (decimal n) - k)"
proof -
  let ?hi = "take k (decimal n)" and ?lo = "drop k (decimal n)"
  have "n = digits_value (?hi @ ?lo)" by (simp only: append_take_drop_id digits_value_decimal)
  then have eq: "n = digits_value ?hi * 10 ^ length ?lo + digits_value ?lo"
    by (simp only: digits_value_append)
  have "list_all is_digit ?lo"
    using decimal_digits by (auto simp: list_all_iff dest: in_set_dropD)
  then have "digits_value ?lo < 10 ^ length ?lo" by (rule digits_value_less)
  then have "(digits_value ?hi * 10 ^ length ?lo + digits_value ?lo) div 10 ^ length ?lo
             = digits_value ?hi"
    by simp
  with arg_cong [OF eq, of "\<lambda>x. x div 10 ^ length ?lo"]
  have "n div 10 ^ length ?lo = digits_value ?hi" by (rule trans)
  then show ?thesis by simp
qed

end
