(* ===== verification/Message.thy ===== *)
theory Message
  imports Iostream
begin

section \<open>The message: header buffer, content buffer, length field\<close>

text \<open>
  \<open>struct message\<close> of \<open>message.hpp\<close> and \<open>message.cpp\<close>: the two byte buffers, the magic
  numbers, the ten-character decimal length field and every member function. The lemmas fix what
  the header looks like after each operation, what \<open>get_header_buffer_content_length\<close> returns
  for every header, and when preparing the content buffer for a read throws.
\<close>

subsection \<open>Data and operations\<close>

record message =
  header_buffer :: bytes
  content_buffer :: bytes

definition magic_numbers :: bytes where
  "magic_numbers = ''/broekman/tcp/1.0/''"

definition content_length_digits10 :: nat where
  "content_length_digits10 = 10"

definition default_header_length :: nat where
  "default_header_length = length magic_numbers + content_length_digits10"

definition empty_message :: message where
  "empty_message = \<lparr>header_buffer = [], content_buffer = []\<rparr>"

definition prepare_header_buffer_write :: "message \<Rightarrow> message" where
  "prepare_header_buffer_write m =
     m\<lparr>header_buffer :=
         magic_numbers @ put_field content_length_digits10 (decimal (length (content_buffer m)))\<rparr>"

text \<open>
  The string stream receives the bytes after the magic numbers through an \<open>ostream_iterator\<close>
  while its width is ten, and stays good, so the last \<open>return 0\<close> of the source is never reached.
  When the field is white space throughout, the extraction leaves the local variable unassigned.
\<close>

definition get_header_buffer_content_length :: "message \<Rightarrow> size_t result" where
  "get_header_buffer_content_length m =
     (if length (header_buffer m) \<noteq> default_header_length then Inr 0
      else case read_size_t (put_chars content_length_digits10
                  (drop (length magic_numbers) (header_buffer m))) of
             Some content_length \<Rightarrow> Inr content_length
           | None \<Rightarrow> Inl Indeterminate_Value)"

definition prepare_content_buffer_write :: "message \<Rightarrow> message result" where
  "prepare_content_buffer_write m =
     bind_result (get_header_buffer_content_length m) (\<lambda>n.
       Inr (if length (content_buffer m) \<noteq> unat n then prepare_header_buffer_write m else m))"

definition clear_header_buffer :: "message \<Rightarrow> message" where
  "clear_header_buffer m = m\<lparr>header_buffer := []\<rparr>"

definition clear_content_buffer :: "message \<Rightarrow> message" where
  "clear_content_buffer m = m\<lparr>content_buffer := []\<rparr>"

definition clear :: "message \<Rightarrow> message" where
  "clear m = clear_content_buffer (clear_header_buffer m)"

definition prepare_header_buffer_read :: "message \<Rightarrow> message" where
  "prepare_header_buffer_read m =
     (let m' = clear_header_buffer m
      in m'\<lparr>header_buffer := header_buffer m'
               @ replicate (length magic_numbers + content_length_digits10) zero_byte\<rparr>)"

definition prepare_content_buffer_read :: "message \<Rightarrow> message result" where
  "prepare_content_buffer_read m =
     (let m' = clear_content_buffer m
      in bind_result (get_header_buffer_content_length m') (\<lambda>n.
         bind_result (vec_resize (unat n) (content_buffer m')) (\<lambda>c.
         Inr (m'\<lparr>content_buffer := c\<rparr>))))"

definition set_content_buffer :: "bytes \<Rightarrow> message \<Rightarrow> message" where
  "set_content_buffer content m = prepare_header_buffer_write (m\<lparr>content_buffer := content\<rparr>)"

text \<open>The three constructors; those from a string and from a vector of characters agree.\<close>

definition new_message :: message where
  "new_message = prepare_header_buffer_read empty_message"

definition message_of :: "bytes \<Rightarrow> message" where
  "message_of content = set_content_buffer content empty_message"

subsection \<open>The framing invariant\<close>

text \<open>The header is the one the content asks for.\<close>

definition framed :: "message \<Rightarrow> bool" where
  "framed m \<longleftrightarrow> header_buffer m =
     magic_numbers @ put_field content_length_digits10 (decimal (length (content_buffer m)))"

text \<open>The contents whose length fits the field.\<close>

definition fits :: "bytes \<Rightarrow> bool" where
  "fits content \<longleftrightarrow> length content < 10 ^ content_length_digits10"

lemma length_magic [simp]: "length magic_numbers = 18"
  by (simp add: magic_numbers_def)

lemma digits10 [simp]: "content_length_digits10 = 10"
  by (simp add: content_length_digits10_def)

lemma header_length [simp]: "default_header_length = 28"
  by (simp add: default_header_length_def)

lemma content_prepare_header [simp]:
  "content_buffer (prepare_header_buffer_write m) = content_buffer m"
  by (simp add: prepare_header_buffer_write_def)

lemma framed_prepare_header [simp]: "framed (prepare_header_buffer_write m)"
  by (simp add: framed_def prepare_header_buffer_write_def)

lemma header_prepare_write:
  "header_buffer (prepare_header_buffer_write m) = header_buffer (message_of (content_buffer m))"
  by (simp add: prepare_header_buffer_write_def message_of_def set_content_buffer_def)

lemma prepare_header_framed: "framed m \<Longrightarrow> prepare_header_buffer_write m = m"
  by (simp add: framed_def prepare_header_buffer_write_def)

lemma content_set_content [simp]: "content_buffer (set_content_buffer c m) = c"
  by (simp add: set_content_buffer_def)

lemma framed_set_content [simp]: "framed (set_content_buffer c m)"
  by (simp add: set_content_buffer_def)

lemma framed_message_of [simp]: "framed (message_of c)" "content_buffer (message_of c) = c"
  by (simp_all add: message_of_def)

lemma header_prepare_read [simp]:
  "header_buffer (prepare_header_buffer_read m) = replicate 28 zero_byte"
  "content_buffer (prepare_header_buffer_read m) = content_buffer m"
  by (simp_all add: prepare_header_buffer_read_def clear_header_buffer_def)

lemma clear_buffers [simp]:
  "header_buffer (clear m) = []" "content_buffer (clear m) = []"
  by (simp_all add: clear_def clear_header_buffer_def clear_content_buffer_def)

lemma length_framed_header:
  "framed m \<Longrightarrow> length (header_buffer m) = 18 + max 10 (length (decimal (length (content_buffer m))))"
  by (simp add: framed_def length_put_field)

lemma fits_decimal: "fits c \<longleftrightarrow> length (decimal (length c)) \<le> 10"
  by (simp add: fits_def length_decimal_le)

lemma length_framed_header_iff: "framed m \<Longrightarrow> length (header_buffer m) = 28 \<longleftrightarrow> fits (content_buffer m)"
  by (auto simp: length_framed_header fits_decimal)

subsection \<open>The length a header declares\<close>

lemma length_field_read:
  assumes "length h = 28"
  shows "read_size_t (put_chars 10 (drop 18 h)) = read_size_t (drop 18 h)"
  using assms by (intro read_size_t_put_chars) auto

lemma get_length_short:
  "length (header_buffer m) \<noteq> 28 \<Longrightarrow> get_header_buffer_content_length m = Inr 0"
  by (simp add: get_header_buffer_content_length_def)

lemma get_length_full:
  "length (header_buffer m) = 28 \<Longrightarrow>
   get_header_buffer_content_length m =
     (case read_size_t (drop 18 (header_buffer m)) of
        Some n \<Rightarrow> Inr n | None \<Rightarrow> Inl Indeterminate_Value)"
  by (simp add: get_header_buffer_content_length_def length_field_read)

lemma get_length_content [simp]:
  "get_header_buffer_content_length (m\<lparr>content_buffer := c\<rparr>) = get_header_buffer_content_length m"
  by (simp add: get_header_buffer_content_length_def)

lemma get_length_clear_content [simp]:
  "get_header_buffer_content_length (clear_content_buffer m) = get_header_buffer_content_length m"
  by (simp add: clear_content_buffer_def)

lemma get_length_framed:
  assumes "framed m" and "fits (content_buffer m)"
  shows "get_header_buffer_content_length m = Inr (of_nat (length (content_buffer m)))"
proof -
  let ?n = "length (content_buffer m)"
  have len: "length (header_buffer m) = 28" using assms by (simp add: length_framed_header_iff)
  have "drop 18 (header_buffer m) = put_field 10 (decimal ?n)"
    using assms(1) by (simp add: framed_def)
  moreover have "?n < 2 ^ 64" using assms(2) by (simp add: fits_def)
  ultimately have "read_size_t (drop 18 (header_buffer m)) = Some (of_nat ?n)"
    by (simp add: read_size_t_put_field read_size_t_decimal)
  then show ?thesis using len by (simp add: get_length_full)
qed

lemma get_length_oversized:
  "framed m \<Longrightarrow> \<not> fits (content_buffer m) \<Longrightarrow> get_header_buffer_content_length m = Inr 0"
  by (rule get_length_short) (simp add: length_framed_header_iff)

lemma get_length_framed_never_faults:
  "framed m \<Longrightarrow> \<exists>n. get_header_buffer_content_length m = Inr n"
  by (cases "fits (content_buffer m)") (auto dest: get_length_framed get_length_oversized)

lemma prepare_content_write_framed:
  "framed m \<Longrightarrow> prepare_content_buffer_write m = Inr m"
  using get_length_framed_never_faults [of m]
  by (auto simp: prepare_content_buffer_write_def prepare_header_framed)

subsection \<open>Preparing the content buffer for a read\<close>

text \<open>The ten characters after the magic numbers.\<close>

definition length_field :: "message \<Rightarrow> bytes" where
  "length_field m = drop (length magic_numbers) (header_buffer m)"

lemma length_field_update: "length_field (m\<lparr>header_buffer := h\<rparr>) = drop 18 h"
  by (simp add: length_field_def)

lemma get_length_field:
  "length (header_buffer m) = 28 \<Longrightarrow>
   get_header_buffer_content_length m =
     (case read_size_t (length_field m) of Some n \<Rightarrow> Inr n | None \<Rightarrow> Inl Indeterminate_Value)"
  by (simp add: get_length_full length_field_def)

lemma get_length_range:
  assumes "get_header_buffer_content_length m = Inr n" and "length (header_buffer m) = 28"
  shows "if reads_negative (length_field m) then unat n > vec_max_size else unat n < 10 ^ 10"
proof -
  have "read_size_t (length_field m) = Some n"
    using assms by (simp add: get_length_full length_field_def split: option.splits)
  moreover have "length (length_field m) \<le> 10" using assms(2) by (simp add: length_field_def)
  ultimately have "if reads_negative (length_field m) then unat n > 2 ^ 64 - 10 ^ 10
                   else unat n < 10 ^ 10"
    by (rule read_size_t_value)
  then show ?thesis by (auto simp: vec_max_size_def)
qed

lemma get_length_Inl:
  "get_header_buffer_content_length m = Inl e \<longleftrightarrow>
     length (header_buffer m) = 28 \<and> list_all is_space (length_field m) \<and> e = Indeterminate_Value"
  by (cases "length (header_buffer m) = 28")
    (auto simp: get_length_full get_length_short length_field_def read_size_t_eq_None
      simp flip: read_size_t_eq_None split: option.splits)

lemma reads_negative_not_space: "reads_negative cs \<Longrightarrow> \<not> list_all is_space cs"
proof
  assume "reads_negative cs" and "list_all is_space cs"
  moreover from this have "dropWhile is_space cs = []" by (simp add: list_all_iff)
  ultimately show False by (simp add: reads_negative_def)
qed

lemma prepare_content_read_Inr:
  assumes "prepare_content_buffer_read m = Inr m'" and "length (header_buffer m) = 28"
  obtains n where "get_header_buffer_content_length m = Inr n" and "unat n < 10 ^ 10"
    and "m' = m\<lparr>content_buffer := replicate (unat n) zero_byte\<rparr>"
proof -
  from assms(1) obtain n where n: "get_header_buffer_content_length m = Inr n"
    and "unat n \<le> vec_max_size"
    and "m' = m\<lparr>content_buffer := replicate (unat n) zero_byte\<rparr>"
    by (auto simp: prepare_content_buffer_read_def Let_def bind_result_conv vec_resize_def
        clear_content_buffer_def split: if_splits)
  with get_length_range [OF n assms(2)] show thesis using that by (auto split: if_splits)
qed

text \<open>The prepared content buffer has the size the header declares, below ten to the tenth.\<close>

lemma prepare_content_read_sized:
  assumes "prepare_content_buffer_read m = Inr m'" and "length (header_buffer m) = 28"
  shows "length (content_buffer m') < 10 ^ 10 \<and>
    get_header_buffer_content_length m' = Inr (of_nat (length (content_buffer m')))"
  using assms by (elim prepare_content_read_Inr) simp_all

lemma prepare_content_read_Inl:
  assumes "length (header_buffer m) = 28"
  shows "prepare_content_buffer_read m = Inl e \<longleftrightarrow>
    list_all is_space (length_field m) \<and> e = Indeterminate_Value \<or>
    reads_negative (length_field m) \<and> e = Length_Error"
proof (cases "get_header_buffer_content_length m")
  case (Inl f)
  then have "list_all is_space (length_field m)" "f = Indeterminate_Value"
    by (simp_all add: get_length_Inl)
  moreover from this have "\<not> reads_negative (length_field m)"
    using reads_negative_not_space by blast
  ultimately show ?thesis using Inl by (auto simp: prepare_content_buffer_read_def)
next
  case (Inr n)
  then have "\<not> list_all is_space (length_field m)"
    using assms get_length_Inl [of m Indeterminate_Value] by auto
  moreover have "vec_max_size < unat n \<longleftrightarrow> reads_negative (length_field m)"
    using get_length_range [OF Inr assms] by (auto simp: vec_max_size_def split: if_splits)
  ultimately show ?thesis
    using Inr by (auto simp: prepare_content_buffer_read_def vec_resize_def Let_def)
qed

text \<open>Only the header decides what \<open>prepare_content_buffer_read\<close> makes of a message.\<close>

lemma prepare_content_read_cong:
  "header_buffer m = header_buffer m' \<Longrightarrow> prepare_content_buffer_read m = prepare_content_buffer_read m'"
proof -
  assume "header_buffer m = header_buffer m'"
  then have "clear_content_buffer m = clear_content_buffer m'"
    by (intro message.equality) (simp_all add: clear_content_buffer_def)
  then show ?thesis by (simp add: prepare_content_buffer_read_def)
qed

lemma header_prepare_content_read:
  "prepare_content_buffer_read m = Inr m' \<Longrightarrow> header_buffer m' = header_buffer m"
  by (auto simp: prepare_content_buffer_read_def Let_def bind_result_conv clear_content_buffer_def)

lemma prepare_content_read_length:
  assumes "get_header_buffer_content_length m = Inr n" and "unat n \<le> vec_max_size"
  shows "prepare_content_buffer_read m = Inr (m\<lparr>content_buffer := replicate (unat n) zero_byte\<rparr>)"
  using assms
  by (simp add: prepare_content_buffer_read_def vec_resize_Nil clear_content_buffer_def)

lemma prepare_content_read_framed:
  assumes "framed f" and "fits (content_buffer f)" and "header_buffer m = header_buffer f"
  shows "prepare_content_buffer_read m =
         Inr (m\<lparr>content_buffer := replicate (length (content_buffer f)) zero_byte\<rparr>)"
proof -
  have "get_header_buffer_content_length m = get_header_buffer_content_length f"
    using assms(3) by (simp add: get_header_buffer_content_length_def)
  then have get: "get_header_buffer_content_length m = Inr (of_nat (length (content_buffer f)))"
    using assms(1,2) by (simp add: get_length_framed)
  have "unat (of_nat (length (content_buffer f)) :: size_t) = length (content_buffer f)"
    using assms(2) by (intro unat_of_nat_small) (simp add: fits_def)
  with prepare_content_read_length [OF get] assms(2) show ?thesis
    by (simp add: fits_def vec_max_size_def)
qed

end
