(* ===== verification/Framing.thy ===== *)
theory Framing
  imports Message
begin

section \<open>The wire protocol: what a sender emits and a receiver makes of it\<close>

text \<open>
  The protocol the sessions speak, seen from the byte stream: a sender emits the header and then
  the content of a framed message; a receiver takes \<open>default_header_length\<close> bytes for the header,
  lets \<open>prepare_content_buffer_read\<close> size the content buffer from it, and takes that many bytes.
  The locale states what makes such a pair a stream code and derives that a concatenation of
  frames has one reading; it is interpreted on the message operations.
\<close>

subsection \<open>Sender and receiver\<close>

text \<open>The bytes \<open>do_write_header\<close> and \<open>do_write_content\<close> put on the stream for a message.\<close>

definition wire :: "message \<Rightarrow> bytes" where
  "wire m = header_buffer m @ content_buffer m"

definition encode :: "bytes \<Rightarrow> bytes" where
  "encode content = wire (message_of content)"

datatype received =
    Need_More
  | Fault cxx_fault
  | Got message bytes

text \<open>
  The two reads of a session on the bytes that have arrived: \<open>Need_More\<close> while one of the reads
  is still waiting, \<open>Fault\<close> when preparing the content buffer throws, otherwise the message and
  the bytes left over.
\<close>

definition receive :: "bytes \<Rightarrow> received" where
  "receive bs =
     (let m = prepare_header_buffer_read empty_message; h = length (header_buffer m)
      in if length bs < h then Need_More
         else case prepare_content_buffer_read (m\<lparr>header_buffer := take h bs\<rparr>) of
                Inl e \<Rightarrow> Fault e
              | Inr m' \<Rightarrow>
                  (let n = length (content_buffer m')
                   in if length (drop h bs) < n then Need_More
                      else Got (m'\<lparr>content_buffer := take n (drop h bs)\<rparr>) (drop n (drop h bs))))"

definition receive_content :: "bytes \<Rightarrow> (bytes \<times> bytes) option" where
  "receive_content bs =
     (case receive bs of Got m r \<Rightarrow> Some (content_buffer m, r) | _ \<Rightarrow> None)"

text \<open>
  A decoder written down from the format, for comparison: the length is read from the ten bytes
  after the magic numbers, without the string stream and the buffers of the session.
\<close>

definition decode_frame :: "bytes \<Rightarrow> received" where
  "decode_frame bs =
     (if length bs < 28 then Need_More
      else case read_size_t (take 10 (drop 18 bs)) of
             None \<Rightarrow> Fault Indeterminate_Value
           | Some n \<Rightarrow>
               if vec_max_size < unat n then Fault Length_Error
               else if length bs < 28 + unat n then Need_More
               else Got \<lparr>header_buffer = take 28 bs, content_buffer = take (unat n) (drop 28 bs)\<rparr>
                        (drop (28 + unat n) bs))"

lemma encode_split: "encode c = header_buffer (message_of c) @ c"
  by (simp add: encode_def wire_def)

lemma encode_header: "encode c = magic_numbers @ put_field 10 (decimal (length c)) @ c"
  using framed_message_of(1) [of c] by (simp add: encode_split framed_def)

lemma wire_framed: "framed m \<Longrightarrow> wire m = encode (content_buffer m)"
  using framed_message_of(1) [of "content_buffer m"] by (simp add: encode_def wire_def framed_def)

lemma wire_prepared [simp]: "wire (prepare_header_buffer_write m) = encode (content_buffer m)"
  by (simp add: wire_framed)

lemma receive_Got_shrinks: "receive bs = Got m r \<Longrightarrow> length r < length bs"
  by (auto simp: receive_def Let_def split: if_splits sum.splits)

lemma receive_content_shrinks: "receive_content bs = Some (c, r) \<Longrightarrow> length r < length bs"
  by (auto simp: receive_content_def dest: receive_Got_shrinks split: received.splits)

lemma receive_short: "length bs < 28 \<Longrightarrow> receive bs = Need_More"
  by (simp add: receive_def)

lemma receive_long:
  assumes "\<not> length bs < 28"
  shows "receive bs =
    (case prepare_content_buffer_read (prepare_header_buffer_read empty_message\<lparr>header_buffer := take 28 bs\<rparr>) of
       Inl e \<Rightarrow> Fault e
     | Inr m \<Rightarrow> if length (drop 28 bs) < length (content_buffer m) then Need_More
         else Got (m\<lparr>content_buffer := take (length (content_buffer m)) (drop 28 bs)\<rparr>)
                  (drop (length (content_buffer m)) (drop 28 bs)))"
  unfolding receive_def Let_def header_prepare_read length_replicate using assms by simp

lemma receive_parts:
  assumes "length h = 28"
    and "prepare_content_buffer_read
           (prepare_header_buffer_read empty_message\<lparr>header_buffer := h\<rparr>) = Inr m"
    and "length (content_buffer m) = length c"
  shows "receive (h @ c @ r) = Got (m\<lparr>content_buffer := c\<rparr>) r"
  using assms by (simp add: receive_def Let_def)

lemma receive_encode:
  assumes "fits c"
  shows "receive (encode c @ r) = Got (message_of c) r"
proof -
  let ?h = "header_buffer (message_of c)"
  let ?m = "prepare_header_buffer_read empty_message\<lparr>header_buffer := ?h\<rparr>"
  have len: "length ?h = 28" using assms by (simp add: length_framed_header_iff)
  have prep: "prepare_content_buffer_read ?m =
      Inr (?m\<lparr>content_buffer := replicate (length (content_buffer (message_of c))) zero_byte\<rparr>)"
    using assms by (intro prepare_content_read_framed) simp_all
  have "receive (?h @ c @ r) =
      Got (?m\<lparr>content_buffer := replicate (length (content_buffer (message_of c))) zero_byte,
              content_buffer := c\<rparr>) r"
    by (rule receive_parts [OF len prep]) simp
  then show ?thesis by (simp add: encode_split)
qed

text \<open>What a receiver takes when the length field holds ten digits.\<close>

lemma receive_digits:
  assumes "list_all is_digit ds" and "length ds = 10" and "digits_value ds \<le> length body"
  shows "\<exists>m. receive (magic_numbers @ ds @ body) = Got m (drop (digits_value ds) body) \<and>
    content_buffer m = take (digits_value ds) body"
proof -
  let ?v = "digits_value ds"
  let ?m = "prepare_header_buffer_read empty_message\<lparr>header_buffer := magic_numbers @ ds\<rparr>"
  have v: "?v < 10 ^ 10" using digits_value_less [OF assms(1)] assms(2) by simp
  have len: "length (magic_numbers @ ds) = 28" using assms(2) by simp
  have "read_size_t ds = Some (of_nat ?v)"
    using v assms(2) by (intro read_size_t_digits [OF assms(1)]) auto
  then have "get_header_buffer_content_length ?m = Inr (of_nat ?v)"
    using len by (simp add: get_length_full)
  moreover have "unat (of_nat ?v :: size_t) = ?v" using v by (intro unat_of_nat_small) simp
  ultimately have "prepare_content_buffer_read ?m = Inr (?m\<lparr>content_buffer := replicate ?v zero_byte\<rparr>)"
    using prepare_content_read_length [of ?m "of_nat ?v"] v by (simp add: vec_max_size_def)
  moreover have "length (take ?v body) = ?v" using assms(3) by simp
  ultimately have "receive ((magic_numbers @ ds) @ take ?v body @ drop ?v body) =
      Got (?m\<lparr>content_buffer := replicate ?v zero_byte, content_buffer := take ?v body\<rparr>) (drop ?v body)"
    by (intro receive_parts [OF len]) simp_all
  then show ?thesis by simp
qed

subsection \<open>Stream codes\<close>

text \<open>
  The contract between a sender and a receiver that share a byte stream: what was emitted for an
  admissible value is read back as that value with the rest of the stream untouched, and reading
  consumes something.
\<close>

locale stream_code =
  fixes enc :: "'a \<Rightarrow> bytes"
    and dec :: "bytes \<Rightarrow> ('a \<times> bytes) option"
    and ok :: "'a \<Rightarrow> bool"
  assumes dec_enc: "ok x \<Longrightarrow> dec (enc x @ r) = Some (x, r)"
    and dec_shrinks: "dec bs = Some (x, r) \<Longrightarrow> length r < length bs"
begin

lemma enc_nonempty: "ok x \<Longrightarrow> enc x \<noteq> []"
proof -
  assume "ok x"
  then have "dec (enc x @ []) = Some (x, [])" by (rule dec_enc)
  then have "length ([] :: bytes) < length (enc x @ [])" by (rule dec_shrinks)
  then show ?thesis by auto
qed

lemma enc_prefix_free: "ok x \<Longrightarrow> ok y \<Longrightarrow> enc x @ r = enc y @ s \<Longrightarrow> x = y \<and> r = s"
proof -
  assume ok: "ok x" "ok y" and eq: "enc x @ r = enc y @ s"
  have "dec (enc x @ r) = Some (x, r)" using ok(1) by (rule dec_enc)
  moreover have "dec (enc y @ s) = Some (y, s)" using ok(2) by (rule dec_enc)
  ultimately show ?thesis unfolding eq by simp
qed

lemma concat_enc_inject:
  "list_all ok xs \<Longrightarrow> list_all ok ys \<Longrightarrow> concat (map enc xs) = concat (map enc ys) \<Longrightarrow> xs = ys"
proof (induction xs arbitrary: ys)
  case Nil
  then show ?case using enc_nonempty by (cases ys) auto
next
  case (Cons x xs)
  then obtain y ys' where ys: "ys = y # ys'"
    using enc_nonempty by (cases ys) auto
  with Cons.prems have "x = y \<and> concat (map enc xs) = concat (map enc ys')"
    by (intro enc_prefix_free) auto
  with Cons ys show ?case by auto
qed

end

interpretation content_code: stream_code encode receive_content fits
  by unfold_locales (auto simp: receive_content_def receive_encode dest: receive_Got_shrinks
      split: received.splits)

subsection \<open>Reading a whole stream\<close>

text \<open>The messages a session's read loop takes off a stream, and the unread rest.\<close>

function receive_all :: "bytes \<Rightarrow> bytes list \<times> bytes" where
  "receive_all bs =
     (case receive_content bs of
        None \<Rightarrow> ([], bs)
      | Some (c, r) \<Rightarrow> (case receive_all r of (cs, rest) \<Rightarrow> (c # cs, rest)))"
  by pat_completeness auto
termination
  by (relation "measure length") (auto dest: receive_content_shrinks)

declare receive_all.simps [simp del]

lemma receive_all_stop: "receive_content bs = None \<Longrightarrow> receive_all bs = ([], bs)"
  by (simp add: receive_all.simps)

lemma receive_all_encode:
  "fits c \<Longrightarrow> receive_all (encode c @ r) = (c # fst (receive_all r), snd (receive_all r))"
  by (subst receive_all.simps) (simp add: content_code.dec_enc split: prod.split)

lemma receive_all_concat:
  "list_all fits cs \<Longrightarrow>
   receive_all (concat (map encode cs) @ r) = (cs @ fst (receive_all r), snd (receive_all r))"
  by (induction cs) (simp_all add: receive_all_encode)

end
