(* ===== verification/Asio.thy ===== *)
theory Asio
  imports Prelude
begin

section \<open>Boost.Asio as a parameter\<close>

text \<open>
  The networking library is not part of the repository. Its synchronous calls are the fields of a
  record \<open>'w asio\<close> over an unspecified type \<open>'w\<close>, the state of the library and the operating
  system; every definition that makes such a call takes the record as its argument. Asynchronous
  calls are data: issuing one adds it to the caller's list of outstanding operations, and its
  completion is an event with an error code and, for a read, the bytes stored in the buffer.
  What the library documents about these calls is stated as named predicates on the record.
\<close>

subsection \<open>Error codes\<close>

text \<open>
  The codes the source compares with, and one constructor each for the remaining codes of the SSL
  category and of the other categories.
\<close>

datatype error_category = System_Category | Misc_Category | Ssl_Category

datatype error_code =
    Success
  | Operation_Aborted
  | Connection_Aborted
  | Address_In_Use
  | Eof
  | Ssl_Error nat
  | Other_Error nat

fun category :: "error_code \<Rightarrow> error_category" where
  "category (Ssl_Error _) = Ssl_Category"
| "category Eof = Misc_Category"
| "category _ = System_Category"

subsection \<open>Addresses and endpoints\<close>

datatype address = V4 "32 word" | V6 "128 word"

datatype protocol = Tcp_V4 | Tcp_V6

record endpoint =
  ep_address :: address
  ep_port :: "16 word"

fun is_v4 :: "address \<Rightarrow> bool" where
  "is_v4 (V4 _) = True"
| "is_v4 (V6 _) = False"

fun is_v6 :: "address \<Rightarrow> bool" where
  "is_v6 (V4 _) = False"
| "is_v6 (V6 _) = True"

fun ep_protocol :: "endpoint \<Rightarrow> protocol" where
  "ep_protocol e = (if is_v4 (ep_address e) then Tcp_V4 else Tcp_V6)"

subsection \<open>The calls\<close>

text \<open>
  I/O objects (sockets, acceptors, timers) are named by handles. A timer's expiry is set to a number
  of milliseconds from now and returns how many outstanding waits that cancelled.
\<close>

type_synonym handle = nat

record 'w asio =
  ec_message :: "error_code \<Rightarrow> string"
  local_time :: "'w \<Rightarrow> string"
  socket_cancel :: "handle \<Rightarrow> 'w \<Rightarrow> error_code \<times> 'w"
  socket_close :: "handle \<Rightarrow> 'w \<Rightarrow> error_code \<times> 'w"
  socket_is_open :: "handle \<Rightarrow> 'w \<Rightarrow> bool"
  timer_expires_from_now :: "handle \<Rightarrow> nat \<Rightarrow> 'w \<Rightarrow> nat \<times> 'w"
  acceptor_create :: "'w \<Rightarrow> handle \<times> 'w"
  acceptor_open :: "handle \<Rightarrow> protocol \<Rightarrow> 'w \<Rightarrow> error_code \<times> 'w"
  acceptor_reuse_address :: "handle \<Rightarrow> bool \<Rightarrow> 'w \<Rightarrow> error_code \<times> 'w"
  acceptor_bind :: "handle \<Rightarrow> endpoint \<Rightarrow> 'w \<Rightarrow> error_code \<times> 'w"
  acceptor_listen :: "handle \<Rightarrow> 'w \<Rightarrow> error_code \<times> 'w"
  acceptor_close :: "handle \<Rightarrow> 'w \<Rightarrow> error_code \<times> 'w"
  acceptor_is_open :: "handle \<Rightarrow> 'w \<Rightarrow> bool"
  address_from_string :: "string \<Rightarrow> error_code \<times> address"
  address_to_string :: "address \<Rightarrow> string"
  host_name :: "'w \<Rightarrow> string result"
  resolve :: "string \<Rightarrow> string \<Rightarrow> 'w \<Rightarrow> endpoint list result"

text \<open>A socket is not open after \<open>close\<close> returned without an error.\<close>

definition close_closes :: "'w asio \<Rightarrow> bool" where
  "close_closes A \<longleftrightarrow>
     (\<forall>h w w'. socket_close A h w = (Success, w') \<longrightarrow> \<not> socket_is_open A h w')"

lemma close_closesD:
  "close_closes A \<Longrightarrow> socket_close A h w = (Success, w') \<Longrightarrow> \<not> socket_is_open A h w'"
  by (auto simp: close_closes_def)

text \<open>
  Cancelling and closing sockets leave alone what \<open>f\<close> shows of the world, for example what the
  handlers of the application keep in it.
\<close>

definition socket_calls_keep :: "'w asio \<Rightarrow> ('w \<Rightarrow> 'x) \<Rightarrow> bool" where
  "socket_calls_keep A f \<longleftrightarrow>
     (\<forall>h w. f (snd (socket_cancel A h w)) = f w \<and> f (snd (socket_close A h w)) = f w)"

text \<open>
  An acceptor is open after a successful \<open>open\<close> and not open after a successful \<open>close\<close>; setting an
  option, binding and listening change nothing about that.
\<close>

definition acceptor_laws :: "'w asio \<Rightarrow> bool" where
  "acceptor_laws A \<longleftrightarrow>
     (\<forall>h p w w'. acceptor_open A h p w = (Success, w') \<longrightarrow> acceptor_is_open A h w') \<and>
     (\<forall>h w w'. acceptor_close A h w = (Success, w') \<longrightarrow> \<not> acceptor_is_open A h w') \<and>
     (\<forall>h g b w. acceptor_is_open A g (snd (acceptor_reuse_address A h b w)) = acceptor_is_open A g w) \<and>
     (\<forall>h g e w. acceptor_is_open A g (snd (acceptor_bind A h e w)) = acceptor_is_open A g w) \<and>
     (\<forall>h g w. acceptor_is_open A g (snd (acceptor_listen A h w)) = acceptor_is_open A g w)"

text \<open>Closing an acceptor that is not open is not an error.\<close>

definition close_again :: "'w asio \<Rightarrow> bool" where
  "close_again A \<longleftrightarrow> (\<forall>h w. \<not> acceptor_is_open A h w \<longrightarrow> fst (acceptor_close A h w) = Success)"

lemma acceptor_lawsD:
  assumes "acceptor_laws A"
  shows "acceptor_open A h p w = (Success, w') \<Longrightarrow> acceptor_is_open A h w'"
    and "acceptor_close A h w = (Success, w') \<Longrightarrow> \<not> acceptor_is_open A h w'"
    and "acceptor_is_open A g (snd (acceptor_reuse_address A h b w)) = acceptor_is_open A g w"
    and "acceptor_is_open A g (snd (acceptor_bind A h e w)) = acceptor_is_open A g w"
    and "acceptor_is_open A g (snd (acceptor_listen A h w)) = acceptor_is_open A g w"
  using assms unfolding acceptor_laws_def by blast+

subsection \<open>Console output\<close>

datatype channel = Std_Out | Std_Err

type_synonym output_line = "channel \<times> string"

text \<open>The line both \<open>session::debug\<close> and \<open>server::debug\<close> write.\<close>

definition debug_line :: "string \<Rightarrow> string \<Rightarrow> string \<Rightarrow> output_line" where
  "debug_line time msg ec =
     (let oss = time @ '' | '' @ ''['' @ ''host:port'' @ ''] | '' @ msg
      in if ec \<noteq> [] then (Std_Err, oss @ '' | Error code: '' @ ec @ [CHR 0x0A])
         else (Std_Out, oss @ [CHR 0x0A]))"

end
