(* ===== verification/Session.thy ===== *)
theory Session
  imports Framing Asio
begin

section \<open>The base class of the sessions\<close>

text \<open>
  \<open>class session\<close> of \<open>session.hpp\<close> and \<open>session.cpp\<close>. Its state is the two message buffers, the
  socket below the secure stream, the asynchronous operations that are outstanding, and what it
  wrote to the console. The member functions issue operations; the completion handlers, which are
  lambdas in the source, are definitions of their own and take the virtual functions of the derived
  class as a record. All handlers of a session run through one strand, so a completion is one step.
  The locale \<open>session_hooks\<close> is the contract of the virtual functions: a handler that runs while
  nothing is outstanding leaves at most one operation behind, on buffers nobody touches.
\<close>

subsection \<open>State\<close>

datatype handshake_type = Handshake_Client | Handshake_Server

text \<open>
  An outstanding operation: a read with the size of the buffer it fills, a write with the bytes it
  sends. \<open>Op_Write_Null\<close> is the write of \<open>null_buffers\<close>, \<open>Op_Wait\<close> the wait of a timer.
\<close>

datatype async_op =
    Op_Handshake handshake_type
  | Op_Read_Header nat
  | Op_Read_Content nat
  | Op_Write_Header bytes
  | Op_Write_Content bytes
  | Op_Shutdown
  | Op_Write_Null
  | Op_Wait

record session =
  read_buffer :: message
  write_buffer :: message
  socket :: handle
  pending :: "async_op list"
  console :: "output_line list"

record 'w session_st = session +
  world :: 'w

text \<open>The constructor: both buffers are default constructed.\<close>

definition new_session :: "handle \<Rightarrow> 'w \<Rightarrow> 'w session_st" where
  "new_session sock w =
     \<lparr>read_buffer = new_message, write_buffer = new_message, socket = sock, pending = [],
      console = [], world = w\<rparr>"

text \<open>A session with the world of the object that keeps it.\<close>

definition attach :: "session \<Rightarrow> 'w \<Rightarrow> 'w session_st" where
  "attach x w = session.extend x (session_st.fields w)"

subsection \<open>Operations\<close>

definition debug :: "'w asio \<Rightarrow> string \<Rightarrow> string \<Rightarrow> 'w session_st \<Rightarrow> 'w session_st" where
  "debug A msg ec s = s\<lparr>console := console s @ [debug_line (local_time A (world s)) msg ec]\<rparr>"

definition with_read :: "(message \<Rightarrow> message) \<Rightarrow> 'w session_st \<Rightarrow> 'w session_st" where
  "with_read f s = s\<lparr>read_buffer := f (read_buffer s)\<rparr>"

definition with_write :: "(message \<Rightarrow> message) \<Rightarrow> 'w session_st \<Rightarrow> 'w session_st" where
  "with_write f s = s\<lparr>write_buffer := f (write_buffer s)\<rparr>"

definition issue :: "async_op \<Rightarrow> 'w session_st \<Rightarrow> 'w session_st" where
  "issue x s = s\<lparr>pending := pending s @ [x]\<rparr>"

definition do_secure_handshake :: "handshake_type \<Rightarrow> 'w session_st \<Rightarrow> 'w session_st" where
  "do_secure_handshake t s = issue (Op_Handshake t) s"

definition do_read_header :: "'w session_st \<Rightarrow> 'w session_st" where
  "do_read_header s = issue (Op_Read_Header (length (header_buffer (read_buffer s)))) s"

definition do_read_content :: "'w session_st \<Rightarrow> 'w session_st" where
  "do_read_content s = issue (Op_Read_Content (length (content_buffer (read_buffer s)))) s"

definition do_write_header :: "'w session_st \<Rightarrow> 'w session_st" where
  "do_write_header s = issue (Op_Write_Header (header_buffer (write_buffer s))) s"

definition do_write_content :: "'w session_st \<Rightarrow> 'w session_st" where
  "do_write_content s = issue (Op_Write_Content (content_buffer (write_buffer s))) s"

definition do_shutdown_secure_stream :: "'w session_st \<Rightarrow> 'w session_st" where
  "do_shutdown_secure_stream s = issue Op_Shutdown s"

definition stop :: "'w asio \<Rightarrow> 'w session_st \<Rightarrow> 'w session_st" where
  "stop A s =
     (case socket_cancel A (socket s) (world s) of (ec, w) \<Rightarrow>
        let s1 = s\<lparr>world := w\<rparr>;
            s2 = (if ec \<noteq> Success then debug A ''Error cancelling socket'' (ec_message A ec) s1 else s1)
        in do_shutdown_secure_stream s2)"

definition is_alive :: "'w asio \<Rightarrow> 'w session_st \<Rightarrow> bool" where
  "is_alive A s \<longleftrightarrow> socket_is_open A (socket s) (world s)"

subsection \<open>Virtual functions\<close>

text \<open>
  A member function that may throw returns a result. The record holds the functions a derived
  class overrides, and \<open>own_handler\<close>, the completion handlers of the
  operations the derived class issues itself.
\<close>

type_synonym 'w hook = "'w session_st \<Rightarrow> 'w session_st result"

record 'w session_vt =
  on_secure_handshake :: "'w hook"
  on_read_header :: "'w hook"
  on_read_content :: "'w hook"
  on_write_header :: "'w hook"
  on_write_content :: "'w hook"
  on_shutdown_secure_stream :: "'w hook"
  on_close_socket :: "'w hook"
  own_handler :: "async_op \<Rightarrow> error_code \<Rightarrow> 'w hook"

definition do_close_socket :: "'w asio \<Rightarrow> 'w hook \<Rightarrow> 'w hook" where
  "do_close_socket A on_close s =
     (case socket_close A (socket s) (world s) of (ec, w) \<Rightarrow>
        let s1 = s\<lparr>world := w\<rparr>
        in if ec = Success then on_close s1
           else Inr (debug A ''Error closing socket'' (ec_message A ec) s1))"

subsection \<open>Completion handlers\<close>

definition handshake_completed :: "'w asio \<Rightarrow> 'w session_vt \<Rightarrow> error_code \<Rightarrow> 'w hook" where
  "handshake_completed A V ec s =
     (if ec = Success then on_secure_handshake V s
      else if ec \<noteq> Operation_Aborted then
        do_close_socket A (on_close_socket V) (debug A ''Error on secure handshake'' (ec_message A ec) s)
      else Inr s)"

definition read_header_completed :: "'w asio \<Rightarrow> 'w session_vt \<Rightarrow> error_code \<Rightarrow> 'w hook" where
  "read_header_completed A V ec s =
     (if ec = Success then on_read_header V s
      else if ec \<noteq> Operation_Aborted then
        Inr (stop A (if ec \<noteq> Eof then debug A ''Error reading content'' (ec_message A ec) s else s))
      else Inr s)"

definition read_content_completed :: "'w asio \<Rightarrow> 'w session_vt \<Rightarrow> error_code \<Rightarrow> 'w hook" where
  "read_content_completed A V ec s =
     (if ec = Success then on_read_content V s
      else if ec \<noteq> Operation_Aborted then
        Inr (stop A (if ec \<noteq> Eof then debug A ''Error reading content'' (ec_message A ec) s else s))
      else Inr s)"

definition write_header_completed :: "'w asio \<Rightarrow> 'w session_vt \<Rightarrow> error_code \<Rightarrow> 'w hook" where
  "write_header_completed A V ec s =
     (if ec = Success then on_write_header V s
      else if ec \<noteq> Operation_Aborted then
        Inr (stop A (debug A ''Error writing header'' (ec_message A ec) s))
      else Inr s)"

definition write_content_completed :: "'w asio \<Rightarrow> 'w session_vt \<Rightarrow> error_code \<Rightarrow> 'w hook" where
  "write_content_completed A V ec s =
     (if ec = Success then on_write_content V s
      else if ec \<noteq> Operation_Aborted then
        Inr (stop A (debug A ''Error writing content'' (ec_message A ec) s))
      else Inr s)"

definition shutdown_completed :: "'w asio \<Rightarrow> 'w session_vt \<Rightarrow> error_code \<Rightarrow> 'w hook" where
  "shutdown_completed A V ec s =
     (if category ec \<noteq> Ssl_Category then on_shutdown_secure_stream V s
      else do_close_socket A (on_close_socket V)
             (debug A ''Failed to securely shut down the secure (SSL/TLS) protocol on the stream''
                (ec_message A ec) s))"

fun complete :: "'w asio \<Rightarrow> 'w session_vt \<Rightarrow> async_op \<Rightarrow> error_code \<Rightarrow> 'w hook" where
  "complete A V (Op_Handshake _) ec s = handshake_completed A V ec s"
| "complete A V (Op_Read_Header _) ec s = read_header_completed A V ec s"
| "complete A V (Op_Read_Content _) ec s = read_content_completed A V ec s"
| "complete A V (Op_Write_Header _) ec s = write_header_completed A V ec s"
| "complete A V (Op_Write_Content _) ec s = write_content_completed A V ec s"
| "complete A V Op_Shutdown ec s = shutdown_completed A V ec s"
| "complete A V Op_Write_Null ec s = own_handler V Op_Write_Null ec s"
| "complete A V Op_Wait ec s = own_handler V Op_Wait ec s"

subsection \<open>Completion events\<close>

text \<open>A read stores its bytes at the front of the buffer it was given.\<close>

definition overlay :: "bytes \<Rightarrow> bytes \<Rightarrow> bytes" where
  "overlay d xs = d @ drop (length d) xs"

fun store_read :: "async_op \<Rightarrow> bytes \<Rightarrow> 'w session_st \<Rightarrow> 'w session_st" where
  "store_read (Op_Read_Header _) d s =
     s\<lparr>read_buffer := read_buffer s\<lparr>header_buffer := overlay d (header_buffer (read_buffer s))\<rparr>\<rparr>"
| "store_read (Op_Read_Content _) d s =
     s\<lparr>read_buffer := read_buffer s\<lparr>content_buffer := overlay d (content_buffer (read_buffer s))\<rparr>\<rparr>"
| "store_read _ d s = s"

text \<open>
  What the library documents of a completion: a read delivers at most as many bytes as its buffer
  holds and exactly as many when it succeeds; the other operations deliver none.
\<close>

fun admissible :: "async_op \<Rightarrow> error_code \<Rightarrow> bytes \<Rightarrow> bool" where
  "admissible (Op_Read_Header n) ec d \<longleftrightarrow> length d \<le> n \<and> (ec = Success \<longrightarrow> length d = n)"
| "admissible (Op_Read_Content n) ec d \<longleftrightarrow> length d \<le> n \<and> (ec = Success \<longrightarrow> length d = n)"
| "admissible _ ec d \<longleftrightarrow> d = []"

text \<open>The operation at position \<open>i\<close> of the outstanding ones completes.\<close>

definition deliver ::
  "'w asio \<Rightarrow> 'w session_vt \<Rightarrow> nat \<Rightarrow> error_code \<Rightarrow> bytes \<Rightarrow> 'w session_st \<Rightarrow> 'w session_st result"
where
  "deliver A V i ec d s =
     (if i < length (pending s) then
        let x = pending s ! i;
            s1 = s\<lparr>pending := take i (pending s) @ drop (Suc i) (pending s)\<rparr>
        in complete A V x ec (store_read x d s1)
      else Inr s)"

text \<open>A sequence of completions, each of the operation that has been outstanding longest.\<close>

fun deliver_all ::
  "'w asio \<Rightarrow> 'w session_vt \<Rightarrow> (error_code \<times> bytes) list \<Rightarrow> 'w session_st \<Rightarrow> 'w session_st result"
where
  "deliver_all A V [] s = Inr s"
| "deliver_all A V ((ec, d) # es) s = bind_result (deliver A V 0 ec d s) (deliver_all A V es)"

text \<open>The bytes that go out on the stream in such a sequence, by the writes that succeed.\<close>

fun op_bytes :: "async_op \<Rightarrow> bytes" where
  "op_bytes (Op_Write_Header bs) = bs"
| "op_bytes (Op_Write_Content bs) = bs"
| "op_bytes _ = []"

fun emitted ::
  "'w asio \<Rightarrow> 'w session_vt \<Rightarrow> (error_code \<times> bytes) list \<Rightarrow> 'w session_st \<Rightarrow> bytes"
where
  "emitted A V [] s = []"
| "emitted A V ((ec, d) # es) s =
     (case pending s of
        [] \<Rightarrow> []
      | x # _ \<Rightarrow> (if ec = Success then op_bytes x else [])) @
     (case deliver A V 0 ec d s of Inl _ \<Rightarrow> [] | Inr t \<Rightarrow> emitted A V es t)"

inductive session_step :: "'w asio \<Rightarrow> 'w session_vt \<Rightarrow> 'w session_st \<Rightarrow> 'w session_st \<Rightarrow> bool"
  for A V where
  completion: "i < length (pending s) \<Longrightarrow> admissible (pending s ! i) ec d \<Longrightarrow>
     deliver A V i ec d s = Inr s' \<Longrightarrow> session_step A V s s'"

inductive session_run :: "'w asio \<Rightarrow> 'w session_vt \<Rightarrow> 'w session_st \<Rightarrow> 'w session_st \<Rightarrow> bool"
  for A V where
  run_refl: "session_run A V s s"
| run_step: "session_run A V s t \<Longrightarrow> session_step A V t u \<Longrightarrow> session_run A V s u"

inductive_cases session_stepE: "session_step A V s s'"

subsection \<open>How the operations act on the fields\<close>

named_theorems session_simps \<open>the operations of a session, field by field\<close>

lemma debug_fields [session_simps, simp]:
  "read_buffer (debug A m e s) = read_buffer s" "write_buffer (debug A m e s) = write_buffer s"
  "socket (debug A m e s) = socket s" "pending (debug A m e s) = pending s"
  "world (debug A m e s) = world s"
  by (simp_all add: debug_def)

lemma issue_fields [session_simps, simp]:
  "read_buffer (issue x s) = read_buffer s" "write_buffer (issue x s) = write_buffer s"
  "socket (issue x s) = socket s" "pending (issue x s) = pending s @ [x]"
  "world (issue x s) = world s" "console (issue x s) = console s"
  by (simp_all add: issue_def)

lemma with_fields [session_simps, simp]:
  "read_buffer (with_read f s) = f (read_buffer s)" "write_buffer (with_read f s) = write_buffer s"
  "socket (with_read f s) = socket s" "pending (with_read f s) = pending s"
  "world (with_read f s) = world s" "console (with_read f s) = console s"
  "read_buffer (with_write f s) = read_buffer s" "write_buffer (with_write f s) = f (write_buffer s)"
  "socket (with_write f s) = socket s" "pending (with_write f s) = pending s"
  "world (with_write f s) = world s" "console (with_write f s) = console s"
  by (simp_all add: with_read_def with_write_def)

lemmas do_defs = do_secure_handshake_def do_read_header_def do_read_content_def
  do_write_header_def do_write_content_def do_shutdown_secure_stream_def

lemma stop_fields [session_simps, simp]:
  "read_buffer (stop A s) = read_buffer s" "write_buffer (stop A s) = write_buffer s"
  "socket (stop A s) = socket s" "pending (stop A s) = pending s @ [Op_Shutdown]"
  "world (stop A s) = snd (socket_cancel A (socket s) (world s))"
  by (simp_all add: stop_def do_shutdown_secure_stream_def Let_def split: prod.splits)

lemma attach_fields [simp]:
  "read_buffer (attach x w) = read_buffer x" "write_buffer (attach x w) = write_buffer x"
  "socket (attach x w) = socket x" "pending (attach x w) = pending x"
  "console (attach x w) = console x" "world (attach x w) = w"
  by (simp_all add: attach_def session.extend_def session_st.fields_def)

lemma truncate_fields [simp]:
  "read_buffer (session.truncate s) = read_buffer s" "write_buffer (session.truncate s) = write_buffer s"
  "socket (session.truncate s) = socket s" "pending (session.truncate s) = pending s"
  "console (session.truncate s) = console s"
  by (simp_all add: session.truncate_def)

lemma truncate_attach [simp]: "session.truncate (attach x w) = x"
  by (cases x) (simp add: attach_def session.extend_def session_st.fields_def session.truncate_def)

lemma attach_truncate [simp]: "attach (session.truncate s) (world s) = s"
  by (cases s) (simp add: attach_def session.extend_def session_st.fields_def session.truncate_def)

lemma attach_world: "attach x w' = (attach x w)\<lparr>world := w'\<rparr>"
  by (simp add: attach_def session.extend_def session_st.fields_def)

lemma store_read_fields [session_simps, simp]:
  "write_buffer (store_read x d s) = write_buffer s" "socket (store_read x d s) = socket s"
  "pending (store_read x d s) = pending s" "world (store_read x d s) = world s"
  "console (store_read x d s) = console s"
  by (cases x; simp)+

lemma overlay_full: "length d = length xs \<Longrightarrow> overlay d xs = d"
  by (simp add: overlay_def)

lemma length_overlay: "length d \<le> length xs \<Longrightarrow> length (overlay d xs) = length xs"
  by (simp add: overlay_def)

subsection \<open>At most one operation, on buffers nobody touches\<close>

text \<open>
  The library requires that the memory of an outstanding operation stays valid and, for a write,
  unchanged. \<open>op_stable\<close> says so of one operation: the read buffer still has the size the read was
  issued with, the write buffer still holds the bytes the write was issued with.
\<close>

fun op_stable :: "'w session_st \<Rightarrow> async_op \<Rightarrow> bool" where
  "op_stable s (Op_Read_Header n) \<longleftrightarrow> length (header_buffer (read_buffer s)) = n"
| "op_stable s (Op_Read_Content n) \<longleftrightarrow> length (content_buffer (read_buffer s)) = n"
| "op_stable s (Op_Write_Header bs) \<longleftrightarrow> header_buffer (write_buffer s) = bs"
| "op_stable s (Op_Write_Content bs) \<longleftrightarrow> content_buffer (write_buffer s) = bs"
| "op_stable s _ \<longleftrightarrow> True"

definition sequential :: "'w session_st \<Rightarrow> bool" where
  "sequential s \<longleftrightarrow> length (pending s) \<le> 1 \<and> list_all (op_stable s) (pending s)"

lemma sequential_idle [intro]: "pending s = [] \<Longrightarrow> sequential s"
  by (simp add: sequential_def)

lemma sequential_single: "pending s = [x] \<Longrightarrow> op_stable s x \<Longrightarrow> sequential s"
  by (simp add: sequential_def)

lemma sequential_new: "sequential (new_session sock w)"
  by (simp add: sequential_def new_session_def)

lemma sequential_issue_do:
  assumes "pending s = []"
  shows "sequential (do_secure_handshake t s)" "sequential (do_read_header s)"
    "sequential (do_read_content s)" "sequential (do_write_header s)"
    "sequential (do_write_content s)" "sequential (do_shutdown_secure_stream s)"
    "sequential (stop A s)"
  using assms by (simp_all add: sequential_def do_defs)

text \<open>Only one completion is possible for a sequential session, and it leaves nothing outstanding.\<close>

lemma deliver_single:
  assumes "pending s = [x]"
  shows "deliver A V 0 ec d s = complete A V x ec (store_read x d (s\<lparr>pending := []\<rparr>))"
  using assms by (simp add: deliver_def)

lemma deliver_idle: "pending s = [] \<Longrightarrow> deliver A V i ec d s = Inr s"
  by (simp add: deliver_def)

lemma deliver_all_idle: "pending s = [] \<Longrightarrow> deliver_all A V es s = Inr s"
  by (induction es) (auto simp: deliver_idle)

lemma deliver_all_append:
  "deliver_all A V (es @ fs) s = bind_result (deliver_all A V es s) (deliver_all A V fs)"
proof (induction es arbitrary: s)
  case Nil
  then show ?case by simp
next
  case (Cons e es)
  obtain ec d where "e = (ec, d)" by (cases e)
  with Cons.IH show ?case by (cases "deliver A V 0 ec d s") simp_all
qed

lemma emitted_append:
  "deliver_all A V es s = Inr t \<Longrightarrow> emitted A V (es @ fs) s = emitted A V es s @ emitted A V fs t"
proof (induction es arbitrary: s)
  case Nil
  then show ?case by simp
next
  case (Cons e es)
  obtain ec d where e: "e = (ec, d)" by (cases e)
  from Cons.prems obtain u where "deliver A V 0 ec d s = Inr u" "deliver_all A V es u = Inr t"
    by (auto simp: e bind_result_conv)
  with Cons.IH show ?case by (simp add: e)
qed

lemma sequential_cases:
  assumes "sequential s"
  obtains "pending s = []" | x where "pending s = [x]" and "op_stable s x"
proof (cases "pending s")
  case Nil
  then show thesis by (rule that(1))
next
  case (Cons x xs)
  with assms have "pending s = [x]" "op_stable s x" by (simp_all add: sequential_def)
  then show thesis by (rule that(2))
qed

subsection \<open>Transfers that do not succeed\<close>

fun is_transfer :: "async_op \<Rightarrow> bool" where
  "is_transfer (Op_Read_Header _) = True"
| "is_transfer (Op_Read_Content _) = True"
| "is_transfer (Op_Write_Header _) = True"
| "is_transfer (Op_Write_Content _) = True"
| "is_transfer _ = False"

text \<open>A transfer or handshake that was cancelled does nothing.\<close>

lemma complete_aborted:
  "is_transfer x \<or> (\<exists>t. x = Op_Handshake t) \<Longrightarrow> complete A V x Operation_Aborted s = Inr s"
  by (cases x) (auto simp: handshake_completed_def read_header_completed_def
      read_content_completed_def write_header_completed_def write_content_completed_def)

text \<open>A transfer that failed stops the session, after at most a line on the console.\<close>

lemma complete_failed:
  assumes "is_transfer x" and "ec \<noteq> Success" and "ec \<noteq> Operation_Aborted"
  obtains s1 where "complete A V x ec s = Inr (stop A s1)" and "pending s1 = pending s"
    and "socket s1 = socket s" and "world s1 = world s"
    and "read_buffer s1 = read_buffer s" and "write_buffer s1 = write_buffer s"
  using assms
  by (cases x) (simp_all add: read_header_completed_def read_content_completed_def
      write_header_completed_def write_content_completed_def split: if_splits)

subsection \<open>Closing the socket\<close>

text \<open>
  Both derived classes only log in \<open>on_close_socket\<close>, so \<open>do_close_socket\<close> never throws, issues
  nothing and has the effect of the close call on the world.
\<close>

locale logging_close =
  fixes A :: "'w asio" and on_close :: "'w hook" and msg :: string
  assumes on_close_logs: "on_close s = Inr (debug A msg [] s)"
begin

lemma closes:
  obtains s' where "do_close_socket A on_close s = Inr s'" and "pending s' = pending s"
    and "socket s' = socket s" and "world s' = snd (socket_close A (socket s) (world s))"
    and "read_buffer s' = read_buffer s" and "write_buffer s' = write_buffer s"
proof (cases "socket_close A (socket s) (world s)")
  case (Pair ec w)
  then show thesis
    by (cases "ec = Success") (auto simp: do_close_socket_def on_close_logs intro: that)
qed

lemma close_no_fault: "do_close_socket A on_close s \<noteq> Inl e"
  by (rule closes [of s]) simp

lemma close_pending: "do_close_socket A on_close s = Inr s' \<Longrightarrow> pending s' = pending s"
  by (rule closes [of s]) simp

lemma close_world:
  "do_close_socket A on_close s = Inr s' \<Longrightarrow>
   world s' = snd (socket_close A (socket s) (world s)) \<and> socket s' = socket s"
  by (rule closes [of s]) simp

text \<open>A close that reports no error leaves the session dead.\<close>

lemma close_kills:
  assumes "close_closes A" and "do_close_socket A on_close s = Inr s'"
    and "fst (socket_close A (socket s) (world s)) = Success"
  shows "\<not> is_alive A s'"
proof -
  have "socket_close A (socket s) (world s) = (Success, world s')"
    using assms(3) close_world [OF assms(2)] by (simp add: prod_eq_iff)
  with assms(1) have "\<not> socket_is_open A (socket s) (world s')" by (rule close_closesD)
  then show ?thesis using close_world [OF assms(2)] by (simp add: is_alive_def)
qed

end

subsection \<open>Invariants of a session\<close>

text \<open>A predicate every admissible completion keeps holds in every state a session reaches.\<close>

locale session_invariant =
  fixes A :: "'w asio" and V :: "'w session_vt" and I :: "'w session_st \<Rightarrow> bool"
  assumes deliver_keeps: "deliver A V i ec d s = Inr s' \<Longrightarrow> i < length (pending s) \<Longrightarrow>
      admissible (pending s ! i) ec d \<Longrightarrow> I s \<Longrightarrow> I s'"
begin

lemma step_keeps: "session_step A V s s' \<Longrightarrow> I s \<Longrightarrow> I s'"
  by (erule session_stepE) (rule deliver_keeps)

lemma run_keeps: "session_run A V s s' \<Longrightarrow> I s \<Longrightarrow> I s'"
  by (induction rule: session_run.induct) (auto intro: step_keeps)

end

subsection \<open>The contract of the virtual functions\<close>

locale session_hooks =
  fixes V :: "'w session_vt"
  assumes hook_handshake:
      "on_secure_handshake V s = Inr s' \<Longrightarrow> pending s = [] \<Longrightarrow> sequential s'"
    and hook_read_header: "on_read_header V s = Inr s' \<Longrightarrow> pending s = [] \<Longrightarrow> sequential s'"
    and hook_read_content: "on_read_content V s = Inr s' \<Longrightarrow> pending s = [] \<Longrightarrow> sequential s'"
    and hook_write_header: "on_write_header V s = Inr s' \<Longrightarrow> pending s = [] \<Longrightarrow> sequential s'"
    and hook_write_content: "on_write_content V s = Inr s' \<Longrightarrow> pending s = [] \<Longrightarrow> sequential s'"
    and hook_shutdown:
      "on_shutdown_secure_stream V s = Inr s' \<Longrightarrow> pending s = [] \<Longrightarrow> sequential s'"
    and hook_close: "on_close_socket V s = Inr s' \<Longrightarrow> pending s = [] \<Longrightarrow> sequential s'"
    and hook_own: "own_handler V x ec s = Inr s' \<Longrightarrow> pending s = [] \<Longrightarrow> sequential s'"
begin

lemma close_sequential:
  "do_close_socket A (on_close_socket V) s = Inr s' \<Longrightarrow> pending s = [] \<Longrightarrow> sequential s'"
  by (auto simp: do_close_socket_def Let_def intro: hook_close sequential_idle
      split: prod.splits if_splits)

lemma complete_sequential:
  assumes "complete A V x ec s = Inr s'" and "pending s = []"
  shows "sequential s'"
  using assms
  by (cases x)
    (auto simp: handshake_completed_def read_header_completed_def read_content_completed_def
      write_header_completed_def write_content_completed_def shutdown_completed_def
      intro: hook_handshake hook_read_header hook_read_content hook_write_header
        hook_write_content hook_shutdown hook_own close_sequential sequential_issue_do
      split: if_splits)

lemma deliver_sequential:
  assumes "sequential s" and "deliver A V i ec d s = Inr s'"
  shows "sequential s'"
  using assms(1)
proof (cases rule: sequential_cases)
  case 1
  with assms show ?thesis by (simp add: deliver_def)
next
  case (2 x)
  show ?thesis
  proof (cases i)
    case 0
    with 2 assms(2) have "complete A V x ec (store_read x d (s\<lparr>pending := []\<rparr>)) = Inr s'"
      by (simp add: deliver_single)
    then show ?thesis by (rule complete_sequential) simp
  next
    case (Suc j)
    with 2 assms show ?thesis by (simp add: deliver_def)
  qed
qed

end

sublocale session_hooks \<subseteq> sequential: session_invariant A V sequential for A
  by unfold_locales (rule deliver_sequential)

end
