(* ===== verification/Files.thy ===== *)
theory Files
  imports Message Asio
begin

section \<open>Files, and the example handlers\<close>

text \<open>
  \<open>files.hpp\<close>, \<open>request_handler.hpp\<close> and \<open>response_handler.hpp\<close>. The host the handlers act on has
  a disk and a console. A path names a regular file with its bytes or something that can be opened
  but not positioned in (a pipe or a terminal device); on the latter \<open>tellg\<close> is -1, which
  \<open>resize\<close> takes as the largest \<open>size_t\<close>. A write to an opened file always succeeds in the model,
  and directories are not modelled.
\<close>

subsection \<open>The host\<close>

datatype node = Regular bytes | Unseekable

record host =
  disk :: "string \<Rightarrow> node option"
  writable :: "string \<Rightarrow> bool"
  screen :: "output_line list"

definition print_line :: "channel \<Rightarrow> string \<Rightarrow> 'a host_scheme \<Rightarrow> 'a host_scheme" where
  "print_line ch line w = w\<lparr>screen := screen w @ [(ch, line @ [CHR 0x0A])]\<rparr>"

text \<open>The position \<open>tellg\<close> reports at the end, as the \<open>size_t\<close> it is converted to.\<close>

fun end_position :: "node \<Rightarrow> size_t" where
  "end_position (Regular bs) = of_nat (length bs)"
| "end_position Unseekable = - 1"

fun node_bytes :: "node \<Rightarrow> bytes" where
  "node_bytes (Regular bs) = bs"
| "node_bytes Unseekable = []"

subsection \<open>Reading and writing a file\<close>

text \<open>
  \<open>pf\<close> is the text of \<open>__PRETTY_FUNCTION__\<close>. The header buffer of the message is left as it is.
\<close>

definition read_file ::
  "string \<Rightarrow> string \<Rightarrow> message \<Rightarrow> 'a host_scheme \<Rightarrow> (bool \<times> message \<times> 'a host_scheme) result"
where
  "read_file pf file_path m w =
     (case disk w file_path of
        Some file \<Rightarrow>
          bind_result (vec_resize (unat (end_position file)) (content_buffer m)) (\<lambda>c.
            let d = take (length c) (node_bytes file)
            in Inr (True, m\<lparr>content_buffer := d @ drop (length d) c\<rparr>, w))
      | None \<Rightarrow>
          Inr (False, m, print_line Std_Err
            (pf @ '' | The file ('' @ file_path @ '') could not be read!'') w))"

definition write_file ::
  "string \<Rightarrow> string \<Rightarrow> message \<Rightarrow> 'a host_scheme \<Rightarrow> bool \<times> 'a host_scheme"
where
  "write_file pf file_path m w =
     (if writable w file_path then
        (True, case disk w file_path of
                 Some Unseekable \<Rightarrow> w
               | _ \<Rightarrow> w\<lparr>disk := (disk w)(file_path \<mapsto> Regular (content_buffer m))\<rparr>)
      else
        (False, print_line Std_Err
           (pf @ '' | The file ('' @ file_path @ '') could not be written!'') w))"

subsection \<open>Handlers\<close>

text \<open>
  A request handler gets the request and the response message it is to fill; a response handler
  gets the response. Both may act on the world they run in.
\<close>

type_synonym 'w request_handler = "message \<Rightarrow> message \<Rightarrow> 'w \<Rightarrow> message \<times> 'w"

type_synonym 'w response_handler = "message \<Rightarrow> 'w \<Rightarrow> 'w"

definition handle_request :: "'w request_handler" where
  "handle_request request response w =
     (set_content_buffer (content_buffer request) response, w)"

definition handle_response :: "string \<Rightarrow> 'a host_scheme response_handler" where
  "handle_response pf response w =
     (if length (content_buffer response) > 10000 then
        (case write_file pf ''test.out'' response w of (ok, w') \<Rightarrow>
           if ok then print_line Std_Out
             ''CLIENT | Received content was larger then 10000. Written to file: test.out'' w'
           else w')
      else print_line Std_Out (''CLIENT | Received response: '' @ content_buffer response) w)"

subsection \<open>Facts\<close>

lemma content_handle_request:
  "content_buffer (fst (handle_request q r w)) = content_buffer q"
  "framed (fst (handle_request q r w))" "snd (handle_request q r w) = w"
  by (simp_all add: handle_request_def)

lemma unat_end_position_Regular:
  "length bs \<le> vec_max_size \<Longrightarrow> unat (end_position (Regular bs)) = length bs"
  by (simp add: unat_of_nat vec_max_size_def)

lemma unat_end_position_Unseekable: "unat (end_position Unseekable) > vec_max_size"
  by (simp add: vec_max_size_def unsigned_minus_1_eq_mask mask_eq_exp_minus_1)

lemma read_file_regular:
  assumes "disk w p = Some (Regular bs)" and "length bs \<le> vec_max_size"
  shows "read_file pf p m w = Inr (True, m\<lparr>content_buffer := bs\<rparr>, w)"
  using assms unat_end_position_Regular [OF assms(2)]
  by (simp add: read_file_def vec_resize_def Let_def del: end_position.simps)

lemma read_file_unseekable:
  "disk w p = Some Unseekable \<Longrightarrow> read_file pf p m w = Inl Length_Error"
  using unat_end_position_Unseekable
  by (simp add: read_file_def vec_resize_def del: end_position.simps)

lemma disk_print_line [simp]: "disk (print_line ch l w) = disk w"
  by (simp add: print_line_def)

lemma write_file_regular:
  assumes "writable w p" and "disk w p \<noteq> Some Unseekable"
  shows "write_file pf p m w =
           (True, w\<lparr>disk := (disk w)(p \<mapsto> Regular (content_buffer m))\<rparr>)"
  using assms by (auto simp: write_file_def split: option.splits node.splits)

end
