(* ===== verification/Client_Session.thy ===== *)
theory Client_Session
  imports Session Files
begin

section \<open>The client side of a session\<close>

text \<open>
  \<open>class client_session\<close>: the virtual functions of a session that performs the handshake as a
  client and then, for each message it is told to send, writes the request, reads the response and
  hands it to the response handler. \<open>send\<close> is called from outside the strand and does not look at
  what is outstanding: the lemmas show that the session keeps to one operation as long as \<open>send\<close>
  is called on a quiet session, and what happens when it is not.
\<close>

subsection \<open>Operations and overridden functions\<close>

definition default_timeout_ms :: nat where
  "default_timeout_ms = 10000"

definition client_start :: "'w session_st \<Rightarrow> 'w session_st" where
  "client_start s = do_secure_handshake Handshake_Client s"

definition client_session_send :: "message \<Rightarrow> 'w session_st \<Rightarrow> 'w session_st" where
  "client_session_send m s =
     (let s1 = with_write (\<lambda>_. m) s;
          s2 = with_write prepare_header_buffer_write s1
      in do_write_header s2)"

definition client_on_secure_handshake :: "'w asio \<Rightarrow> 'w hook" where
  "client_on_secure_handshake A s = Inr (debug A ''CLIENT | secure handshake OK'' [] s)"

definition client_on_write_header :: "'w asio \<Rightarrow> 'w hook" where
  "client_on_write_header A s =
     (let s1 = debug A ''CLIENT | write request header OK'' [] s
      in bind_result (prepare_content_buffer_write (write_buffer s1)) (\<lambda>m.
           Inr (do_write_content (with_write (\<lambda>_. m) s1))))"

definition client_on_write_content :: "'w asio \<Rightarrow> 'w hook" where
  "client_on_write_content A s =
     (let s1 = debug A ''CLIENT | write request content OK'' [] s;
          s2 = with_read prepare_header_buffer_read s1
      in Inr (do_read_header s2))"

definition client_on_read_header :: "'w asio \<Rightarrow> 'w hook" where
  "client_on_read_header A s =
     (let s1 = debug A ''CLIENT | read response header OK'' [] s
      in bind_result (prepare_content_buffer_read (read_buffer s1)) (\<lambda>m.
           Inr (do_read_content (with_read (\<lambda>_. m) s1))))"

definition client_on_read_content :: "'w asio \<Rightarrow> 'w response_handler \<Rightarrow> 'w hook" where
  "client_on_read_content A R s =
     (let s1 = debug A ''CLIENT | read response content OK'' [] s;
          s2 = s1\<lparr>world := R (read_buffer s1) (world s1)\<rparr>;
          s3 = with_read clear s2
      in Inr (with_write clear s3))"

definition client_on_close_socket :: "'w asio \<Rightarrow> 'w hook" where
  "client_on_close_socket A s = Inr (debug A ''CLIENT | socket close OK'' [] s)"

definition client_on_shutdown_secure_stream :: "'w asio \<Rightarrow> 'w hook" where
  "client_on_shutdown_secure_stream A s =
     do_close_socket A (client_on_close_socket A)
       (debug A ''CLIENT | shutting down secure (SSL/TLS) protocol on stream OK'' [] s)"

text \<open>The timeout, whose calls the source has commented out.\<close>

definition do_timeout :: "'w session_st \<Rightarrow> 'w session_st" where
  "do_timeout s = issue Op_Wait s"

definition timeout_completed :: "'w asio \<Rightarrow> error_code \<Rightarrow> 'w hook" where
  "timeout_completed A ec s =
     Inr (if ec = Success then stop A s
          else if ec \<noteq> Operation_Aborted then debug A ''async_wait failed'' (ec_message A ec) s
          else s)"

definition milliseconds_of_seconds :: "nat \<Rightarrow> nat" where
  "milliseconds_of_seconds n = 1000 * n"

definition set_timeout_expiry_time ::
  "'w asio \<Rightarrow> handle \<Rightarrow> nat \<Rightarrow> 'w session_st \<Rightarrow> 'w session_st"
where
  "set_timeout_expiry_time A timeout timeout_ms s =
     (case timer_expires_from_now A timeout (milliseconds_of_seconds timeout_ms) (world s) of
        (cancelled, w) \<Rightarrow>
          let s1 = s\<lparr>world := w\<rparr>
          in if cancelled > 0 then do_timeout s1
             else debug A ''timer has already expired or was never started at all'' '' '' s1)"

fun client_own_handler :: "'w asio \<Rightarrow> async_op \<Rightarrow> error_code \<Rightarrow> 'w hook" where
  "client_own_handler A Op_Wait ec s = timeout_completed A ec s"
| "client_own_handler A _ ec s = Inr s"

definition client_session :: "'w asio \<Rightarrow> 'w response_handler \<Rightarrow> 'w session_vt" where
  "client_session A R =
     \<lparr>on_secure_handshake = client_on_secure_handshake A,
      on_read_header = client_on_read_header A,
      on_read_content = client_on_read_content A R,
      on_write_header = client_on_write_header A,
      on_write_content = client_on_write_content A,
      on_shutdown_secure_stream = client_on_shutdown_secure_stream A,
      on_close_socket = client_on_close_socket A,
      own_handler = client_own_handler A\<rparr>"

lemmas client_defs = client_on_secure_handshake_def client_on_write_header_def
  client_on_write_content_def client_on_read_header_def client_on_read_content_def
  client_on_close_socket_def client_on_shutdown_secure_stream_def timeout_completed_def

lemma client_session_fields [simp]:
  "on_secure_handshake (client_session A R) = client_on_secure_handshake A"
  "on_read_header (client_session A R) = client_on_read_header A"
  "on_read_content (client_session A R) = client_on_read_content A R"
  "on_write_header (client_session A R) = client_on_write_header A"
  "on_write_content (client_session A R) = client_on_write_content A"
  "on_shutdown_secure_stream (client_session A R) = client_on_shutdown_secure_stream A"
  "on_close_socket (client_session A R) = client_on_close_socket A"
  "own_handler (client_session A R) = client_own_handler A"
  by (simp_all add: client_session_def)

subsection \<open>The client session keeps the contract\<close>

interpretation client_close: logging_close A "client_on_close_socket A" "''CLIENT | socket close OK''" for A
  by unfold_locales (simp add: client_on_close_socket_def)

interpretation client_hooks: session_hooks "client_session A R" for A R
proof unfold_locales
  fix s s' :: "'a session_st" and x ec
  assume idle: "pending s = []"
  show "sequential s'" if "on_secure_handshake (client_session A R) s = Inr s'"
    using that idle by (auto simp: client_defs)
  show "sequential s'" if "on_read_header (client_session A R) s = Inr s'"
    using that idle by (auto simp: client_defs Let_def bind_result_conv intro: sequential_issue_do)
  show "sequential s'" if "on_read_content (client_session A R) s = Inr s'"
    using that idle by (auto simp: client_defs Let_def)
  show "sequential s'" if "on_write_header (client_session A R) s = Inr s'"
    using that idle by (auto simp: client_defs Let_def bind_result_conv intro: sequential_issue_do)
  show "sequential s'" if "on_write_content (client_session A R) s = Inr s'"
    using that idle by (auto simp: client_defs Let_def intro: sequential_issue_do)
  show "sequential s'" if "on_shutdown_secure_stream (client_session A R) s = Inr s'"
    using that idle
    by (auto simp: client_on_shutdown_secure_stream_def intro!: sequential_idle
        dest: client_close.close_pending)
  show "sequential s'" if "on_close_socket (client_session A R) s = Inr s'"
    using that idle by (auto simp: client_defs)
  show "sequential s'" if "own_handler (client_session A R) x ec s = Inr s'"
    using that idle by (cases x) (auto simp: timeout_completed_def sequential_issue_do
        sequential_idle)
qed

subsection \<open>Sending\<close>

lemma send_sequential: "pending s = [] \<Longrightarrow> sequential (client_session_send m s)"
  by (simp add: client_session_send_def sequential_issue_do)

text \<open>
  The states of a client session whose owner sends only while nothing is outstanding.
\<close>

inductive client_reach ::
  "'w asio \<Rightarrow> 'w response_handler \<Rightarrow> 'w session_st \<Rightarrow> 'w session_st \<Rightarrow> bool"
  for A R where
  reach_start: "client_reach A R s (client_start s)" if "pending s = []"
| reach_step: "client_reach A R s t \<Longrightarrow> session_step A (client_session A R) t u \<Longrightarrow> client_reach A R s u"
| reach_send: "client_reach A R s t \<Longrightarrow> pending t = [] \<Longrightarrow>
    client_reach A R s (client_session_send m t)"
| reach_stop: "client_reach A R s t \<Longrightarrow> pending t = [] \<Longrightarrow> client_reach A R s (stop A t)"

lemma client_reach_sequential: "client_reach A R s t \<Longrightarrow> sequential t"
proof (induction rule: client_reach.induct)
  case (reach_start s)
  then show ?case by (simp add: client_start_def sequential_issue_do)
next
  case (reach_step s t u)
  then show ?case by (blast intro: client_hooks.sequential.step_keeps)
qed (auto intro: send_sequential sequential_issue_do)

subsection \<open>The documented sequence\<close>

datatype client_phase =
    C_Handshaking
  | C_Quiet
  | C_Writing_Header
  | C_Writing_Content
  | C_Awaiting_Header
  | C_Awaiting_Content
  | C_Shutting_Down

definition client_transfer_next :: "client_phase \<Rightarrow> error_code \<Rightarrow> client_phase" where
  "client_transfer_next p ec =
     (if ec = Success then p else if ec = Operation_Aborted then C_Quiet else C_Shutting_Down)"

fun client_phase_next :: "client_phase \<Rightarrow> error_code \<Rightarrow> client_phase" where
  "client_phase_next C_Handshaking ec = C_Quiet"
| "client_phase_next C_Quiet ec = C_Quiet"
| "client_phase_next C_Writing_Header ec = client_transfer_next C_Writing_Content ec"
| "client_phase_next C_Writing_Content ec = client_transfer_next C_Awaiting_Header ec"
| "client_phase_next C_Awaiting_Header ec = client_transfer_next C_Awaiting_Content ec"
| "client_phase_next C_Awaiting_Content ec = client_transfer_next C_Quiet ec"
| "client_phase_next C_Shutting_Down ec = C_Quiet"

fun client_phase_of :: "async_op list \<Rightarrow> client_phase option" where
  "client_phase_of [] = Some C_Quiet"
| "client_phase_of [Op_Handshake Handshake_Client] = Some C_Handshaking"
| "client_phase_of [Op_Write_Header _] = Some C_Writing_Header"
| "client_phase_of [Op_Write_Content _] = Some C_Writing_Content"
| "client_phase_of [Op_Read_Header _] = Some C_Awaiting_Header"
| "client_phase_of [Op_Read_Content _] = Some C_Awaiting_Content"
| "client_phase_of [Op_Shutdown] = Some C_Shutting_Down"
| "client_phase_of _ = None"

lemmas client_completed_defs = handshake_completed_def read_header_completed_def
  read_content_completed_def write_header_completed_def write_content_completed_def
  shutdown_completed_def

lemma client_deliver_phase:
  assumes "client_phase_of (pending s) = Some p"
    and "deliver A (client_session A R) 0 ec d s = Inr s'"
  shows "client_phase_of (pending s') = Some (client_phase_next p ec)"
  using assms
  by (cases "pending s" rule: client_phase_of.cases)
    (auto simp: deliver_idle deliver_single client_completed_defs client_defs do_defs
      client_transfer_next_def Let_def bind_result_conv
      dest!: client_close.close_pending split: if_splits)

lemma client_run_phase:
  assumes "client_phase_of (pending s) = Some p"
    and "deliver_all A (client_session A R) es s = Inr s'"
  shows "client_phase_of (pending s') = Some (fold (\<lambda>(ec, d) p. client_phase_next p ec) es p)"
  using assms
proof (induction es arbitrary: s p)
  case Nil
  then show ?case by simp
next
  case (Cons e es)
  obtain ec d where e: "e = (ec, d)" by (cases e)
  from Cons.prems(2) obtain t where t: "deliver A (client_session A R) 0 ec d s = Inr t"
    and rest: "deliver_all A (client_session A R) es t = Inr s'"
    by (auto simp: e bind_result_conv)
  from Cons.prems(1) t have "client_phase_of (pending t) = Some (client_phase_next p ec)"
    by (rule client_deliver_phase)
  from Cons.IH [OF this rest] show ?case by (simp add: e)
qed

subsection \<open>The end of a session\<close>

lemma client_shutdown:
  assumes "pending s = [Op_Shutdown]"
  obtains s' where "deliver A (client_session A R) 0 ec [] s = Inr s'"
    and "pending s' = []" and "socket s' = socket s"
    and "world s' = snd (socket_close A (socket s) (world s))"
proof -
  define t where "t = (if category ec \<noteq> Ssl_Category
      then debug A ''CLIENT | shutting down secure (SSL/TLS) protocol on stream OK'' [] (s\<lparr>pending := []\<rparr>)
      else debug A ''Failed to securely shut down the secure (SSL/TLS) protocol on the stream''
             (ec_message A ec) (s\<lparr>pending := []\<rparr>))"
  have "deliver A (client_session A R) 0 ec [] s = do_close_socket A (client_on_close_socket A) t"
    using assms by (simp add: t_def deliver_single shutdown_completed_def
        client_on_shutdown_secure_stream_def)
  moreover have "pending t = []" "socket t = socket s" "world t = world s" by (simp_all add: t_def)
  ultimately show thesis
    using client_close.closes [of A t] that by metis
qed

end
