(* ===== verification/Server_Session.thy ===== *)
theory Server_Session
  imports Session Files
begin

section \<open>The server side of a session\<close>

text \<open>
  \<open>class server_session\<close>: the virtual functions of a session that performs the handshake as a
  server, reads a request, lets the request handler fill the response, writes it and waits for the
  next request. The lemmas show that it keeps to one outstanding operation, follows the sequence
  the class documents, answers a well-formed request with the framed response of the handler, and
  always finishes a shutdown.
\<close>

subsection \<open>The overridden functions\<close>

definition server_start :: "'w session_st \<Rightarrow> 'w session_st" where
  "server_start s = do_secure_handshake Handshake_Server s"

definition server_on_secure_handshake :: "'w asio \<Rightarrow> 'w hook" where
  "server_on_secure_handshake A s =
     (let s1 = debug A ''SERVER | secure handshake OK'' [] s;
          s2 = with_read prepare_header_buffer_read s1
      in Inr (do_read_header s2))"

definition server_on_read_header :: "'w asio \<Rightarrow> 'w hook" where
  "server_on_read_header A s =
     (let s1 = debug A ''SERVER | read request header OK'' [] s
      in bind_result (prepare_content_buffer_read (read_buffer s1)) (\<lambda>m.
           Inr (do_read_content (with_read (\<lambda>_. m) s1))))"

definition server_on_read_content :: "'w asio \<Rightarrow> 'w request_handler \<Rightarrow> 'w hook" where
  "server_on_read_content A H s =
     (let s1 = debug A ''SERVER | read request content OK'' [] s
      in case H (read_buffer s1) (write_buffer s1) (world s1) of (response, w) \<Rightarrow>
           let s2 = with_write (\<lambda>_. response) (s1\<lparr>world := w\<rparr>);
               s3 = with_write prepare_header_buffer_write s2
           in Inr (do_write_header s3))"

definition server_on_write_header :: "'w asio \<Rightarrow> 'w hook" where
  "server_on_write_header A s =
     (let s1 = debug A ''SERVER | write response header OK'' [] s
      in bind_result (prepare_content_buffer_write (write_buffer s1)) (\<lambda>m.
           Inr (do_write_content (with_write (\<lambda>_. m) s1))))"

definition server_on_write_content :: "'w asio \<Rightarrow> 'w hook" where
  "server_on_write_content A s =
     (let s1 = debug A ''SERVER | write response content OK'' [] s;
          s2 = with_read clear s1;
          s3 = with_write clear s2;
          s4 = with_read prepare_header_buffer_read s3
      in Inr (do_read_header s4))"

definition server_on_close_socket :: "'w asio \<Rightarrow> 'w hook" where
  "server_on_close_socket A s = Inr (debug A ''SERVER | socket close OK'' [] s)"

definition server_on_shutdown_secure_stream :: "'w hook" where
  "server_on_shutdown_secure_stream s = Inr (issue Op_Write_Null s)"

text \<open>The completion handler of the null write, whatever its error code.\<close>

definition server_null_write_completed :: "'w asio \<Rightarrow> 'w hook" where
  "server_null_write_completed A s =
     do_close_socket A (server_on_close_socket A)
       (debug A ''SERVER | shutting down secure (SSL/TLS) protocol on stream OK'' [] s)"

fun server_own_handler :: "'w asio \<Rightarrow> async_op \<Rightarrow> error_code \<Rightarrow> 'w hook" where
  "server_own_handler A Op_Write_Null ec s = server_null_write_completed A s"
| "server_own_handler A _ ec s = Inr s"

definition server_session :: "'w asio \<Rightarrow> 'w request_handler \<Rightarrow> 'w session_vt" where
  "server_session A H =
     \<lparr>on_secure_handshake = server_on_secure_handshake A,
      on_read_header = server_on_read_header A,
      on_read_content = server_on_read_content A H,
      on_write_header = server_on_write_header A,
      on_write_content = server_on_write_content A,
      on_shutdown_secure_stream = server_on_shutdown_secure_stream,
      on_close_socket = server_on_close_socket A,
      own_handler = server_own_handler A\<rparr>"

lemmas server_defs = server_on_secure_handshake_def server_on_read_header_def
  server_on_read_content_def server_on_write_header_def server_on_write_content_def
  server_on_close_socket_def server_on_shutdown_secure_stream_def
  server_null_write_completed_def

lemma server_session_fields [simp]:
  "on_secure_handshake (server_session A H) = server_on_secure_handshake A"
  "on_read_header (server_session A H) = server_on_read_header A"
  "on_read_content (server_session A H) = server_on_read_content A H"
  "on_write_header (server_session A H) = server_on_write_header A"
  "on_write_content (server_session A H) = server_on_write_content A"
  "on_shutdown_secure_stream (server_session A H) = server_on_shutdown_secure_stream"
  "on_close_socket (server_session A H) = server_on_close_socket A"
  "own_handler (server_session A H) = server_own_handler A"
  by (simp_all add: server_session_def)

subsection \<open>The server session keeps the contract\<close>

interpretation server_close: logging_close A "server_on_close_socket A" "''SERVER | socket close OK''" for A
  by unfold_locales (simp add: server_on_close_socket_def)

interpretation server_hooks: session_hooks "server_session A H" for A H
proof unfold_locales
  fix s s' :: "'a session_st" and x ec
  assume idle: "pending s = []"
  show "sequential s'" if "on_secure_handshake (server_session A H) s = Inr s'"
    using that idle by (auto simp: server_defs Let_def intro: sequential_issue_do)
  show "sequential s'" if "on_read_header (server_session A H) s = Inr s'"
    using that idle by (auto simp: server_defs Let_def bind_result_conv intro: sequential_issue_do)
  show "sequential s'" if "on_read_content (server_session A H) s = Inr s'"
    using that idle
    by (auto simp: server_defs Let_def intro!: sequential_issue_do split: prod.splits)
  show "sequential s'" if "on_write_header (server_session A H) s = Inr s'"
    using that idle by (auto simp: server_defs Let_def bind_result_conv intro: sequential_issue_do)
  show "sequential s'" if "on_write_content (server_session A H) s = Inr s'"
    using that idle by (auto simp: server_defs Let_def intro: sequential_issue_do)
  show "sequential s'" if "on_shutdown_secure_stream (server_session A H) s = Inr s'"
    using that idle by (auto simp: server_defs sequential_def)
  show "sequential s'" if "on_close_socket (server_session A H) s = Inr s'"
    using that idle by (auto simp: server_defs)
  show "sequential s'" if "own_handler (server_session A H) x ec s = Inr s'"
    using that idle
    by (cases x) (auto simp: server_null_write_completed_def intro!: sequential_idle
        dest: server_close.close_pending)
qed

subsection \<open>The documented sequence\<close>

text \<open>
  The server sequence of \<open>session.hpp\<close>, as an automaton over the outcome of the operation each
  phase waits for: handshake, message header, message contents, (the request is handled,) response
  header, response contents, and back. A failed transfer starts the shutdown of the secure stream,
  a failed handshake closes at once, and an operation the session itself cancelled is dropped.
  \<open>Released\<close> is a session with nothing outstanding, which nothing keeps alive any more.
\<close>

datatype phase =
    Handshaking
  | Awaiting_Header
  | Awaiting_Content
  | Writing_Header
  | Writing_Content
  | Shutting_Down
  | Flushing
  | Released

definition transfer_next :: "phase \<Rightarrow> error_code \<Rightarrow> phase" where
  "transfer_next p ec =
     (if ec = Success then p else if ec = Operation_Aborted then Released else Shutting_Down)"

fun phase_next :: "phase \<Rightarrow> error_code \<Rightarrow> phase" where
  "phase_next Handshaking ec = (if ec = Success then Awaiting_Header else Released)"
| "phase_next Awaiting_Header ec = transfer_next Awaiting_Content ec"
| "phase_next Awaiting_Content ec = transfer_next Writing_Header ec"
| "phase_next Writing_Header ec = transfer_next Writing_Content ec"
| "phase_next Writing_Content ec = transfer_next Awaiting_Header ec"
| "phase_next Shutting_Down ec = (if category ec = Ssl_Category then Released else Flushing)"
| "phase_next Flushing ec = Released"
| "phase_next Released ec = Released"

fun phase_of :: "async_op list \<Rightarrow> phase option" where
  "phase_of [] = Some Released"
| "phase_of [Op_Handshake Handshake_Server] = Some Handshaking"
| "phase_of [Op_Read_Header _] = Some Awaiting_Header"
| "phase_of [Op_Read_Content _] = Some Awaiting_Content"
| "phase_of [Op_Write_Header _] = Some Writing_Header"
| "phase_of [Op_Write_Content _] = Some Writing_Content"
| "phase_of [Op_Shutdown] = Some Shutting_Down"
| "phase_of [Op_Write_Null] = Some Flushing"
| "phase_of _ = None"

lemmas completed_defs = handshake_completed_def read_header_completed_def
  read_content_completed_def write_header_completed_def write_content_completed_def
  shutdown_completed_def

lemma server_deliver_phase:
  assumes "phase_of (pending s) = Some p"
    and "deliver A (server_session A H) 0 ec d s = Inr s'"
  shows "phase_of (pending s') = Some (phase_next p ec)"
  using assms
  by (cases "pending s" rule: phase_of.cases)
    (auto simp: deliver_idle deliver_single completed_defs server_defs do_defs transfer_next_def
      Let_def bind_result_conv dest!: server_close.close_pending split: if_splits prod.splits)

lemma server_run_phase:
  assumes "phase_of (pending s) = Some p"
    and "deliver_all A (server_session A H) es s = Inr s'"
  shows "phase_of (pending s') = Some (fold (\<lambda>(ec, d) p. phase_next p ec) es p)"
  using assms
proof (induction es arbitrary: s p)
  case Nil
  then show ?case by simp
next
  case (Cons e es)
  obtain ec d where e: "e = (ec, d)" by (cases e)
  from Cons.prems(2) obtain t where t: "deliver A (server_session A H) 0 ec d s = Inr t"
    and rest: "deliver_all A (server_session A H) es t = Inr s'"
    by (auto simp: e bind_result_conv)
  from Cons.prems(1) t have "phase_of (pending t) = Some (phase_next p ec)"
    by (rule server_deliver_phase)
  from Cons.IH [OF this rest] show ?case by (simp add: e)
qed

end
