(* ===== verification/Server_Transaction.thy ===== *)
theory Server_Transaction
  imports Server_Session
begin

section \<open>What a server session does with a stream of requests\<close>

text \<open>
  The invariant of a server session in every reachable state, the only way it can fault, the
  answer to a stream of requests against the abstract request loop, and the end of a session.
\<close>

subsection \<open>The invariant\<close>

text \<open>
  What the buffers hold in each phase: a header read has the size of a header, a content read the
  size the received header declares, and a write is that of a framed response.
\<close>

fun server_pending_ok :: "'w session_st \<Rightarrow> async_op list \<Rightarrow> bool" where
  "server_pending_ok s [] \<longleftrightarrow> True"
| "server_pending_ok s [Op_Handshake Handshake_Server] \<longleftrightarrow> True"
| "server_pending_ok s [Op_Read_Header n] \<longleftrightarrow>
     n = default_header_length \<and> length (header_buffer (read_buffer s)) = n"
| "server_pending_ok s [Op_Read_Content n] \<longleftrightarrow>
     n = length (content_buffer (read_buffer s)) \<and> n < 10 ^ 10 \<and>
     get_header_buffer_content_length (read_buffer s) = Inr (of_nat n)"
| "server_pending_ok s [Op_Write_Header bs] \<longleftrightarrow>
     framed (write_buffer s) \<and> bs = header_buffer (write_buffer s)"
| "server_pending_ok s [Op_Write_Content bs] \<longleftrightarrow>
     framed (write_buffer s) \<and> bs = content_buffer (write_buffer s)"
| "server_pending_ok s [Op_Shutdown] \<longleftrightarrow> True"
| "server_pending_ok s [Op_Write_Null] \<longleftrightarrow> True"
| "server_pending_ok s _ \<longleftrightarrow> False"

definition server_inv :: "'w session_st \<Rightarrow> bool" where
  "server_inv s \<longleftrightarrow> server_pending_ok s (pending s)"

lemma server_inv_start: "server_inv (server_start (new_session sock w))"
  by (simp add: server_inv_def server_start_def new_session_def do_defs)

lemma server_inv_index: "server_inv s \<Longrightarrow> i < length (pending s) \<Longrightarrow> i = 0"
  by (cases "(s, pending s)" rule: server_pending_ok.cases) (auto simp: server_inv_def)

lemma server_inv_idle [intro]: "pending s = [] \<Longrightarrow> server_inv s"
  by (simp add: server_inv_def)

lemma server_inv_stop: "pending s = [] \<Longrightarrow> server_inv (stop A s)"
  by (simp add: server_inv_def)

lemma server_inv_read_header:
  "pending s = [] \<Longrightarrow> server_inv (do_read_header (with_read prepare_header_buffer_read s))"
  by (simp add: server_inv_def do_defs)

lemma server_on_read_header_inv:
  assumes "server_on_read_header A s = Inr s'" and "pending s = []"
    and "length (header_buffer (read_buffer s)) = 28"
  shows "server_inv s'"
proof -
  from assms(1) obtain m where m: "prepare_content_buffer_read (read_buffer s) = Inr m"
    and s': "s' = do_read_content (with_read (\<lambda>_. m)
                    (debug A ''SERVER | read request header OK'' [] s))"
    by (auto simp: server_on_read_header_def Let_def bind_result_conv)
  from prepare_content_read_sized [OF m assms(3)] show ?thesis
    using assms(2) by (simp add: s' server_inv_def do_defs)
qed

lemma server_on_write_header_inv:
  assumes "server_on_write_header A s = Inr s'" and "pending s = []" and "framed (write_buffer s)"
  shows "server_inv s'"
  using assms
  by (auto simp: server_on_write_header_def Let_def server_inv_def do_defs
      prepare_content_write_framed)

lemma server_on_read_content_inv:
  "server_on_read_content A H s = Inr s' \<Longrightarrow> pending s = [] \<Longrightarrow> server_inv s'"
  by (auto simp: server_on_read_content_def Let_def server_inv_def do_defs split: prod.splits)

lemma server_close_inv:
  "do_close_socket A (server_on_close_socket A) s = Inr s' \<Longrightarrow> pending s = [] \<Longrightarrow> server_inv s'"
  by (rule server_inv_idle) (simp add: server_close.close_pending)

lemma server_deliver_inv:
  assumes step: "deliver A (server_session A H) i ec d s = Inr s'"
    and i: "i < length (pending s)" and ok: "admissible (pending s ! i) ec d" and inv: "server_inv s"
  shows "server_inv s'"
proof -
  have 0: "i = 0" using inv i by (rule server_inv_index)
  obtain x where x: "pending s = [x]"
    using inv i by (cases "(s, pending s)" rule: server_pending_ok.cases) (auto simp: server_inv_def)
  let ?s = "store_read x d (s\<lparr>pending := []\<rparr>)"
  have step': "complete A (server_session A H) x ec ?s = Inr s'"
    using step by (simp add: 0 deliver_single [OF x])
  have idle: "pending ?s = []" by simp
  show ?thesis
  proof (cases x)
    case (Op_Handshake t)
    with step' idle show ?thesis
      by (auto simp: completed_defs server_on_secure_handshake_def Let_def
          intro: server_inv_read_header server_close_inv split: if_splits)
  next
    case (Op_Read_Header n)
    with inv ok x 0 have "length (header_buffer (read_buffer ?s)) = 28"
      by (simp add: server_inv_def length_overlay)
    with step' idle Op_Read_Header show ?thesis
      by (auto simp: completed_defs simp del: store_read.simps
          intro: server_on_read_header_inv server_inv_stop split: if_splits)
  next
    case (Op_Read_Content n)
    with step' idle show ?thesis
      by (auto simp: completed_defs simp del: store_read.simps
          intro: server_on_read_content_inv server_inv_stop split: if_splits)
  next
    case (Op_Write_Header bs)
    with inv x have "framed (write_buffer ?s)" by (simp add: server_inv_def)
    with step' idle Op_Write_Header show ?thesis
      by (auto simp: completed_defs intro: server_on_write_header_inv server_inv_stop
          split: if_splits)
  next
    case (Op_Write_Content bs)
    with step' idle show ?thesis
      by (auto simp: completed_defs server_on_write_content_def Let_def
          intro: server_inv_read_header server_inv_stop split: if_splits)
  next
    case Op_Shutdown
    with step' idle show ?thesis
      by (auto simp: completed_defs server_on_shutdown_secure_stream_def server_inv_def
          dest: server_close.close_pending split: if_splits)
  next
    case Op_Write_Null
    with step' idle show ?thesis
      by (auto simp: server_null_write_completed_def intro: server_close_inv)
  next
    case Op_Wait
    with inv x show ?thesis by (simp add: server_inv_def)
  qed
qed

interpretation server_invariant: session_invariant A "server_session A H" server_inv for A H
  by unfold_locales (rule server_deliver_inv)

subsection \<open>The only fault\<close>

declare server_close.close_no_fault [simp]

text \<open>
  A server session faults only on the completion of a header read, and then because
  \<open>prepare_content_buffer_read\<close> faults on the header that arrived.
\<close>

lemma server_fault_header:
  assumes step: "deliver A (server_session A H) i ec d s = Inl e" and inv: "server_inv s"
    and i: "i < length (pending s)" and ok: "admissible (pending s ! i) ec d"
  shows "ec = Success \<and> pending s = [Op_Read_Header 28] \<and> length d = 28 \<and>
         prepare_content_buffer_read (read_buffer s\<lparr>header_buffer := d\<rparr>) = Inl e"
proof -
  have 0: "i = 0" using inv i by (rule server_inv_index)
  obtain x where x: "pending s = [x]"
    using inv i by (cases "(s, pending s)" rule: server_pending_ok.cases) (auto simp: server_inv_def)
  have step': "complete A (server_session A H) x ec (store_read x d (s\<lparr>pending := []\<rparr>)) = Inl e"
    using step by (simp add: 0 deliver_single [OF x])
  show ?thesis
  proof (cases x)
    case (Op_Read_Header n)
    with inv x have n: "n = 28" "length (header_buffer (read_buffer s)) = 28"
      by (simp_all add: server_inv_def)
    with step' Op_Read_Header have ec: "ec = Success"
      by (auto simp: completed_defs split: if_splits)
    with ok x 0 Op_Read_Header n have "length d = 28" by simp
    with step' ec n x Op_Read_Header show ?thesis
      by (auto simp: completed_defs server_on_read_header_def Let_def overlay_full
          bind_result_conv)
  next
    case (Op_Write_Header bs)
    with inv x have "framed (write_buffer s)" by (simp add: server_inv_def)
    with step' Op_Write_Header show ?thesis
      by (auto simp: completed_defs server_on_write_header_def Let_def
          prepare_content_write_framed split: if_splits)
  next
    case (Op_Handshake t)
    with step' show ?thesis
      by (auto simp: completed_defs server_on_secure_handshake_def Let_def split: if_splits)
  next
    case Op_Shutdown
    with step' show ?thesis
      by (auto simp: completed_defs server_on_shutdown_secure_stream_def split: if_splits)
  next
    case Op_Write_Null
    with step' show ?thesis
      by (auto simp: server_null_write_completed_def)
  next
    case Op_Wait
    with inv x show ?thesis by (simp add: server_inv_def)
  qed (use step' in \<open>auto simp: completed_defs server_on_read_content_def
      server_on_write_content_def Let_def split: if_splits prod.splits\<close>)
qed

subsection \<open>The four completions of a transaction\<close>

lemma server_request_header:
  assumes "pending s = [Op_Read_Header n]" and "length (header_buffer (read_buffer s)) = n"
    and "length h = n" and "prepare_content_buffer_read (read_buffer s\<lparr>header_buffer := h\<rparr>) = Inr m"
  obtains t where "deliver A (server_session A H) 0 Success h s = Inr t"
    and "pending t = [Op_Read_Content (length (content_buffer m))]" and "read_buffer t = m"
    and "write_buffer t = write_buffer s" and "world t = world s"
  using assms
  by (simp add: deliver_single completed_defs server_on_read_header_def Let_def overlay_full do_defs)

lemma server_request_content:
  assumes "pending s = [Op_Read_Content n]" and "length (content_buffer (read_buffer s)) = n"
    and "length c = n"
    and "H (read_buffer s\<lparr>content_buffer := c\<rparr>) (write_buffer s) (world s) = (response, w)"
  obtains t where "deliver A (server_session A H) 0 Success c s = Inr t"
    and "pending t = [Op_Write_Header (header_buffer (prepare_header_buffer_write response))]"
    and "write_buffer t = prepare_header_buffer_write response" and "world t = w"
  using assms
  by (simp add: deliver_single completed_defs server_on_read_content_def Let_def overlay_full do_defs)

lemma server_response_header:
  assumes "pending s = [Op_Write_Header bs]" and "framed (write_buffer s)"
  obtains t where "deliver A (server_session A H) 0 Success [] s = Inr t"
    and "pending t = [Op_Write_Content (content_buffer (write_buffer s))]"
    and "write_buffer t = write_buffer s" and "world t = world s"
  using assms
  by (simp add: deliver_single completed_defs server_on_write_header_def Let_def do_defs
      prepare_content_write_framed)

lemma server_response_content:
  assumes "pending s = [Op_Write_Content bs]"
  obtains t where "deliver A (server_session A H) 0 Success [] s = Inr t"
    and "pending t = [Op_Read_Header 28]" and "read_buffer t = new_message"
    and "write_buffer t = empty_message" and "world t = world s"
proof -
  have "prepare_header_buffer_read (clear m) = new_message" "clear m = empty_message" for m
    by (simp_all add: new_message_def prepare_header_buffer_read_def clear_def empty_message_def
        clear_header_buffer_def clear_content_buffer_def)
  with assms that show thesis
    by (simp add: deliver_single completed_defs server_on_write_content_def Let_def do_defs)
qed

subsection \<open>A stream of requests\<close>

text \<open>A session that waits for a request, and the completions by which one request is served.\<close>

definition ready :: "'w session_st \<Rightarrow> bool" where
  "ready s \<longleftrightarrow> pending s = [Op_Read_Header 28] \<and> length (header_buffer (read_buffer s)) = 28"

definition request_events :: "bytes \<Rightarrow> (error_code \<times> bytes) list" where
  "request_events c =
     [(Success, header_buffer (message_of c)), (Success, c), (Success, []), (Success, [])]"

text \<open>
  The abstract request loop: the handler is called on each request with the output message it finds
  (empty after the first response), and its response goes out framed.
\<close>

fun serve :: "'w request_handler \<Rightarrow> message \<Rightarrow> 'w \<Rightarrow> bytes list \<Rightarrow> bytes \<times> 'w" where
  "serve H out w [] = ([], w)"
| "serve H out w (c # cs) =
     (case H (message_of c) out w of
        (response, w1) \<Rightarrow>
          (case serve H empty_message w1 cs of
             (bs, w2) \<Rightarrow> (wire (prepare_header_buffer_write response) @ bs, w2)))"

lemma server_handshake:
  obtains t where "deliver A (server_session A H) 0 Success [] (server_start (new_session k w)) = Inr t"
    and "ready t" and "write_buffer t = new_message" and "world t = w"
proof (rule that [of "do_read_header (with_read prepare_header_buffer_read
      (debug A ''SERVER | secure handshake OK'' [] (new_session k w)))"])
  have "server_start (new_session k w)\<lparr>pending := []\<rparr> = new_session k w"
    by (simp add: server_start_def do_defs issue_def new_session_def)
  moreover have "pending (server_start (new_session k w)) = [Op_Handshake Handshake_Server]"
    by (simp add: server_start_def do_defs new_session_def)
  ultimately show "deliver A (server_session A H) 0 Success [] (server_start (new_session k w)) =
      Inr (do_read_header (with_read prepare_header_buffer_read
        (debug A ''SERVER | secure handshake OK'' [] (new_session k w))))"
    by (simp add: deliver_single completed_defs server_on_secure_handshake_def Let_def)
qed (simp_all add: ready_def do_defs new_session_def)

lemma server_transaction:
  assumes "ready s" and c: "fits c" and H: "H (message_of c) (write_buffer s) (world s) = (r, w)"
  obtains t where "deliver_all A (server_session A H) (request_events c) s = Inr t" and "ready t"
    and "write_buffer t = empty_message" and "world t = w"
    and "emitted A (server_session A H) (request_events c) s = wire (prepare_header_buffer_write r)"
proof -
  let ?V = "server_session A H" and ?h = "header_buffer (message_of c)"
  let ?m = "read_buffer s\<lparr>header_buffer := ?h, content_buffer := replicate (length c) zero_byte\<rparr>"
  have p: "pending s = [Op_Read_Header 28]" and len: "length (header_buffer (read_buffer s)) = 28"
    using assms(1) by (simp_all add: ready_def)
  have h: "length ?h = 28" using c by (simp add: length_framed_header_iff)
  have "prepare_content_buffer_read (read_buffer s\<lparr>header_buffer := ?h\<rparr>) = Inr ?m"
    using prepare_content_read_framed [of "message_of c"] c by simp
  from server_request_header [OF p len h this, of A H] obtain s1 where
    d1: "deliver A ?V 0 Success ?h s = Inr s1" and p1: "pending s1 = [Op_Read_Content (length c)]"
    and s1: "read_buffer s1 = ?m" "write_buffer s1 = write_buffer s" "world s1 = world s"
    by auto
  have req: "read_buffer s1\<lparr>content_buffer := c\<rparr> = message_of c"
    by (intro message.equality) (simp_all add: s1)
  have "H (read_buffer s1\<lparr>content_buffer := c\<rparr>) (write_buffer s1) (world s1) = (r, w)"
    by (simp only: req s1(2,3) H)
  from server_request_content [where s = s1 and c = c and H = H and A = A, OF p1 _ refl this] obtain s2 where
    d2: "deliver A ?V 0 Success c s1 = Inr s2"
    and p2: "pending s2 = [Op_Write_Header (header_buffer (prepare_header_buffer_write r))]"
    and s2: "write_buffer s2 = prepare_header_buffer_write r" "world s2 = w"
    by (auto simp: s1)
  from server_response_header [OF p2, of A H] obtain s3 where
    d3: "deliver A ?V 0 Success [] s2 = Inr s3"
    and p3: "pending s3 = [Op_Write_Content (content_buffer (write_buffer s2))]"
    and s3: "world s3 = w"
    by (auto simp: s2)
  from server_response_content [OF p3, of A H] obtain t where
    d4: "deliver A ?V 0 Success [] s3 = Inr t" and t: "pending t = [Op_Read_Header 28]"
      "read_buffer t = new_message" "write_buffer t = empty_message" "world t = w"
    by (auto simp: s3)
  show thesis
  proof (rule that)
    show "deliver_all A ?V (request_events c) s = Inr t"
      by (simp add: request_events_def d1 d2 d3 d4)
    show "ready t" using t by (simp add: ready_def new_message_def)
    show "emitted A ?V (request_events c) s = wire (prepare_header_buffer_write r)"
      by (simp add: request_events_def d1 d2 d3 d4 p p1 p2 p3 s2 wire_def)
  qed (use t in auto)
qed

lemma server_serves:
  assumes "ready s" and "list_all fits cs"
  shows "\<exists>t. deliver_all A (server_session A H) (concat (map request_events cs)) s = Inr t \<and> ready t \<and>
    emitted A (server_session A H) (concat (map request_events cs)) s =
      fst (serve H (write_buffer s) (world s) cs) \<and>
    world t = snd (serve H (write_buffer s) (world s) cs)"
  using assms
proof (induction cs arbitrary: s)
  case Nil
  then show ?case by simp
next
  case (Cons c cs)
  obtain r w where H: "H (message_of c) (write_buffer s) (world s) = (r, w)" by fastforce
  from Cons.prems have "ready s" "fits c" "list_all fits cs" by simp_all
  from server_transaction [where H = H and A = A, OF this(1,2) H] obtain u where
    u: "deliver_all A (server_session A H) (request_events c) s = Inr u" "ready u"
      "write_buffer u = empty_message" "world u = w"
    and out: "emitted A (server_session A H) (request_events c) s = wire (prepare_header_buffer_write r)"
    by blast
  from Cons.IH [OF u(2) \<open>list_all fits cs\<close>] obtain t where
    t: "deliver_all A (server_session A H) (concat (map request_events cs)) u = Inr t" "ready t"
      "emitted A (server_session A H) (concat (map request_events cs)) u = fst (serve H empty_message w cs)"
      "world t = snd (serve H empty_message w cs)"
    by (auto simp: u)
  have "serve H (write_buffer s) (world s) (c # cs) =
        (wire (prepare_header_buffer_write r) @ fst (serve H empty_message w cs),
         snd (serve H empty_message w cs))"
    by (simp add: H split: prod.split)
  then show ?case using u(1) t out emitted_append [OF u(1)]
    by (intro exI [of _ t]) (simp add: deliver_all_append)
qed

lemma serve_echo: "serve handle_request out w cs = (concat (map encode cs), w)"
proof (induction cs arbitrary: out)
  case Nil
  then show ?case by simp
next
  case (Cons c cs)
  then show ?case by (simp add: handle_request_def)
qed

subsection \<open>The end of a session\<close>

lemma server_shutdown:
  assumes "pending s = [Op_Shutdown]"
  obtains s' where "deliver_all A (server_session A H) [(ec1, []), (ec2, [])] s = Inr s'"
    and "pending s' = []" and "world s' = snd (socket_close A (socket s) (world s))"
    and "socket s' = socket s"
proof (cases "category ec1 = Ssl_Category")
  case True
  obtain s' where "do_close_socket A (server_on_close_socket A)
      (debug A ''Failed to securely shut down the secure (SSL/TLS) protocol on the stream''
         (ec_message A ec1) (s\<lparr>pending := []\<rparr>)) = Inr s'"
    and "pending s' = []" "world s' = snd (socket_close A (socket s) (world s))"
    and "socket s' = socket s"
    by (rule server_close.closes [of A "debug A ''Failed to securely shut down the secure (SSL/TLS) protocol on the stream''
         (ec_message A ec1) (s\<lparr>pending := []\<rparr>)"]) auto
  with True assms show thesis
    by (intro that [of s']) (simp_all add: deliver_single completed_defs deliver_idle)
next
  case False
  let ?s = "debug A ''SERVER | shutting down secure (SSL/TLS) protocol on stream OK'' []
              (issue Op_Write_Null (s\<lparr>pending := []\<rparr>)\<lparr>pending := []\<rparr>)"
  obtain s' where "do_close_socket A (server_on_close_socket A) ?s = Inr s'"
    and "pending s' = []" "world s' = snd (socket_close A (socket s) (world s))"
    and "socket s' = socket s"
    by (rule server_close.closes [of A ?s]) auto
  with False assms show thesis
    by (intro that [of s'])
      (simp_all add: deliver_single completed_defs server_on_shutdown_secure_stream_def
        server_null_write_completed_def)
qed

end
