(* ===== verification/Client_Transaction.thy ===== *)
theory Client_Transaction
  imports Client_Session Server_Transaction
begin

section \<open>A request and its response, at the client and end to end\<close>

text \<open>
  What a client session does from \<open>send\<close> to the call of the response handler, and the composition of
  a client session with a server session: the bytes one emits are the bytes the other reads.
\<close>

subsection \<open>The four completions at the client\<close>

definition request_write_events :: "(error_code \<times> bytes) list" where
  "request_write_events = [(Success, []), (Success, [])]"

definition response_read_events :: "bytes \<Rightarrow> (error_code \<times> bytes) list" where
  "response_read_events c = [(Success, header_buffer (message_of c)), (Success, c)]"

lemma client_request:
  assumes "pending s = []"
  obtains t where
    "deliver_all A (client_session A R) request_write_events (client_session_send m s) = Inr t"
    and "emitted A (client_session A R) request_write_events (client_session_send m s) =
         encode (content_buffer m)"
    and "pending t = [Op_Read_Header 28]" and "length (header_buffer (read_buffer t)) = 28"
    and "world t = world s"
proof -
  let ?f = "prepare_header_buffer_write m"
  from assms wire_prepared [of m] show thesis
    by (intro that [of "do_read_header (with_read prepare_header_buffer_read
            (debug A ''CLIENT | write request content OK'' []
              (do_write_content (with_write (\<lambda>_. ?f)
                (debug A ''CLIENT | write request header OK'' []
                  (client_session_send m s\<lparr>pending := []\<rparr>)))\<lparr>pending := []\<rparr>)))"])
      (simp_all add: request_write_events_def client_session_send_def deliver_single
        client_completed_defs client_on_write_header_def client_on_write_content_def do_defs Let_def
        prepare_content_write_framed wire_def)
qed

lemma client_header_written:
  assumes "pending s = [Op_Write_Header bs]" and "framed (write_buffer s)"
  obtains t where "deliver A (client_session A R) 0 Success [] s = Inr t"
    and "pending t = [Op_Write_Content (content_buffer (write_buffer s))]" and "world t = world s"
  using assms
  by (simp add: deliver_single client_completed_defs client_on_write_header_def Let_def do_defs
      prepare_content_write_framed)

lemma client_content_written:
  assumes "pending s = [Op_Write_Content bs]"
  obtains t where "deliver A (client_session A R) 0 Success [] s = Inr t"
    and "pending t = [Op_Read_Header 28]" and "length (header_buffer (read_buffer t)) = 28"
    and "world t = world s"
  using assms
  by (simp add: deliver_single client_completed_defs client_on_write_content_def Let_def do_defs)

lemma client_response_header:
  assumes "pending s = [Op_Read_Header n]" and "length (header_buffer (read_buffer s)) = n"
    and "length h = n" and "prepare_content_buffer_read (read_buffer s\<lparr>header_buffer := h\<rparr>) = Inr m"
  obtains t where "deliver A (client_session A R) 0 Success h s = Inr t"
    and "pending t = [Op_Read_Content (length (content_buffer m))]" and "read_buffer t = m"
    and "write_buffer t = write_buffer s" and "world t = world s"
  using assms
  by (simp add: deliver_single client_completed_defs client_on_read_header_def Let_def overlay_full
      do_defs)

lemma client_response_content:
  assumes "pending s = [Op_Read_Content n]" and "length (content_buffer (read_buffer s)) = n"
    and "length c = n"
  obtains t where "deliver A (client_session A R) 0 Success c s = Inr t" and "pending t = []"
    and "read_buffer t = empty_message" and "write_buffer t = empty_message"
    and "world t = R (read_buffer s\<lparr>content_buffer := c\<rparr>) (world s)"
proof -
  have "clear m = empty_message" for m
    by (simp add: clear_def empty_message_def clear_header_buffer_def clear_content_buffer_def)
  with assms that show thesis
    by (simp add: deliver_single client_completed_defs client_on_read_content_def Let_def
        overlay_full)
qed

lemma client_response:
  assumes p: "pending s = [Op_Read_Header 28]" and len: "length (header_buffer (read_buffer s)) = 28"
    and c: "fits c"
  obtains t where "deliver_all A (client_session A R) (response_read_events c) s = Inr t"
    and "pending t = []" and "read_buffer t = empty_message" and "write_buffer t = empty_message"
    and "world t = R (message_of c) (world s)"
proof -
  let ?V = "client_session A R" and ?h = "header_buffer (message_of c)"
  let ?m = "read_buffer s\<lparr>header_buffer := ?h, content_buffer := replicate (length c) zero_byte\<rparr>"
  have h: "length ?h = 28" using c by (simp add: length_framed_header_iff)
  have "prepare_content_buffer_read (read_buffer s\<lparr>header_buffer := ?h\<rparr>) = Inr ?m"
    using prepare_content_read_framed [of "message_of c"] c by simp
  from client_response_header [OF p len h this, of A R] obtain s1 where
    d1: "deliver A ?V 0 Success ?h s = Inr s1" and p1: "pending s1 = [Op_Read_Content (length c)]"
    and s1: "read_buffer s1 = ?m" "world s1 = world s"
    by auto
  have req: "read_buffer s1\<lparr>content_buffer := c\<rparr> = message_of c"
    by (intro message.equality) (simp_all add: s1)
  have "length (content_buffer (read_buffer s1)) = length c" by (simp add: s1)
  from client_response_content [OF p1 this refl, of A R] obtain t where
    d2: "deliver A ?V 0 Success c s1 = Inr t" and t: "pending t = []"
      "read_buffer t = empty_message" "write_buffer t = empty_message"
      "world t = R (message_of c) (world s)"
    by (auto simp only: req s1(2))
  show thesis
    by (rule that [of t]) (simp_all add: response_read_events_def d1 d2 t)
qed

subsection \<open>Handlers whose responses fit\<close>

text \<open>
  The contract of a request handler that keeps the protocol: a request that fits the length field is
  answered with a content that fits it.
\<close>

locale fitting_handler =
  fixes H :: "'w request_handler"
  assumes response_fits: "fits (content_buffer q) \<Longrightarrow> fits (content_buffer (fst (H q r w)))"
begin

text \<open>The contents of the responses to a list of requests.\<close>

lemma serve_receivable:
  "list_all fits cs \<Longrightarrow> \<exists>rs. list_all fits rs \<and> length rs = length cs \<and>
     fst (serve H out w cs) = concat (map encode rs)"
proof (induction cs arbitrary: out w)
  case Nil
  then show ?case by simp
next
  case (Cons c cs)
  obtain r w1 where H: "H (message_of c) out w = (r, w1)" by fastforce
  obtain bs w2 where S: "serve H empty_message w1 cs = (bs, w2)" by fastforce
  from Cons.prems have "list_all fits cs" "fits c" by simp_all
  from Cons.IH [OF this(1), of empty_message w1] S obtain rs where
    rs: "list_all fits rs" "length rs = length cs" "bs = concat (map encode rs)"
    by auto
  have "fits (content_buffer r)"
    using response_fits [of "message_of c" out w] Cons.prems H by simp
  then show ?case
    using rs H S by (intro exI [of _ "content_buffer r # rs"]) simp
qed

end

interpretation echo_handler: fitting_handler handle_request
  by unfold_locales (simp add: content_handle_request)

subsection \<open>End to end\<close>

text \<open>
  The two reads by which a session takes a frame from the bytes that arrived.
\<close>

definition frame_read_events :: "bytes \<Rightarrow> (error_code \<times> bytes) list" where
  "frame_read_events bs =
     [(Success, take default_header_length bs), (Success, drop default_header_length bs)]"

lemma frame_read_events_encode:
  "fits c \<Longrightarrow> frame_read_events (encode c) = [(Success, header_buffer (message_of c)), (Success, c)]"
proof -
  assume "fits c"
  then have "length (header_buffer (message_of c)) = 28" by (simp add: length_framed_header_iff)
  then show ?thesis by (simp add: frame_read_events_def encode_split)
qed

lemma exchange:
  assumes "pending c0 = []" and "ready s0" and "fits (content_buffer m)"
    and "H (message_of (content_buffer m)) (write_buffer s0) (world s0) = (r, w)"
    and "fits (content_buffer r)"
  shows "\<exists>c1 b1 s1 b2 c2.
    deliver_all A (client_session A R) request_write_events (client_session_send m c0) = Inr c1 \<and>
    emitted A (client_session A R) request_write_events (client_session_send m c0) = b1 \<and>
    deliver_all B (server_session B H) (frame_read_events b1 @ request_write_events) s0 = Inr s1 \<and>
    emitted B (server_session B H) (frame_read_events b1 @ request_write_events) s0 = b2 \<and>
    deliver_all A (client_session A R) (frame_read_events b2) c1 = Inr c2 \<and>
    pending c2 = [] \<and> world c2 = R (message_of (content_buffer r)) (world c0) \<and>
    ready s1 \<and> world s1 = w"
proof -
  let ?q = "content_buffer m" and ?a = "content_buffer r"
  obtain c1 where c1:
    "deliver_all A (client_session A R) request_write_events (client_session_send m c0) = Inr c1"
    "emitted A (client_session A R) request_write_events (client_session_send m c0) = encode ?q"
    "pending c1 = [Op_Read_Header 28]" "length (header_buffer (read_buffer c1)) = 28"
    "world c1 = world c0"
    using client_request [OF assms(1), of A R m] by blast
  have ev: "frame_read_events (encode ?q) @ request_write_events = request_events ?q"
    using assms(3) by (simp add: frame_read_events_encode request_events_def request_write_events_def)
  obtain s1 where s1: "deliver_all B (server_session B H) (request_events ?q) s0 = Inr s1" "ready s1"
    "world s1 = w"
    "emitted B (server_session B H) (request_events ?q) s0 = wire (prepare_header_buffer_write r)"
    using server_transaction [where H = H and A = B, OF assms(2,3,4)] by blast
  obtain c2 where "deliver_all A (client_session A R) (response_read_events ?a) c1 = Inr c2"
    "pending c2 = []" "world c2 = R (message_of ?a) (world c1)"
    using client_response [OF c1(3,4) assms(5), of A R] by blast
  moreover have "response_read_events ?a = frame_read_events (encode ?a)"
    using assms(5) by (simp add: response_read_events_def frame_read_events_encode)
  ultimately show ?thesis
    using c1 s1 by (simp add: ev)
qed

end
