(* ===== verification/Link.thy ===== *)
theory Link
  imports Client_Transaction
begin

section \<open>A client session and a server session over two byte channels\<close>

text \<open>
  The two ends of a connection as one system: each end has its own world and its own outstanding
  operation, a write that completes appends its bytes to a channel, a read completes once the channel
  holds as many bytes as it waits for, and the completions of the two ends interleave freely. The owner of the
  client sends while the client is quiet. The lemmas give the invariant of all interleavings, the
  absence of deadlocks and the number of completions an exchange takes.
\<close>

subsection \<open>The system\<close>

record ('v, 'w) link =
  client_end :: "'v session_st"
  server_end :: "'w session_st"
  to_server :: bytes
  to_client :: bytes
  asked :: "bytes list"

fun is_write :: "async_op \<Rightarrow> bool" where
  "is_write (Op_Write_Header _) = True"
| "is_write (Op_Write_Content _) = True"
| "is_write _ = False"

fun read_size :: "async_op \<Rightarrow> nat option" where
  "read_size (Op_Read_Header n) = Some n"
| "read_size (Op_Read_Content n) = Some n"
| "read_size _ = None"

definition link_send :: "message \<Rightarrow> ('v, 'w) link \<Rightarrow> ('v, 'w) link" where
  "link_send m l =
     l\<lparr>client_end := client_session_send m (client_end l), asked := asked l @ [content_buffer m]\<rparr>"

inductive link_completion ::
  "'v asio \<Rightarrow> 'v response_handler \<Rightarrow> 'w asio \<Rightarrow> 'w request_handler \<Rightarrow>
   ('v, 'w) link \<Rightarrow> ('v, 'w) link \<Rightarrow> bool"
  for A R B H where
  client_writes: "pending (client_end l) = [x] \<Longrightarrow> is_write x \<Longrightarrow>
    deliver A (client_session A R) 0 Success [] (client_end l) = Inr k \<Longrightarrow>
    link_completion A R B H l (l\<lparr>client_end := k, to_server := to_server l @ op_bytes x\<rparr>)"
| client_reads: "pending (client_end l) = [x] \<Longrightarrow> read_size x = Some n \<Longrightarrow> n \<le> length (to_client l) \<Longrightarrow>
    deliver A (client_session A R) 0 Success (take n (to_client l)) (client_end l) = Inr k \<Longrightarrow>
    link_completion A R B H l (l\<lparr>client_end := k, to_client := drop n (to_client l)\<rparr>)"
| server_writes: "pending (server_end l) = [x] \<Longrightarrow> is_write x \<Longrightarrow>
    deliver B (server_session B H) 0 Success [] (server_end l) = Inr s \<Longrightarrow>
    link_completion A R B H l (l\<lparr>server_end := s, to_client := to_client l @ op_bytes x\<rparr>)"
| server_reads: "pending (server_end l) = [x] \<Longrightarrow> read_size x = Some n \<Longrightarrow> n \<le> length (to_server l) \<Longrightarrow>
    deliver B (server_session B H) 0 Success (take n (to_server l)) (server_end l) = Inr s \<Longrightarrow>
    link_completion A R B H l (l\<lparr>server_end := s, to_server := drop n (to_server l)\<rparr>)"

text \<open>The runs from a state, with the number of completions in them.\<close>

inductive link_run ::
  "'v asio \<Rightarrow> 'v response_handler \<Rightarrow> 'w asio \<Rightarrow> 'w request_handler \<Rightarrow>
   ('v, 'w) link \<Rightarrow> nat \<Rightarrow> ('v, 'w) link \<Rightarrow> bool"
  for A R B H l0 where
  link_refl: "link_run A R B H l0 0 l0"
| link_sends: "link_run A R B H l0 n l \<Longrightarrow> pending (client_end l) = [] \<Longrightarrow> fits (content_buffer m) \<Longrightarrow>
    link_run A R B H l0 n (link_send m l)"
| link_completes: "link_run A R B H l0 n l \<Longrightarrow> link_completion A R B H l l' \<Longrightarrow>
    link_run A R B H l0 (Suc n) l'"

text \<open>A connection after both handshakes, before anything has been sent.\<close>

definition link_start :: "('v, 'w) link \<Rightarrow> bool" where
  "link_start l \<longleftrightarrow> pending (client_end l) = [] \<and> ready (server_end l) \<and> to_server l = [] \<and>
     to_client l = [] \<and> asked l = []"

subsection \<open>The abstract conversation\<close>

text \<open>Each request is answered by the handler, and each answer is handled, one after the other.\<close>

fun conversation ::
  "'w request_handler \<Rightarrow> 'v response_handler \<Rightarrow> message \<Rightarrow> 'w \<Rightarrow> 'v \<Rightarrow> bytes list \<Rightarrow> 'w \<times> 'v"
where
  "conversation H R out w v [] = (w, v)"
| "conversation H R out w v (c # cs) =
     (case H (message_of c) out w of
        (response, w1) \<Rightarrow>
          conversation H R empty_message w1 (R (message_of (content_buffer response)) v) cs)"

text \<open>The output message the handler finds after a list of requests.\<close>

definition next_out :: "message \<Rightarrow> bytes list \<Rightarrow> message" where
  "next_out out cs = (if cs = [] then out else empty_message)"

lemma conversation_snoc:
  "conversation H R out w v cs = (w', v') \<Longrightarrow> H (message_of c) (next_out out cs) w' = (response, w1) \<Longrightarrow>
   conversation H R out w v (cs @ [c]) = (w1, R (message_of (content_buffer response)) v')"
proof (induction cs arbitrary: out w v)
  case Nil
  then show ?case by (simp add: next_out_def)
next
  case (Cons b cs)
  then show ?case by (auto simp: next_out_def split: prod.splits if_splits)
qed

subsection \<open>Where the two ends are\<close>

text \<open>
  A server session that waits for the next request, in world \<open>w\<close> and with \<open>out\<close> for the next handler
  call; it may still have to complete the write of an empty content, which its peer need not wait
  for. The last argument counts the completions to come before the next request can be read.
\<close>

definition waiting :: "message \<Rightarrow> 'w \<Rightarrow> 'w session_st \<Rightarrow> nat \<Rightarrow> bool" where
  "waiting out w s j \<longleftrightarrow> world s = w \<and>
     (ready s \<and> write_buffer s = out \<and> j = 0 \<or>
      pending s = [Op_Write_Content []] \<and> out = empty_message \<and> j = 1)"

text \<open>
  The server's part in the exchange of request \<open>c\<close> and response \<open>r\<close>. Before the handler is called it hears
  the request: \<open>u\<close> are the bytes it has still to receive. After the call it replies: \<open>t\<close> are the
  bytes it has still to emit. In both \<open>j\<close> counts the completions to come before the call and after it.
\<close>

inductive hearing :: "bytes \<Rightarrow> message \<Rightarrow> bytes \<Rightarrow> nat \<Rightarrow> 'w session_st \<Rightarrow> bool" for c out where
  hear_header: "waiting out (world s) s j \<Longrightarrow> hearing c out (encode c) (j + 4) s"
| hear_content: "pending s = [Op_Read_Content (length c)] \<Longrightarrow>
    header_buffer (read_buffer s) = header_buffer (message_of c) \<Longrightarrow>
    length (content_buffer (read_buffer s)) = length c \<Longrightarrow> write_buffer s = out \<Longrightarrow>
    hearing c out c 3 s"

inductive replying :: "bytes \<Rightarrow> bytes \<Rightarrow> nat \<Rightarrow> 'w session_st \<Rightarrow> bool" for r where
  reply_header: "pending s = [Op_Write_Header (header_buffer (message_of r))] \<Longrightarrow>
    framed (write_buffer s) \<Longrightarrow> content_buffer (write_buffer s) = r \<Longrightarrow> replying r (encode r) 2 s"
| reply_content: "pending s = [Op_Write_Content r] \<Longrightarrow> replying r r 1 s"
| reply_done: "waiting empty_message (world s) s j \<Longrightarrow> replying r [] j s"

inductive_cases hearingE: "hearing c out u j s"
inductive_cases replyingE: "replying r t j s"

text \<open>The two together, in a world that is \<open>w\<close> before the call of the handler and \<open>w1\<close> after it.\<close>

definition serving ::
  "bytes \<Rightarrow> bytes \<Rightarrow> message \<Rightarrow> 'w \<Rightarrow> 'w \<Rightarrow> bytes \<Rightarrow> bytes \<Rightarrow> nat \<Rightarrow> 'w session_st \<Rightarrow> bool"
where
  "serving c r out w w1 u t j s \<longleftrightarrow>
     hearing c out u j s \<and> world s = w \<and> t = encode r \<or>
     replying r t j s \<and> world s = w1 \<and> u = []"

text \<open>The same of the client: the bytes \<open>p\<close> still to emit, the bytes \<open>q\<close> still to receive.\<close>

inductive asking ::
  "bytes \<Rightarrow> bytes \<Rightarrow> 'v \<Rightarrow> bytes \<Rightarrow> bytes \<Rightarrow> nat \<Rightarrow> 'v session_st \<Rightarrow> bool"
  for c r v where
  ask_header: "pending k = [Op_Write_Header (header_buffer (message_of c))] \<Longrightarrow>
    framed (write_buffer k) \<Longrightarrow> content_buffer (write_buffer k) = c \<Longrightarrow> world k = v \<Longrightarrow>
    asking c r v (encode c) (encode r) 4 k"
| ask_content: "pending k = [Op_Write_Content c] \<Longrightarrow> world k = v \<Longrightarrow> asking c r v c (encode r) 3 k"
| ask_response: "pending k = [Op_Read_Header 28] \<Longrightarrow> length (header_buffer (read_buffer k)) = 28 \<Longrightarrow>
    world k = v \<Longrightarrow> asking c r v [] (encode r) 2 k"
| ask_finish: "pending k = [Op_Read_Content (length r)] \<Longrightarrow>
    header_buffer (read_buffer k) = header_buffer (message_of r) \<Longrightarrow>
    length (content_buffer (read_buffer k)) = length r \<Longrightarrow> world k = v \<Longrightarrow>
    asking c r v [] r 1 k"

inductive_cases askingE: "asking c r v p q i k"

lemma asking_busy: "asking c r v p q i k \<Longrightarrow> pending k \<noteq> []"
  by (erule askingE) auto

subsection \<open>The invariant\<close>

text \<open>
  After the requests \<open>asked l\<close> the conversation is over (\<open>link_idle\<close>) or the last one is under way
  (\<open>link_busy\<close>): what a channel holds and its writer still has to emit is what its reader still has to
  receive, and the completions so far and those to come add up to eight for each request.
\<close>

definition link_idle ::
  "'v response_handler \<Rightarrow> 'w request_handler \<Rightarrow> message \<Rightarrow> 'w \<Rightarrow> 'v \<Rightarrow> nat \<Rightarrow> ('v, 'w) link \<Rightarrow> bool"
where
  "link_idle R H out0 w0 v0 n l \<longleftrightarrow>
     (\<exists>w v j. conversation H R out0 w0 v0 (asked l) = (w, v) \<and> to_server l = [] \<and> to_client l = [] \<and>
        pending (client_end l) = [] \<and> world (client_end l) = v \<and>
        waiting (next_out out0 (asked l)) w (server_end l) j \<and> n + j = 8 * length (asked l))"

definition link_busy ::
  "'v response_handler \<Rightarrow> 'w request_handler \<Rightarrow> message \<Rightarrow> 'w \<Rightarrow> 'v \<Rightarrow> nat \<Rightarrow> ('v, 'w) link \<Rightarrow> bool"
where
  "link_busy R H out0 w0 v0 n l \<longleftrightarrow>
     (\<exists>cs c w v response w1 u t j p q i.
        asked l = cs @ [c] \<and> fits c \<and> fits (content_buffer response) \<and>
        conversation H R out0 w0 v0 cs = (w, v) \<and> H (message_of c) (next_out out0 cs) w = (response, w1) \<and>
        serving c (content_buffer response) (next_out out0 cs) w w1 u t j (server_end l) \<and>
        asking c (content_buffer response) v p q i (client_end l) \<and>
        to_server l @ p = u \<and> to_client l @ t = q \<and> n + i + j = 8 * Suc (length cs))"

subsection \<open>Completions at the client\<close>

lemma asking_write:
  assumes "asking c r v p q i k" and "pending k = [x]" and "is_write x"
    and "deliver A (client_session A R) 0 Success [] k = Inr k'"
  shows "\<exists>p' i'. asking c r v p' q i' k' \<and> p = op_bytes x @ p' \<and> i = Suc i'"
  using assms(1)
proof (cases rule: asking.cases)
  case ask_header
  from client_header_written [OF ask_header(4,5), of A R] assms(4) ask_header
  have "pending k' = [Op_Write_Content c]" "world k' = v" by auto
  then have "asking c r v c (encode r) 3 k'" by (rule ask_content)
  with ask_header assms(2) show ?thesis by (intro exI [of _ c] exI [of _ 3]) (simp add: encode_split)
next
  case ask_content
  from client_content_written [OF ask_content(4), of A R] assms(4) ask_content
  have "pending k' = [Op_Read_Header 28]" "length (header_buffer (read_buffer k')) = 28" "world k' = v"
    by auto
  then have "asking c r v [] (encode r) 2 k'" by (rule ask_response)
  with ask_content assms(2) show ?thesis by (intro exI [of _ "[]"] exI [of _ 2]) simp
qed (use assms(2,3) in auto)

lemma asking_read:
  assumes "asking c r v p q i k" and "pending k = [x]" and "read_size x = Some n"
    and "n \<le> length b" and "b @ t = q" and "fits r"
    and "deliver A (client_session A R) 0 Success (take n b) k = Inr k'"
  shows "p = [] \<and>
    ((\<exists>q' i'. asking c r v p q' i' k' \<and> drop n b @ t = q' \<and> i = Suc i') \<or>
     (i = 1 \<and> drop n b = [] \<and> t = [] \<and> pending k' = [] \<and> world k' = R (message_of r) v))"
  using assms(1)
proof (cases rule: asking.cases)
  case ask_response
  let ?h = "header_buffer (message_of r)"
  have n: "n = 28" using ask_response assms(2,3) by simp
  have h: "length ?h = 28" using assms(6) by (simp add: length_framed_header_iff)
  have b: "take n b = ?h" "drop n b @ t = r"
    using assms(4,5) ask_response(2) h n
    by (simp_all add: encode_split append_eq_append_conv_if split: if_splits)
  let ?m = "read_buffer k\<lparr>header_buffer := ?h, content_buffer := replicate (length r) zero_byte\<rparr>"
  have "prepare_content_buffer_read (read_buffer k\<lparr>header_buffer := ?h\<rparr>) = Inr ?m"
    using prepare_content_read_framed [of "message_of r" "read_buffer k\<lparr>header_buffer := ?h\<rparr>"] assms(6)
    by simp
  from client_response_header [OF ask_response(4,5) h this, of A R] obtain k1 where
    "deliver A (client_session A R) 0 Success ?h k = Inr k1"
    and k1: "pending k1 = [Op_Read_Content (length (content_buffer ?m))]" "read_buffer k1 = ?m"
      "world k1 = world k"
    by blast
  with assms(7) have "k' = k1" unfolding b(1) by simp
  with k1 ask_response(6) have "pending k' = [Op_Read_Content (length r)]"
    "header_buffer (read_buffer k') = ?h" "length (content_buffer (read_buffer k')) = length r"
    "world k' = v"
    by simp_all
  then have "asking c r v [] r 1 k'" by (rule ask_finish)
  with ask_response b show ?thesis by (intro conjI disjI1 exI [of _ r] exI [of _ 1]) simp_all
next
  case ask_finish
  have n: "n = length r" using ask_finish assms(2,3) by simp
  with assms(4,5) ask_finish(2) have b: "b = r" "t = []"
    by (auto simp: append_eq_conv_conj dest: arg_cong [of _ _ length])
  have "read_buffer k\<lparr>content_buffer := r\<rparr> = message_of r"
    using ask_finish(5) by (intro message.equality) simp_all
  with client_response_content [OF ask_finish(4,6) refl, of A R] obtain k1 where
    "deliver A (client_session A R) 0 Success r k = Inr k1"
    and k1: "pending k1 = []" "world k1 = R (message_of r) (world k)"
    by metis
  with assms(7) n b have "k' = k1" by simp
  with k1 ask_finish(7) have "pending k' = []" "world k' = R (message_of r) v" by simp_all
  with ask_finish b n show ?thesis by simp
qed (use assms(2,3) in auto)

subsection \<open>Completions at the server\<close>

lemma waiting_write:
  assumes "waiting out w s j" and "pending s = [x]" and "is_write x"
    and "deliver B (server_session B H) 0 Success [] s = Inr s'"
  shows "op_bytes x = [] \<and> j = 1 \<and> waiting out w s' 0"
proof -
  from assms(1-3) have p: "pending s = [Op_Write_Content []]" and w: "world s = w" "out = empty_message" "j = 1"
    by (auto simp: waiting_def ready_def)
  from server_response_content [OF p, of B H] obtain t where
    "deliver B (server_session B H) 0 Success [] s = Inr t"
    and t: "pending t = [Op_Read_Header 28]" "read_buffer t = new_message" "write_buffer t = empty_message"
      "world t = world s"
    by blast
  with assms(4) have "s' = t" by simp
  moreover have "x = Op_Write_Content []" using assms(2) p by simp
  ultimately show ?thesis using t w by (simp add: waiting_def ready_def new_message_def)
qed

lemma hearing_write:
  assumes "hearing c out u j s" and "pending s = [x]" and "is_write x"
    and "deliver B (server_session B H) 0 Success [] s = Inr s'"
  shows "op_bytes x = [] \<and> (\<exists>j'. hearing c out u j' s' \<and> j = Suc j') \<and> world s' = world s"
  using assms(1)
proof (cases rule: hearing.cases)
  case (hear_header j0)
  from waiting_write [OF hear_header(3) assms(2-4)]
  have w: "op_bytes x = []" "j0 = 1" "waiting out (world s) s' 0" by simp_all
  then have "world s' = world s" by (simp add: waiting_def)
  with w have "hearing c out (encode c) (0 + 4) s'" by (intro hearing.hear_header) simp
  with hear_header w \<open>world s' = world s\<close> show ?thesis by simp
qed (use assms(2,3) in auto)

lemma hearing_read:
  assumes "hearing c out u j s" and "pending s = [x]" and "read_size x = Some n"
    and "n \<le> length b" and "b @ p = u" and "fits c" and "H (message_of c) out (world s) = (response, w1)"
    and "deliver B (server_session B H) 0 Success (take n b) s = Inr s'"
  shows "x = Op_Read_Header n \<and> world s' = world s \<and>
      (\<exists>u' j'. hearing c out u' j' s' \<and> drop n b @ p = u' \<and> j = Suc j') \<or>
    x = Op_Read_Content n \<and> take n b = c \<and> drop n b = [] \<and> p = [] \<and> world s' = w1 \<and>
      (\<exists>j'. replying (content_buffer response) (encode (content_buffer response)) j' s' \<and> j = Suc j')"
  using assms(1)
proof (cases rule: hearing.cases)
  case (hear_header j0)
  let ?h = "header_buffer (message_of c)"
  let ?m = "read_buffer s\<lparr>header_buffer := ?h, content_buffer := replicate (length c) zero_byte\<rparr>"
  have s: "ready s" "write_buffer s = out" "j0 = 0" and n: "n = 28" "x = Op_Read_Header n"
    using hear_header(3) assms(2,3) by (auto simp: waiting_def ready_def)
  have h: "length ?h = 28" using assms(6) by (simp add: length_framed_header_iff)
  have b: "take n b = ?h" "drop n b @ p = c"
    using assms(4,5) hear_header(1) h n
    by (simp_all add: encode_split append_eq_append_conv_if split: if_splits)
  have "prepare_content_buffer_read (read_buffer s\<lparr>header_buffer := ?h\<rparr>) = Inr ?m"
    using prepare_content_read_framed [of "message_of c" "read_buffer s\<lparr>header_buffer := ?h\<rparr>"] assms(6)
    by simp
  with s(1) h obtain s1 where "deliver B (server_session B H) 0 Success ?h s = Inr s1"
    and s1: "pending s1 = [Op_Read_Content (length (content_buffer ?m))]" "read_buffer s1 = ?m"
      "write_buffer s1 = write_buffer s" "world s1 = world s"
    unfolding ready_def by (blast elim: server_request_header [of s 28 ?h ?m B H])
  with assms(8) have "s' = s1" unfolding b(1) by simp
  with s1 s have "hearing c out c 3 s'" by (intro hearing.hear_content) simp_all
  with hear_header b s(3) n s1(4) \<open>s' = s1\<close> show ?thesis by (intro disjI1) simp
next
  case hear_content
  have n: "n = length c" "x = Op_Read_Content n" using hear_content assms(2,3) by simp_all
  with assms(4,5) hear_content(1) have b: "b = c" "p = []"
    by (auto simp: append_eq_conv_conj dest: arg_cong [of _ _ length])
  have req: "read_buffer s\<lparr>content_buffer := c\<rparr> = message_of c"
    using hear_content(4) by (intro message.equality) simp_all
  have "H (read_buffer s\<lparr>content_buffer := c\<rparr>) (write_buffer s) (world s) = (response, w1)"
    by (simp only: req hear_content(6) assms(7))
  from server_request_content [where s = s and H = H and A = B, OF hear_content(3,5) refl this]
  obtain s1 where "deliver B (server_session B H) 0 Success c s = Inr s1"
    and s1: "pending s1 = [Op_Write_Header (header_buffer (prepare_header_buffer_write response))]"
      "write_buffer s1 = prepare_header_buffer_write response" "world s1 = w1"
    by blast
  with assms(8) n b have "s' = s1" by simp
  with s1 have "replying (content_buffer response) (encode (content_buffer response)) 2 s'"
    by (intro replying.reply_header) (simp_all add: header_prepare_write)
  with hear_content b n s1(3) \<open>s' = s1\<close> show ?thesis by (intro disjI2) simp
qed

lemma replying_write:
  assumes "replying r t j s" and "pending s = [x]" and "is_write x"
    and "deliver B (server_session B H) 0 Success [] s = Inr s'"
  shows "(\<exists>t' j'. replying r t' j' s' \<and> t = op_bytes x @ t' \<and> j = Suc j') \<and> world s' = world s"
  using assms(1)
proof (cases rule: replying.cases)
  case reply_header
  from server_response_header [OF reply_header(3,4), of B H] obtain s1 where
    "deliver B (server_session B H) 0 Success [] s = Inr s1"
    and s1: "pending s1 = [Op_Write_Content (content_buffer (write_buffer s))]" "world s1 = world s"
    by blast
  with assms(4) have "s' = s1" by simp
  with s1 reply_header have "replying r r 1 s'" by (intro replying.reply_content) simp_all
  with reply_header assms(2) s1(2) \<open>s' = s1\<close> show ?thesis
    by (intro conjI exI [of _ r] exI [of _ 1]) (simp_all add: encode_split)
next
  case reply_content
  from server_response_content [OF reply_content(3), of B H] obtain s1 where
    "deliver B (server_session B H) 0 Success [] s = Inr s1"
    and s1: "pending s1 = [Op_Read_Header 28]" "read_buffer s1 = new_message"
      "write_buffer s1 = empty_message" "world s1 = world s"
    by blast
  with assms(4) have "s' = s1" by simp
  with s1 have "waiting empty_message (world s') s' 0"
    by (simp add: waiting_def ready_def new_message_def)
  then have "replying r [] 0 s'" by (rule replying.reply_done)
  with reply_content assms(2) s1(4) \<open>s' = s1\<close> show ?thesis
    by (intro conjI exI [of _ "[]"] exI [of _ 0]) simp_all
next
  case reply_done
  from waiting_write [OF reply_done(2) assms(2-4)]
  have w: "op_bytes x = []" "j = 1" "waiting empty_message (world s) s' 0" by simp_all
  then have "world s' = world s" by (simp add: waiting_def)
  with w have "replying r [] 0 s'" by (intro replying.reply_done) simp
  with reply_done w \<open>world s' = world s\<close> show ?thesis by simp
qed

lemma replying_no_read: "replying r t j s \<Longrightarrow> pending s = [x] \<Longrightarrow> read_size x = Some n \<Longrightarrow> 0 < n"
  by (erule replyingE) (auto simp: waiting_def ready_def)

lemma serving_write:
  assumes "serving c r out w w1 u t j s" and "pending s = [x]" and "is_write x"
    and "deliver B (server_session B H) 0 Success [] s = Inr s'"
  shows "\<exists>t' j'. serving c r out w w1 u t' j' s' \<and> t = op_bytes x @ t' \<and> j = Suc j'"
  using assms(1) [unfolded serving_def]
proof (elim disjE conjE)
  assume "hearing c out u j s" "world s = w" "t = encode r"
  with hearing_write [OF this(1) assms(2-4)] show ?thesis by (auto simp: serving_def)
next
  assume "replying r t j s" "world s = w1" "u = []"
  with replying_write [OF this(1) assms(2-4)] show ?thesis by (auto simp: serving_def)
qed

lemma serving_read:
  assumes "serving c r out w w1 u t j s" and "pending s = [x]" and "read_size x = Some n"
    and "n \<le> length b" and "b @ p = u" and "fits c" and "H (message_of c) out w = (response, w1)"
    and "content_buffer response = r"
    and "deliver B (server_session B H) 0 Success (take n b) s = Inr s'"
  shows "\<exists>u' j'. serving c r out w w1 u' t j' s' \<and> drop n b @ p = u' \<and> j = Suc j'"
  using assms(1) [unfolded serving_def]
proof (elim disjE conjE)
  assume h: "hearing c out u j s" and w: "world s = w" and t: "t = encode r"
  have "H (message_of c) out (world s) = (response, w1)" using assms(7) w by simp
  from hearing_read [where H = H, OF h assms(2-6) this assms(9)] w t assms(8) show ?thesis
    by (auto simp: serving_def)
next
  assume "replying r t j s" "u = []"
  with replying_no_read [OF this(1) assms(2,3)] assms(4,5) show ?thesis by simp
qed

subsection \<open>The invariant is kept\<close>

lemma serving_emitted: "serving c r out w w1 u [] j s \<Longrightarrow> u = [] \<and> waiting empty_message w1 s j"
  by (auto simp: serving_def encode_header magic_numbers_def waiting_def elim!: replyingE)

lemma busyI:
  assumes "asked l = cs @ [c]" and "fits c" and "fits (content_buffer response)"
    and "conversation H R out0 w0 v0 cs = (w, v)" and "H (message_of c) (next_out out0 cs) w = (response, w1)"
    and "serving c (content_buffer response) (next_out out0 cs) w w1 u t j (server_end l)"
    and "asking c (content_buffer response) v p q i (client_end l)"
    and "to_server l @ p = u" and "to_client l @ t = q" and "n + i + j = 8 * Suc (length cs)"
  shows "link_busy R H out0 w0 v0 n l"
  using assms unfolding link_busy_def by metis

text \<open>The last completion of an exchange: the client has the whole answer.\<close>

lemma busy_finishes:
  assumes l: "asked l = cs @ [c]" "conversation H R out0 w0 v0 cs = (w, v)"
      "H (message_of c) (next_out out0 cs) w = (response, w1)"
    and srv: "serving c (content_buffer response) (next_out out0 cs) w w1 u [] j (server_end l)"
    and ch: "to_server l @ [] = u" and n: "n + 1 + j = 8 * Suc (length cs)"
    and k: "pending k = []" "world k = R (message_of (content_buffer response)) v"
  shows "link_idle R H out0 w0 v0 (Suc n) (l\<lparr>client_end := k, to_client := []\<rparr>)"
proof -
  have "u = []" and "waiting empty_message w1 (server_end l) j"
    using serving_emitted [OF srv] by simp_all
  moreover have "conversation H R out0 w0 v0 (asked l) = (w1, world k)"
    using conversation_snoc [OF l(2,3)] by (simp only: l(1) k(2))
  moreover have "next_out out0 (asked l) = empty_message" by (simp add: l(1) next_out_def)
  moreover have "Suc n + j = 8 * length (asked l)" using n l(1) by simp
  ultimately show ?thesis using k(1) ch unfolding link_idle_def by (intro exI conjI) simp_all
qed

lemma busy_step:
  assumes "link_completion A R B H l l'" and "link_busy R H out0 w0 v0 n l"
  shows "link_busy R H out0 w0 v0 (Suc n) l' \<or> link_idle R H out0 w0 v0 (Suc n) l'"
proof -
  from assms(2) obtain cs c w v response w1 u t j p q i where
    l: "asked l = cs @ [c]" "fits c" "fits (content_buffer response)" "conversation H R out0 w0 v0 cs = (w, v)"
    and H: "H (message_of c) (next_out out0 cs) w = (response, w1)"
    and srv: "serving c (content_buffer response) (next_out out0 cs) w w1 u t j (server_end l)"
    and cli: "asking c (content_buffer response) v p q i (client_end l)"
    and ch: "to_server l @ p = u" "to_client l @ t = q" and n: "n + i + j = 8 * Suc (length cs)"
    unfolding link_busy_def by blast
  note busy = busyI [where R = R, OF _ l(2-4) H]
  from assms(1) show ?thesis
  proof cases
    case (client_writes x k)
    from asking_write [OF cli client_writes(2-4)] obtain p' i' where
      "asking c (content_buffer response) v p' q i' k" "p = op_bytes x @ p'" "i = Suc i'" by blast
    with client_writes(1) srv ch l(1) n show ?thesis
      by (intro disjI1 busy [of _ u t j p' q i']) simp_all
  next
    case (server_writes x s)
    from serving_write [OF srv server_writes(2-4)] obtain t' j' where
      "serving c (content_buffer response) (next_out out0 cs) w w1 u t' j' s" "t = op_bytes x @ t'" "j = Suc j'"
      by blast
    with server_writes(1) cli ch l(1) n show ?thesis
      by (intro disjI1 busy [of _ u t' j' p q i]) simp_all
  next
    case (server_reads x k s)
    from serving_read [OF srv server_reads(2-4) ch(1) l(2) H refl server_reads(5)] obtain u' j' where
      "serving c (content_buffer response) (next_out out0 cs) w w1 u' t j' s" "drop k (to_server l) @ p = u'"
      "j = Suc j'" by blast
    with server_reads(1) cli ch l(1) n show ?thesis
      by (intro disjI1 busy [of _ u' t j' p q i]) simp_all
  next
    case (client_reads x b k)
    from asking_read [OF cli client_reads(2-4) ch(2) l(3) client_reads(5)] show ?thesis
    proof (elim conjE disjE exE)
      fix q' i' assume "asking c (content_buffer response) v p q' i' k"
        "drop b (to_client l) @ t = q'" "i = Suc i'"
      with client_reads(1) srv ch l(1) n show ?thesis
        by (intro disjI1 busy [of _ u t j p q' i']) simp_all
    next
      assume fin: "p = []" "i = 1" "drop b (to_client l) = []" "t = []" "pending k = []"
        "world k = R (message_of (content_buffer response)) v"
      from busy_finishes [where H = H, OF l(1,4) H srv [unfolded fin(4)] ch(1) [unfolded fin(1)]
          n [unfolded fin(2)] fin(5,6)]
      show ?thesis using client_reads(1) fin(3) by simp
    qed
  qed
qed

lemma idle_step:
  assumes "link_completion A R B H l l'" and "link_idle R H out0 w0 v0 n l"
  shows "link_idle R H out0 w0 v0 (Suc n) l'"
proof -
  from assms(2) obtain w v j where idle: "conversation H R out0 w0 v0 (asked l) = (w, v)" "to_server l = []"
    "to_client l = []" "pending (client_end l) = []" "world (client_end l) = v"
    and s: "waiting (next_out out0 (asked l)) w (server_end l) j" and n: "n + j = 8 * length (asked l)"
    unfolding link_idle_def by blast
  from assms(1) show ?thesis
  proof cases
    case (server_writes x t)
    from waiting_write [OF s server_writes(2-4)] have "op_bytes x = []" "j = 1"
      "waiting (next_out out0 (asked l)) w t 0" by simp_all
    with server_writes(1) idle n show ?thesis by (simp add: link_idle_def)
  next
    case (server_reads x k t)
    with s have "k = 28" by (auto simp: waiting_def ready_def)
    with server_reads(4) idle show ?thesis by simp
  qed (use idle in simp_all)
qed

subsection \<open>No deadlock\<close>

lemma asking_progress:
  assumes "asking c r v p q i k" and "fits r"
  shows "(\<exists>x k'. pending k = [x] \<and> is_write x \<and> deliver A (client_session A R) 0 Success [] k = Inr k') \<or>
    p = [] \<and> (\<exists>x n k'. pending k = [x] \<and> read_size x = Some n \<and> n \<le> length q \<and>
      deliver A (client_session A R) 0 Success (take n q) k = Inr k')"
  using assms(1)
proof (cases rule: asking.cases)
  case ask_header
  obtain k' where "deliver A (client_session A R) 0 Success [] k = Inr k'"
    by (rule client_header_written [OF ask_header(4,5), of A R])
  with ask_header(4) show ?thesis by simp
next
  case ask_content
  obtain k' where "deliver A (client_session A R) 0 Success [] k = Inr k'"
    by (rule client_content_written [OF ask_content(4), of A R])
  with ask_content(3) show ?thesis using ask_content(4) by simp
next
  case ask_response
  let ?h = "header_buffer (message_of r)"
  have h: "length ?h = 28" using assms(2) by (simp add: length_framed_header_iff)
  have "prepare_content_buffer_read (read_buffer k\<lparr>header_buffer := ?h\<rparr>) =
      Inr (read_buffer k\<lparr>header_buffer := ?h, content_buffer := replicate (length r) zero_byte\<rparr>)"
    using prepare_content_read_framed [of "message_of r" "read_buffer k\<lparr>header_buffer := ?h\<rparr>"] assms(2)
    by simp
  from client_response_header [OF ask_response(4,5) h this, of A R] obtain k' where
    "deliver A (client_session A R) 0 Success ?h k = Inr k'" by blast
  moreover have "take 28 q = ?h" "28 \<le> length q"
    using h by (simp_all add: ask_response(2) encode_split)
  ultimately show ?thesis using ask_response(1,4) by simp
next
  case ask_finish
  from client_response_content [OF ask_finish(4,6) refl, of A R] obtain k' where
    "deliver A (client_session A R) 0 Success r k = Inr k'" by metis
  with ask_finish(1,2,4) show ?thesis by simp
qed

lemma hearing_progress:
  assumes "hearing c out u j s" and "fits c"
  shows "(\<exists>x s'. pending s = [x] \<and> is_write x \<and> deliver B (server_session B H) 0 Success [] s = Inr s') \<or>
    (\<exists>x n s'. pending s = [x] \<and> read_size x = Some n \<and> n \<le> length u \<and>
      deliver B (server_session B H) 0 Success (take n u) s = Inr s')"
  using assms(1)
proof (cases rule: hearing.cases)
  case (hear_header j0)
  show ?thesis
  proof (cases "ready s")
    case True
    let ?h = "header_buffer (message_of c)"
    let ?m = "read_buffer s\<lparr>header_buffer := ?h, content_buffer := replicate (length c) zero_byte\<rparr>"
    have h: "length ?h = 28" using assms(2) by (simp add: length_framed_header_iff)
    have "prepare_content_buffer_read (read_buffer s\<lparr>header_buffer := ?h\<rparr>) = Inr ?m"
      using prepare_content_read_framed [of "message_of c" "read_buffer s\<lparr>header_buffer := ?h\<rparr>"] assms(2)
      by simp
    with True h obtain s' where "deliver B (server_session B H) 0 Success ?h s = Inr s'"
      unfolding ready_def by (blast elim: server_request_header [of s 28 ?h ?m B H])
    moreover have "take 28 u = ?h" "28 \<le> length u" using h by (simp_all add: hear_header(1) encode_split)
    ultimately show ?thesis using True by (simp add: ready_def)
  next
    case False
    then have p: "pending s = [Op_Write_Content []]" using hear_header(3) by (simp add: waiting_def)
    obtain s' where "deliver B (server_session B H) 0 Success [] s = Inr s'"
      by (rule server_response_content [OF p, of B H])
    with p show ?thesis by simp
  qed
next
  case hear_content
  obtain response w2 where
    "H (read_buffer s\<lparr>content_buffer := c\<rparr>) (write_buffer s) (world s) = (response, w2)" by fastforce
  from server_request_content [where s = s and H = H and A = B, OF hear_content(3,5) refl this]
  obtain s' where "deliver B (server_session B H) 0 Success c s = Inr s'" by blast
  with hear_content(1,3) show ?thesis by simp
qed

lemma replying_progress:
  assumes "replying r t j s" and "t \<noteq> []"
  shows "\<exists>x s'. pending s = [x] \<and> is_write x \<and> deliver B (server_session B H) 0 Success [] s = Inr s'"
  using assms(1)
proof (cases rule: replying.cases)
  case reply_header
  obtain s' where "deliver B (server_session B H) 0 Success [] s = Inr s'"
    by (rule server_response_header [OF reply_header(3,4), of B H])
  with reply_header(3) show ?thesis by simp
next
  case reply_content
  obtain s' where "deliver B (server_session B H) 0 Success [] s = Inr s'"
    by (rule server_response_content [OF reply_content(3), of B H])
  with reply_content(3) show ?thesis by simp
qed (use assms(2) in simp)

lemma serving_progress:
  assumes "serving c r out w w1 u t j s" and "fits c" and "t \<noteq> []"
  shows "(\<exists>x s'. pending s = [x] \<and> is_write x \<and> deliver B (server_session B H) 0 Success [] s = Inr s') \<or>
    (\<exists>x n s'. pending s = [x] \<and> read_size x = Some n \<and> n \<le> length u \<and>
      deliver B (server_session B H) 0 Success (take n u) s = Inr s')"
  using assms(1) [unfolded serving_def]
proof (elim disjE conjE)
  assume "hearing c out u j s"
  then show ?thesis using assms(2) by (rule hearing_progress)
next
  assume "replying r t j s"
  from replying_progress [OF this assms(3)] show ?thesis by blast
qed

text \<open>As long as the client is at work, one of the two ends can go on.\<close>

lemma exchange_progress:
  assumes srv: "serving c r out w w1 u t j (server_end l)" "fits c"
    and cli: "asking c r v p q i (client_end l)" "fits r"
    and ch: "to_server l @ p = u" "to_client l @ t = q"
  shows "\<exists>l'. link_completion A R B H l l'"
proof -
  consider x k' where "pending (client_end l) = [x]" "is_write x"
      "deliver A (client_session A R) 0 Success [] (client_end l) = Inr k'"
    | (read) x m k' where "p = []" "pending (client_end l) = [x]" "read_size x = Some m" "m \<le> length q"
      "deliver A (client_session A R) 0 Success (take m q) (client_end l) = Inr k'"
    using asking_progress [OF cli, of A R] by blast
  then show ?thesis
  proof cases
    case 1
    then show ?thesis by (blast intro: client_writes)
  next
    case read
    show ?thesis
    proof (cases "t = []")
      case True
      with ch(2) have "q = to_client l" by simp
      with read show ?thesis by (blast intro: client_reads)
    next
      case False
      from read(1) ch(1) have "u = to_server l" by simp
      with serving_progress [OF srv False, of B H] show ?thesis
        by (blast intro: server_writes server_reads)
    qed
  qed
qed

lemma busy_progress: "link_busy R H out0 w0 v0 n l \<Longrightarrow> \<exists>l'. link_completion A R B H l l'"
  unfolding link_busy_def by (blast intro: exchange_progress)

lemma idle_progress:
  assumes "link_idle R H out0 w0 v0 n l"
  shows "ready (server_end l) \<and> n = 8 * length (asked l) \<or> (\<exists>l'. link_completion A R B H l l')"
proof -
  from assms obtain out w j where s: "waiting out w (server_end l) j" and n: "n + j = 8 * length (asked l)"
    unfolding link_idle_def by blast
  show ?thesis
  proof (cases "ready (server_end l)")
    case True
    with s n show ?thesis by (simp add: waiting_def ready_def)
  next
    case False
    with s have p: "pending (server_end l) = [Op_Write_Content []]" by (simp add: waiting_def)
    from server_response_content [OF p, of B H] obtain t where
      "deliver B (server_session B H) 0 Success [] (server_end l) = Inr t" by blast
    with p have "link_completion A R B H l (l\<lparr>server_end := t, to_client := to_client l @ op_bytes (Op_Write_Content [])\<rparr>)"
      by (intro server_writes) simp_all
    then show ?thesis by blast
  qed
qed

subsection \<open>Runs\<close>

context fitting_handler
begin

lemma idle_send:
  assumes "link_idle R H out0 w0 v0 n l" and "fits (content_buffer m)"
  shows "link_busy R H out0 w0 v0 n (link_send m l)"
proof -
  let ?c = "content_buffer m"
  from assms(1) obtain w v j where idle: "conversation H R out0 w0 v0 (asked l) = (w, v)" "to_server l = []"
    "to_client l = []" "pending (client_end l) = []" "world (client_end l) = v"
    and s: "waiting (next_out out0 (asked l)) w (server_end l) j" and n: "n + j = 8 * length (asked l)"
    unfolding link_idle_def by blast
  obtain response w1 where H: "H (message_of ?c) (next_out out0 (asked l)) w = (response, w1)" by fastforce
  then have r: "fits (content_buffer response)"
    using response_fits [of "message_of ?c" "next_out out0 (asked l)" w] assms(2) by simp
  have "asking ?c (content_buffer response) v (encode ?c) (encode (content_buffer response)) 4
      (client_session_send m (client_end l))"
    using idle(4,5)
    by (intro ask_header) (simp_all add: client_session_send_def do_defs Let_def header_prepare_write)
  moreover have "serving ?c (content_buffer response) (next_out out0 (asked l)) w w1 (encode ?c)
      (encode (content_buffer response)) (j + 4) (server_end l)"
    using s hear_header [of "next_out out0 (asked l)" "server_end l" j ?c]
    by (simp add: serving_def waiting_def)
  ultimately show ?thesis
    unfolding link_busy_def using idle assms(2) r H n
    by (intro exI [of _ "asked l"] exI [of _ ?c] exI [of _ w] exI [of _ v] exI [of _ response] exI [of _ w1]
        exI [of _ "encode ?c"] exI [of _ "encode (content_buffer response)"] exI [of _ "j + 4"]
        exI [of _ 4]) (simp add: link_send_def)
qed

lemma link_run_inv:
  assumes "link_run A R B H l0 n l" and "link_start l0"
  defines "out0 \<equiv> write_buffer (server_end l0)" and "w0 \<equiv> world (server_end l0)"
    and "v0 \<equiv> world (client_end l0)"
  shows "link_idle R H out0 w0 v0 n l \<or> link_busy R H out0 w0 v0 n l"
  using assms(1)
proof (induction rule: link_run.induct)
  case link_refl
  have "waiting out0 w0 (server_end l0) 0" using assms(2) by (simp add: waiting_def link_start_def out0_def w0_def)
  then show ?case using assms(2) by (simp add: link_idle_def link_start_def next_out_def v0_def)
next
  case (link_sends n l m)
  then have "\<not> link_busy R H out0 w0 v0 n l" by (auto simp: link_busy_def dest: asking_busy)
  with link_sends show ?case by (blast intro: idle_send)
next
  case (link_completes n l l')
  then show ?case by (blast dest: busy_step idle_step)
qed

text \<open>From every state the connection comes to rest, with the answer of the last request.\<close>

lemma link_settles:
  assumes "link_run A R B H l0 n l" and "link_start l0"
  shows "\<exists>n' l'. (link_completion A R B H)\<^sup>*\<^sup>* l l' \<and> link_run A R B H l0 n' l' \<and>
    asked l' = asked l \<and> pending (client_end l') = []"
  using assms
proof (induction "8 * length (asked l) - n" arbitrary: n l rule: less_induct)
  case less
  from link_run_inv [OF less.prems] show ?case
  proof
    assume "link_idle R H (write_buffer (server_end l0)) (world (server_end l0)) (world (client_end l0)) n l"
    with less.prems(1) show ?thesis by (auto simp: link_idle_def)
  next
    assume busy: "link_busy R H (write_buffer (server_end l0)) (world (server_end l0)) (world (client_end l0)) n l"
    from busy_progress [OF busy, of A B] obtain k where k: "link_completion A R B H l k" by blast
    have run: "link_run A R B H l0 (Suc n) k" by (rule link_completes [OF less.prems(1) k])
    have a: "asked k = asked l" using k by cases simp_all
    have "n < 8 * length (asked l)"
      using busy by (auto simp: link_busy_def elim!: askingE)
    with less.hyps [OF _ run less.prems(2)] a obtain n' l' where
      "(link_completion A R B H)\<^sup>*\<^sup>* k l'" "link_run A R B H l0 n' l'" "asked l' = asked l" "pending (client_end l') = []"
      by fastforce
    with k show ?thesis by (blast intro: converse_rtranclp_into_rtranclp)
  qed
qed

end

end
