(* ===== verification/Lossy_Link.thy ===== *)
theory Lossy_Link
  imports Link
begin

section \<open>A connection that can fail at any time\<close>

text \<open>
  The connection of \<open>Link\<close> with failures: at any time the outstanding transfer of either end may fail
  with any error code, after part of its bytes has gone out or any bytes have come in, and from then
  on that end only shuts its stream down and closes its socket; a quiet client may also be stopped by
  its owner. The invariant shows that even so both handlers see whole messages only, in order and at most
  once, and the client only answers to its own requests.
\<close>

subsection \<open>The system\<close>

record ('v, 'w) lossy =
  net :: "('v, 'w) link"
  client_up :: bool
  server_up :: bool

inductive lossy_step ::
  "'v asio \<Rightarrow> 'v response_handler \<Rightarrow> 'w asio \<Rightarrow> 'w request_handler \<Rightarrow>
   ('v, 'w) lossy \<Rightarrow> ('v, 'w) lossy \<Rightarrow> bool"
  for A R B H where
  lossy_send: "client_up l \<Longrightarrow> pending (client_end (net l)) = [] \<Longrightarrow> fits (content_buffer m) \<Longrightarrow>
    lossy_step A R B H l (l\<lparr>net := link_send m (net l)\<rparr>)"
| lossy_completion: "link_completion A R B H (net l) m \<Longrightarrow> lossy_step A R B H l (l\<lparr>net := m\<rparr>)"
| client_fails: "pending (client_end (net l)) = [x] \<Longrightarrow> is_transfer x \<Longrightarrow> ec \<noteq> Success \<Longrightarrow>
    admissible x ec d \<Longrightarrow>
    deliver A (client_session A R) 0 ec d (client_end (net l)) = Inr k \<Longrightarrow>
    lossy_step A R B H l (l\<lparr>net := net l\<lparr>client_end := k,
      to_server := to_server (net l) @ take i (op_bytes x)\<rparr>, client_up := False\<rparr>)"
| server_fails: "pending (server_end (net l)) = [x] \<Longrightarrow> is_transfer x \<Longrightarrow> ec \<noteq> Success \<Longrightarrow>
    admissible x ec d \<Longrightarrow>
    deliver B (server_session B H) 0 ec d (server_end (net l)) = Inr s \<Longrightarrow>
    lossy_step A R B H l (l\<lparr>net := net l\<lparr>server_end := s,
      to_client := to_client (net l) @ take i (op_bytes x)\<rparr>, server_up := False\<rparr>)"
| client_stopped: "client_up l \<Longrightarrow> pending (client_end (net l)) = [] \<Longrightarrow>
    lossy_step A R B H l
      (l\<lparr>net := net l\<lparr>client_end := stop A (client_end (net l))\<rparr>, client_up := False\<rparr>)"
| client_ends: "pending (client_end (net l)) = [x] \<Longrightarrow> \<not> is_transfer x \<Longrightarrow>
    deliver A (client_session A R) 0 ec [] (client_end (net l)) = Inr k \<Longrightarrow>
    lossy_step A R B H l (l\<lparr>net := net l\<lparr>client_end := k\<rparr>\<rparr>)"
| server_ends: "pending (server_end (net l)) = [x] \<Longrightarrow> \<not> is_transfer x \<Longrightarrow>
    deliver B (server_session B H) 0 ec [] (server_end (net l)) = Inr s \<Longrightarrow>
    lossy_step A R B H l (l\<lparr>net := net l\<lparr>server_end := s\<rparr>\<rparr>)"

inductive lossy_run ::
  "'v asio \<Rightarrow> 'v response_handler \<Rightarrow> 'w asio \<Rightarrow> 'w request_handler \<Rightarrow>
   ('v, 'w) lossy \<Rightarrow> ('v, 'w) lossy \<Rightarrow> bool"
  for A R B H where
  lossy_refl: "lossy_run A R B H l l"
| lossy_next: "lossy_run A R B H l m \<Longrightarrow> lossy_step A R B H m k \<Longrightarrow> lossy_run A R B H l k"

definition lossy_start :: "('v, 'w) lossy \<Rightarrow> bool" where
  "lossy_start l \<longleftrightarrow> link_start (net l) \<and> client_up l \<and> server_up l"

subsection \<open>An end that has failed\<close>

definition dead :: "'w session_st \<Rightarrow> bool" where
  "dead s \<longleftrightarrow> pending s \<in> {[], [Op_Shutdown], [Op_Write_Null]}"

lemma dead_stop: "pending s = [] \<Longrightarrow> dead (stop A s)"
  by (simp add: dead_def)

lemma socket_calls_keepD:
  assumes "socket_calls_keep A f"
  shows "f (snd (socket_cancel A h w)) = f w" and "f (snd (socket_close A h w)) = f w"
  using assms by (simp_all add: socket_calls_keep_def)

lemma failed_dead:
  assumes "pending s = [x]" and "is_transfer x" and "ec \<noteq> Success" and "socket_calls_keep A f"
    and "deliver A V 0 ec d s = Inr s'"
  shows "dead s' \<and> f (world s') = f (world s)"
proof -
  let ?s = "store_read x d (s\<lparr>pending := []\<rparr>)"
  have step: "complete A V x ec ?s = Inr s'" using assms(1,5) by (simp add: deliver_single)
  show ?thesis
  proof (cases "ec = Operation_Aborted")
    case True
    with step assms(2) show ?thesis by (auto simp: complete_aborted dead_def)
  next
    case False
    obtain s1 where "complete A V x ec ?s = Inr (stop A s1)" "pending s1 = pending ?s" "world s1 = world ?s"
      by (rule complete_failed [OF assms(2,3) False, of A V ?s])
    with step show ?thesis
      by (auto simp: dead_def socket_calls_keepD [OF assms(4)])
  qed
qed

lemma dead_client_step:
  assumes "dead s" and "pending s = [x]" and "socket_calls_keep A f"
    and "deliver A (client_session A R) 0 ec [] s = Inr s'"
  shows "dead s' \<and> f (world s') = f (world s)"
proof (cases x)
  case Op_Shutdown
  with assms(2) have p: "pending s = [Op_Shutdown]" by simp
  obtain t where "deliver A (client_session A R) 0 ec [] s = Inr t" "pending t = []"
    "world t = snd (socket_close A (socket s) (world s))"
    by (rule client_shutdown [OF p, of A R ec])
  with assms(4) show ?thesis by (simp add: dead_def socket_calls_keepD [OF assms(3)])
next
  case Op_Write_Null
  with assms(2,4) show ?thesis by (auto simp: deliver_single dead_def)
qed (use assms(1,2) in \<open>simp_all add: dead_def\<close>)

lemma dead_server_step:
  assumes "dead s" and "pending s = [x]" and "socket_calls_keep B f"
    and "deliver B (server_session B H) 0 ec [] s = Inr s'"
  shows "dead s' \<and> f (world s') = f (world s)"
proof (cases x)
  case Op_Shutdown
  with assms(2,4) show ?thesis
    by (auto simp: deliver_single completed_defs server_on_shutdown_secure_stream_def dead_def
        socket_calls_keepD [OF assms(3)]
        dest: server_close.close_pending server_close.close_world split: if_splits)
next
  case Op_Write_Null
  with assms(2,4) show ?thesis
    by (auto simp: deliver_single server_null_write_completed_def dead_def
        socket_calls_keepD [OF assms(3)] dest: server_close.close_pending server_close.close_world)
qed (use assms(1,2) in \<open>simp_all add: dead_def\<close>)

lemma dead_no_transfer: "dead s \<Longrightarrow> pending s = [x] \<Longrightarrow> \<not> is_write x \<and> read_size x = None \<and> \<not> is_transfer x"
  by (auto simp: dead_def)

lemma transfer_cases: "is_transfer x \<longleftrightarrow> is_write x \<or> (\<exists>n. read_size x = Some n)"
  by (cases x) auto

subsection \<open>The invariant\<close>

text \<open>The worlds after the first \<open>i\<close> requests of the abstract conversation.\<close>

definition conv_at ::
  "'v response_handler \<Rightarrow> 'w request_handler \<Rightarrow> message \<Rightarrow> 'w \<Rightarrow> 'v \<Rightarrow> ('v, 'w) link \<Rightarrow> nat \<Rightarrow> 'w \<times> 'v"
where
  "conv_at R H out0 w0 v0 l i = conversation H R out0 w0 v0 (take i (asked l))"

text \<open>
  What is known of one end by itself: a server or client at rest has done its part for all requests,
  one at work has the last one under way, and what is in the channel to it is a beginning of what it
  has still to receive. A client at work is \<open>fresh\<close> while nothing of the answer has come.
\<close>

definition srv_rest ::
  "'v response_handler \<Rightarrow> 'w request_handler \<Rightarrow> message \<Rightarrow> 'w \<Rightarrow> 'v \<Rightarrow> ('v, 'w) link \<Rightarrow> bool"
where
  "srv_rest R H out0 w0 v0 l \<longleftrightarrow> to_server l = [] \<and>
     (\<exists>j. waiting (next_out out0 (asked l)) (fst (conv_at R H out0 w0 v0 l (length (asked l)))) (server_end l) j)"

definition srv_work ::
  "'v response_handler \<Rightarrow> 'w request_handler \<Rightarrow> message \<Rightarrow> 'w \<Rightarrow> 'v \<Rightarrow> ('v, 'w) link \<Rightarrow> bool"
where
  "srv_work R H out0 w0 v0 l \<longleftrightarrow>
     (\<exists>cs c w v response w1 u t j p. asked l = cs @ [c] \<and> fits c \<and>
        conversation H R out0 w0 v0 cs = (w, v) \<and> H (message_of c) (next_out out0 cs) w = (response, w1) \<and>
        serving c (content_buffer response) (next_out out0 cs) w w1 u t j (server_end l) \<and> to_server l @ p = u)"

definition cli_rest ::
  "'v response_handler \<Rightarrow> 'w request_handler \<Rightarrow> message \<Rightarrow> 'w \<Rightarrow> 'v \<Rightarrow> ('v, 'w) link \<Rightarrow> bool"
where
  "cli_rest R H out0 w0 v0 l \<longleftrightarrow> pending (client_end l) = [] \<and> to_client l = [] \<and>
     world (client_end l) = snd (conv_at R H out0 w0 v0 l (length (asked l)))"

definition cli_work ::
  "'v response_handler \<Rightarrow> 'w request_handler \<Rightarrow> message \<Rightarrow> 'w \<Rightarrow> 'v \<Rightarrow> bool \<Rightarrow> ('v, 'w) link \<Rightarrow> bool"
where
  "cli_work R H out0 w0 v0 fresh l \<longleftrightarrow>
     (\<exists>cs c w v response w1 p q i t. asked l = cs @ [c] \<and> fits (content_buffer response) \<and>
        conversation H R out0 w0 v0 cs = (w, v) \<and> H (message_of c) (next_out out0 cs) w = (response, w1) \<and>
        asking c (content_buffer response) v p q i (client_end l) \<and> to_client l @ t = q \<and>
        (fresh \<longrightarrow> to_client l = [] \<and> q = encode (content_buffer response)))"

lemma conv_at_all: "conv_at R H out0 w0 v0 l (length (asked l)) = conversation H R out0 w0 v0 (asked l)"
  by (simp add: conv_at_def)

lemma conv_at_last:
  assumes "asked l = cs @ [c]" and "conversation H R out0 w0 v0 cs = (w, v)"
    and "H (message_of c) (next_out out0 cs) w = (response, w1)"
  shows "conv_at R H out0 w0 v0 l (length cs) = (w, v)"
    and "conv_at R H out0 w0 v0 l (Suc (length cs)) = (w1, R (message_of (content_buffer response)) v)"
  using assms conversation_snoc [OF assms(2,3)] by (simp_all add: conv_at_def)

lemma serving_world:
  "serving c r out w w1 u t j s \<Longrightarrow>
     world s = w \<and> t = encode r \<and> (\<forall>x. pending s = [x] \<longrightarrow> op_bytes x = []) \<or>
     world s = w1 \<and> (\<forall>x. pending s = [x] \<longrightarrow> (\<exists>t'. t = op_bytes x @ t'))"
  by (auto simp: serving_def waiting_def ready_def encode_split elim!: hearingE replyingE)

lemma serving_transfer: "serving c r out w w1 u t j s \<Longrightarrow> \<exists>x. pending s = [x] \<and> is_transfer x"
  by (auto simp: serving_def waiting_def ready_def elim!: hearingE replyingE)

lemma waiting_transfer:
  "waiting out w s j \<Longrightarrow> \<exists>x. pending s = [x] \<and> is_transfer x \<and> op_bytes x = []"
  by (auto simp: waiting_def ready_def)

lemma asking_transfer:
  "asking c r v p q i k \<Longrightarrow> \<exists>x. pending k = [x] \<and> is_transfer x \<and> (\<exists>p'. p = op_bytes x @ p') \<and> world k = v"
  by (erule askingE) (auto simp: encode_split)

lemma take_drop_append [simp]: "take n xs @ drop n xs @ ys = xs @ ys"
  by (metis append.assoc append_take_drop_id)

lemma encode_longer: "encode r \<noteq> r" and encode_neq_suffix: "b @ encode r = r \<Longrightarrow> False"
proof -
  have "length r < length (encode r)" by (simp add: encode_header)
  then show "encode r \<noteq> r" by auto
  assume "b @ encode r = r"
  then have "length b + length (encode r) = length r" by (metis length_append)
  with \<open>length r < length (encode r)\<close> show False by simp
qed

text \<open>An exchange seen from its two ends.\<close>

lemma idle_split:
  "link_idle R H out0 w0 v0 n l \<Longrightarrow> srv_rest R H out0 w0 v0 l \<and> cli_rest R H out0 w0 v0 l"
  by (auto simp: link_idle_def srv_rest_def cli_rest_def conv_at_all)

lemma busy_split:
  assumes "link_busy R H out0 w0 v0 n l"
  shows "srv_work R H out0 w0 v0 l \<and> cli_work R H out0 w0 v0 False l"
proof -
  from assms obtain cs c w v response w1 u t j p q i where
    "asked l = cs @ [c]" "fits c" "fits (content_buffer response)" "conversation H R out0 w0 v0 cs = (w, v)"
    "H (message_of c) (next_out out0 cs) w = (response, w1)"
    "serving c (content_buffer response) (next_out out0 cs) w w1 u t j (server_end l)"
    "asking c (content_buffer response) v p q i (client_end l)"
    "to_server l @ p = u" "to_client l @ t = q"
    unfolding link_busy_def by blast
  then show ?thesis unfolding srv_work_def cli_work_def by blast
qed

subsection \<open>Completions at one end while the other is dead\<close>

lemma dead_no_completion:
  assumes "link_completion A R B H l m" and "dead (client_end l)" and "dead (server_end l)"
  shows False
  using assms(1)
  by cases (use assms(2,3) in \<open>auto dest: dead_no_transfer\<close>)

lemma srv_rest_step:
  assumes "link_completion A R B H l m" and "dead (client_end l)" and "srv_rest R H out0 w0 v0 l"
  shows "srv_rest R H out0 w0 v0 m \<and> client_end m = client_end l \<and> asked m = asked l"
proof -
  from assms(3) obtain j where empty: "to_server l = []" and s: "waiting (next_out out0 (asked l))
      (fst (conv_at R H out0 w0 v0 l (length (asked l)))) (server_end l) j"
    by (auto simp: srv_rest_def)
  from assms(1) show ?thesis
  proof cases
    case (server_writes x t)
    from waiting_write [OF s server_writes(2-4)] server_writes(1) empty show ?thesis
      by (auto simp: srv_rest_def conv_at_def)
  next
    case (server_reads x k t)
    with s have "k = 28" by (auto simp: waiting_def ready_def)
    with server_reads(4) empty show ?thesis by simp
  qed (use assms(2) in \<open>auto dest: dead_no_transfer\<close>)
qed

lemma srv_work_step:
  assumes "link_completion A R B H l m" and "dead (client_end l)" and "srv_work R H out0 w0 v0 l"
  shows "srv_work R H out0 w0 v0 m \<and> client_end m = client_end l \<and> asked m = asked l"
proof -
  from assms(3) obtain cs c w v response w1 u t j p where
    l: "asked l = cs @ [c]" "fits c" "conversation H R out0 w0 v0 cs = (w, v)"
      "H (message_of c) (next_out out0 cs) w = (response, w1)"
    and srv: "serving c (content_buffer response) (next_out out0 cs) w w1 u t j (server_end l)"
    and ch: "to_server l @ p = u"
    unfolding srv_work_def by blast
  have work: "srv_work R H out0 w0 v0 m" if "asked m = asked l"
    "serving c (content_buffer response) (next_out out0 cs) w w1 u' t' j' (server_end m)"
    "to_server m @ p = u'" for u' t' j'
    unfolding srv_work_def using that l by metis
  from assms(1) show ?thesis
  proof cases
    case (server_writes x s)
    from serving_write [OF srv server_writes(2-4)] obtain t' j' where
      "serving c (content_buffer response) (next_out out0 cs) w w1 u t' j' s" by blast
    with server_writes(1) ch work [of u t' j'] show ?thesis by simp
  next
    case (server_reads x k s)
    from serving_read [OF srv server_reads(2-4) ch l(2,4) refl server_reads(5)] obtain u' j' where
      "serving c (content_buffer response) (next_out out0 cs) w w1 u' t j' s" "drop k (to_server l) @ p = u'"
      by blast
    with server_reads(1) work [of u' t j'] show ?thesis by simp
  qed (use assms(2) in \<open>auto dest: dead_no_transfer\<close>)
qed

lemma cli_rest_no_step:
  "link_completion A R B H l m \<Longrightarrow> dead (server_end l) \<Longrightarrow> cli_rest R H out0 w0 v0 l \<Longrightarrow> False"
  by (erule link_completion.cases) (auto simp: cli_rest_def dest: dead_no_transfer)

lemma cli_work_step:
  assumes "link_completion A R B H l m" and "dead (server_end l)" and "cli_work R H out0 w0 v0 fresh l"
  shows "(cli_work R H out0 w0 v0 fresh m \<or> \<not> fresh \<and> cli_rest R H out0 w0 v0 m) \<and>
    server_end m = server_end l \<and> asked m = asked l"
proof -
  from assms(3) obtain cs c w v response w1 p q i t where
    l: "asked l = cs @ [c]" "fits (content_buffer response)" "conversation H R out0 w0 v0 cs = (w, v)"
      "H (message_of c) (next_out out0 cs) w = (response, w1)"
    and cli: "asking c (content_buffer response) v p q i (client_end l)"
    and ch: "to_client l @ t = q"
    and fresh: "fresh \<longrightarrow> to_client l = [] \<and> q = encode (content_buffer response)"
    unfolding cli_work_def by blast
  have work: "cli_work R H out0 w0 v0 fresh m" if "asked m = asked l"
    "asking c (content_buffer response) v p' q' i' (client_end m)" "to_client m @ t = q'"
    "fresh \<longrightarrow> to_client m = [] \<and> q' = encode (content_buffer response)" for p' q' i'
    unfolding cli_work_def using that l by metis
  from assms(1) show ?thesis
  proof cases
    case (client_writes x k)
    from asking_write [OF cli client_writes(2-4)] obtain p' i' where
      "asking c (content_buffer response) v p' q i' k" by blast
    with client_writes(1) ch fresh work [of p' q i'] show ?thesis by simp
  next
    case (client_reads x b k)
    have "b \<noteq> 0 \<or> q \<noteq> encode (content_buffer response)"
      using cli client_reads(2,3) by (cases rule: asking.cases) (auto simp: encode_longer [symmetric])
    with fresh client_reads(4) have nf: "\<not> fresh" by auto
    from asking_read [OF cli client_reads(2-4) ch l(2) client_reads(5)]
    consider q' i' where "asking c (content_buffer response) v p q' i' k" "drop b (to_client l) @ t = q'"
      | "drop b (to_client l) = []" "pending k = []" "world k = R (message_of (content_buffer response)) v"
      by blast
    then show ?thesis
    proof cases
      case 1
      with client_reads(1) nf work [of p q' i'] show ?thesis by simp
    next
      case 2
      then have "cli_rest R H out0 w0 v0 m"
        using client_reads(1) conv_at_last(2) [OF l(1,3,4)] l(1)
        by (simp add: cli_rest_def conv_at_def)
      with client_reads(1) nf show ?thesis by simp
    qed
  qed (use assms(2) in \<open>auto dest: dead_no_transfer\<close>)
qed

subsection \<open>The invariant of the connection\<close>

text \<open>
  The two flags say which ends are up. An end that is down shows, under \<open>f\<close> for the server and \<open>g\<close> for
  the client, the world after some number of requests; the number of the client is at most that of
  the server and at most one behind.
\<close>

inductive lossy_ok ::
  "'v response_handler \<Rightarrow> 'w request_handler \<Rightarrow> message \<Rightarrow> 'w \<Rightarrow> 'v \<Rightarrow> ('w \<Rightarrow> 'x) \<Rightarrow> ('v \<Rightarrow> 'y) \<Rightarrow>
   bool \<Rightarrow> bool \<Rightarrow> ('v, 'w) link \<Rightarrow> bool"
  for R H out0 w0 v0 f g where
  both_up: "link_idle R H out0 w0 v0 n l \<or> link_busy R H out0 w0 v0 n l \<Longrightarrow>
    lossy_ok R H out0 w0 v0 f g True True l"
| client_down: "dead (client_end l) \<Longrightarrow>
    g (world (client_end l)) = g (snd (conv_at R H out0 w0 v0 l j)) \<Longrightarrow>
    srv_rest R H out0 w0 v0 l \<and> j = length (asked l) \<or> srv_work R H out0 w0 v0 l \<and> Suc j = length (asked l) \<Longrightarrow>
    lossy_ok R H out0 w0 v0 f g False True l"
| server_down: "dead (server_end l) \<Longrightarrow>
    f (world (server_end l)) = f (fst (conv_at R H out0 w0 v0 l i)) \<Longrightarrow>
    cli_rest R H out0 w0 v0 l \<and> i = length (asked l) \<or> cli_work R H out0 w0 v0 False l \<and> i = length (asked l) \<or>
      cli_work R H out0 w0 v0 True l \<and> Suc i = length (asked l) \<Longrightarrow>
    lossy_ok R H out0 w0 v0 f g True False l"
| both_down: "dead (client_end l) \<Longrightarrow> dead (server_end l) \<Longrightarrow>
    f (world (server_end l)) = f (fst (conv_at R H out0 w0 v0 l i)) \<Longrightarrow>
    g (world (client_end l)) = g (snd (conv_at R H out0 w0 v0 l j)) \<Longrightarrow>
    j \<le> i \<Longrightarrow> i \<le> Suc j \<Longrightarrow> i \<le> length (asked l) \<Longrightarrow>
    lossy_ok R H out0 w0 v0 f g False False l"

lemma conv_at_asked: "asked l' = asked l \<Longrightarrow> conv_at R H out0 w0 v0 l' = conv_at R H out0 w0 v0 l"
  by (rule ext) (simp add: conv_at_def)

lemma ok_completion:
  assumes "link_completion A R B H l m" and "lossy_ok R H out0 w0 v0 f g cu su l"
  shows "lossy_ok R H out0 w0 v0 f g cu su m"
  using assms(2)
proof (cases rule: lossy_ok.cases)
  case (both_up n)
  then show ?thesis using busy_step [OF assms(1)] idle_step [OF assms(1)] by (blast intro: lossy_ok.both_up)
next
  case (client_down j)
  then have "client_end m = client_end l \<and> asked m = asked l \<and>
    (srv_rest R H out0 w0 v0 m \<and> j = length (asked l) \<or> srv_work R H out0 w0 v0 m \<and> Suc j = length (asked l))"
    using srv_rest_step [OF assms(1)] srv_work_step [OF assms(1)] by blast
  with client_down show ?thesis
    by (simp add: lossy_ok.client_down [of m g R H out0 w0 v0 j f] conv_at_asked [of m l])
next
  case (server_down i)
  then have "server_end m = server_end l \<and> asked m = asked l \<and>
    (cli_rest R H out0 w0 v0 m \<and> i = length (asked l) \<or> cli_work R H out0 w0 v0 False m \<and> i = length (asked l) \<or>
      cli_work R H out0 w0 v0 True m \<and> Suc i = length (asked l))"
    using cli_rest_no_step [OF assms(1)] cli_work_step [OF assms(1)] by blast
  with server_down show ?thesis
    by (simp add: lossy_ok.server_down [of m f R H out0 w0 v0 i g] conv_at_asked [of m l])
next
  case both_down
  then show ?thesis using dead_no_completion [OF assms(1)] by blast
qed

text \<open>What the failure of one end leaves of an exchange.\<close>

lemma srv_work_failed:
  assumes "srv_work R H out0 w0 v0 l"
  obtains i where "world (server_end l) = fst (conv_at R H out0 w0 v0 l i)"
    and "i = length (asked l) \<or> Suc i = length (asked l)"
proof -
  from assms obtain cs c w v response w1 u t j where
    l: "asked l = cs @ [c]" "conversation H R out0 w0 v0 cs = (w, v)"
      "H (message_of c) (next_out out0 cs) w = (response, w1)"
    and srv: "serving c (content_buffer response) (next_out out0 cs) w w1 u t j (server_end l)"
    unfolding srv_work_def by blast
  from serving_world [OF srv] conv_at_last [OF l] that l(1) show thesis by force
qed

lemma cli_work_failed:
  assumes "cli_work R H out0 w0 v0 fresh l"
  obtains j where "world (client_end l) = snd (conv_at R H out0 w0 v0 l j)" and "Suc j = length (asked l)"
proof -
  from assms obtain cs c w v response w1 p q i where
    l: "asked l = cs @ [c]" "conversation H R out0 w0 v0 cs = (w, v)"
      "H (message_of c) (next_out out0 cs) w = (response, w1)"
    and cli: "asking c (content_buffer response) v p q i (client_end l)"
    unfolding cli_work_def by blast
  from asking_transfer [OF cli] conv_at_last(1) [OF l] that l(1) show thesis by force
qed

subsection \<open>Failures keep the invariant\<close>

lemma ok_client_fails:
  fixes b :: nat
  assumes ok: "lossy_ok R H out0 w0 v0 f g cu su l" and keep: "socket_calls_keep A g"
    and p: "pending (client_end l) = [x]" "is_transfer x" "ec \<noteq> Success"
    and step: "deliver A (client_session A R) 0 ec d (client_end l) = Inr k"
  defines "m \<equiv> l\<lparr>client_end := k, to_server := to_server l @ take b (op_bytes x)\<rparr>"
  shows "lossy_ok R H out0 w0 v0 f g False su m"
proof -
  have k: "dead (client_end m)" "g (world (client_end m)) = g (world (client_end l))"
    using failed_dead [OF p keep step] by (simp_all add: m_def)
  have m: "asked m = asked l" "server_end m = server_end l" by (simp_all add: m_def)
  have alive: "\<not> dead (client_end l)" "pending (client_end l) \<noteq> []"
    using p dead_no_transfer by (blast, simp)
  from ok show ?thesis
  proof (cases rule: lossy_ok.cases)
    case (both_up n)
    with alive have busy: "link_busy R H out0 w0 v0 n l" by (auto simp: link_idle_def)
    then obtain cs c w v response w1 u t jj q i pp where
      l: "asked l = cs @ [c]" "fits c" "conversation H R out0 w0 v0 cs = (w, v)"
        "H (message_of c) (next_out out0 cs) w = (response, w1)"
      and srv: "serving c (content_buffer response) (next_out out0 cs) w w1 u t jj (server_end l)"
      and cli: "asking c (content_buffer response) v pp q i (client_end l)"
      and ch: "to_server l @ pp = u"
      unfolding link_busy_def by blast
    obtain p' where "pp = op_bytes x @ p'" using asking_transfer [OF cli] p(1) by auto
    then have "to_server m @ drop b (op_bytes x) @ p' = u" using ch by (simp add: m_def)
    with l srv m have work: "srv_work R H out0 w0 v0 m" unfolding srv_work_def by metis
    have "cli_work R H out0 w0 v0 False l" using busy_split [OF busy] by simp
    then obtain j where "world (client_end l) = snd (conv_at R H out0 w0 v0 l j)" "Suc j = length (asked l)"
      by (rule cli_work_failed)
    with work k m both_up show ?thesis
      using lossy_ok.client_down [of m g R H out0 w0 v0 j f] by (simp add: conv_at_asked [of m l])
  next
    case (server_down i)
    with alive obtain fresh where "cli_work R H out0 w0 v0 fresh l" and i: "i = length (asked l) \<or> Suc i = length (asked l)"
      by (auto simp: cli_rest_def)
    from this(1) obtain j where "world (client_end l) = snd (conv_at R H out0 w0 v0 l j)" "Suc j = length (asked l)"
      by (rule cli_work_failed)
    with i server_down k m show ?thesis
      by (auto intro!: lossy_ok.both_down [of m _ _ _ _ _ _ i _ j] simp: conv_at_asked [of m l])
  qed (use alive in simp_all)
qed

text \<open>What the server has done when the client has failed.\<close>

lemma client_down_server:
  assumes "srv_rest R H out0 w0 v0 l \<and> j = length (asked l) \<or> srv_work R H out0 w0 v0 l \<and> Suc j = length (asked l)"
  obtains i where "world (server_end l) = fst (conv_at R H out0 w0 v0 l i)" and "j \<le> i" and "i \<le> Suc j"
    and "i \<le> length (asked l)"
  using assms
proof (elim disjE conjE)
  assume "srv_rest R H out0 w0 v0 l" "j = length (asked l)"
  then show thesis by (intro that [of j]) (auto simp: srv_rest_def waiting_def)
next
  assume work: "srv_work R H out0 w0 v0 l" and j: "Suc j = length (asked l)"
  from work obtain i where "world (server_end l) = fst (conv_at R H out0 w0 v0 l i)"
    "i = length (asked l) \<or> Suc i = length (asked l)"
    by (rule srv_work_failed)
  with j show thesis by (intro that [of i]) auto
qed

lemma idle_server_fails:
  assumes "link_idle R H out0 w0 v0 n l" and "pending (server_end l) = [x]" and "dead s"
    and "f (world s) = f (world (server_end l))"
  shows "lossy_ok R H out0 w0 v0 f g True False
    (l\<lparr>server_end := s, to_client := to_client l @ take b (op_bytes x)\<rparr>)" (is "lossy_ok _ _ _ _ _ _ _ _ _ ?m")
proof -
  from assms(1) obtain w v j where idle: "conversation H R out0 w0 v0 (asked l) = (w, v)" "to_client l = []"
    "pending (client_end l) = []" "world (client_end l) = v"
    "waiting (next_out out0 (asked l)) w (server_end l) j"
    unfolding link_idle_def by blast
  have "op_bytes x = []" using waiting_transfer [OF idle(5)] assms(2) by auto
  then have "cli_rest R H out0 w0 v0 ?m" using idle by (simp add: cli_rest_def conv_at_def)
  moreover have "world (server_end l) = w" using idle(5) by (simp add: waiting_def)
  ultimately show ?thesis
    using assms(3,4) idle(1) lossy_ok.server_down [of ?m f R H out0 w0 v0 "length (asked l)" g]
    by (simp add: conv_at_asked [of ?m l] conv_at_all)
qed

lemma busy_server_fails:
  assumes "link_busy R H out0 w0 v0 n l" and p: "pending (server_end l) = [x]" and "dead s"
    and "f (world s) = f (world (server_end l))"
  shows "lossy_ok R H out0 w0 v0 f g True False
    (l\<lparr>server_end := s, to_client := to_client l @ take b (op_bytes x)\<rparr>)" (is "lossy_ok _ _ _ _ _ _ _ _ _ ?m")
proof -
  from assms(1) obtain cs c w v response w1 u t jj q i pp where
    l: "asked l = cs @ [c]" "fits (content_buffer response)" "conversation H R out0 w0 v0 cs = (w, v)"
      "H (message_of c) (next_out out0 cs) w = (response, w1)"
    and srv: "serving c (content_buffer response) (next_out out0 cs) w w1 u t jj (server_end l)"
    and cli: "asking c (content_buffer response) v pp q i (client_end l)"
    and ch: "to_client l @ t = q"
    unfolding link_busy_def by blast
  have m: "asked ?m = asked l" "client_end ?m = client_end l" by simp_all
  from serving_world [OF srv] p consider
      (before) "world (server_end l) = w" "t = encode (content_buffer response)" "op_bytes x = []"
    | (after) t' where "world (server_end l) = w1" "t = op_bytes x @ t'"
    by auto
  then show ?thesis
  proof cases
    case before
    have "q = encode (content_buffer response) \<or> q = content_buffer response"
      using cli by (cases rule: asking.cases) simp_all
    with ch before(2) have "to_client l = []" "q = encode (content_buffer response)"
      using encode_neq_suffix by auto
    moreover from this(1) have "to_client ?m = []" using before(3) by simp
    ultimately have "cli_work R H out0 w0 v0 True ?m"
      unfolding cli_work_def using l cli m by (metis append_Nil)
    with assms(3,4) before(1) l(1) conv_at_last(1) [OF l(1,3,4)] show ?thesis
      using lossy_ok.server_down [of ?m f R H out0 w0 v0 "length cs" g]
      by (simp add: conv_at_asked [of ?m l])
  next
    case after
    have "to_client ?m @ drop b (op_bytes x) @ t' = q" using ch after(2) by simp
    with l cli m have "cli_work R H out0 w0 v0 False ?m" unfolding cli_work_def by metis
    with assms(3,4) after(1) l(1) conv_at_last(2) [OF l(1,3,4)] show ?thesis
      using lossy_ok.server_down [of ?m f R H out0 w0 v0 "Suc (length cs)" g]
      by (simp add: conv_at_asked [of ?m l])
  qed
qed

lemma ok_server_fails:
  fixes b :: nat
  assumes ok: "lossy_ok R H out0 w0 v0 f g cu su l" and keep: "socket_calls_keep B f"
    and p: "pending (server_end l) = [x]" "is_transfer x" "ec \<noteq> Success"
    and step: "deliver B (server_session B H) 0 ec d (server_end l) = Inr s"
  defines "m \<equiv> l\<lparr>server_end := s, to_client := to_client l @ take b (op_bytes x)\<rparr>"
  shows "lossy_ok R H out0 w0 v0 f g cu False m"
proof -
  have s: "dead s" "f (world s) = f (world (server_end l))" using failed_dead [OF p keep step] by simp_all
  have alive: "\<not> dead (server_end l)" using p dead_no_transfer by blast
  from ok show ?thesis
  proof (cases rule: lossy_ok.cases)
    case (both_up n)
    then show ?thesis
      using idle_server_fails [OF _ p(1) s, of R H out0 w0 v0 n g b]
        busy_server_fails [OF _ p(1) s, of R H out0 w0 v0 n g b] by (auto simp: m_def)
  next
    case (client_down j)
    from client_down(5) obtain i where "world (server_end l) = fst (conv_at R H out0 w0 v0 l i)"
      "j \<le> i" "i \<le> Suc j" "i \<le> length (asked l)"
      by (rule client_down_server)
    moreover have "asked m = asked l" "client_end m = client_end l" "server_end m = s" by (simp_all add: m_def)
    ultimately show ?thesis
      using client_down s lossy_ok.both_down [of m f R H out0 w0 v0 i g j] by (simp add: conv_at_asked [of m l])
  qed (use alive in simp_all)
qed

lemma ok_client_stopped:
  assumes ok: "lossy_ok R H out0 w0 v0 f g True su l" and keep: "socket_calls_keep A g"
    and p: "pending (client_end l) = []"
  defines "m \<equiv> l\<lparr>client_end := stop A (client_end l)\<rparr>"
  shows "lossy_ok R H out0 w0 v0 f g False su m"
proof -
  let ?n = "length (asked l)"
  have k: "dead (client_end m)" "g (world (client_end m)) = g (world (client_end l))"
    using p by (simp_all add: m_def dead_stop socket_calls_keepD [OF keep])
  have m: "asked m = asked l" "server_end m = server_end l" "to_server m = to_server l"
    by (simp_all add: m_def)
  have rest: "cli_rest R H out0 w0 v0 l \<Longrightarrow> g (world (client_end m)) = g (snd (conv_at R H out0 w0 v0 m ?n))"
    using k by (simp add: cli_rest_def conv_at_asked [OF m(1)])
  have not_work: "\<not> cli_work R H out0 w0 v0 fresh l" for fresh
    using p by (auto simp: cli_work_def dest: asking_busy)
  from ok show ?thesis
  proof (cases rule: lossy_ok.cases)
    case (both_up n)
    then have "link_idle R H out0 w0 v0 n l" using p by (auto simp: link_busy_def dest: asking_busy)
    then have "srv_rest R H out0 w0 v0 m" "cli_rest R H out0 w0 v0 l"
      using idle_split [of R H out0 w0 v0 n l] m by (simp_all add: srv_rest_def conv_at_asked [of m l])
    with k rest m both_up show ?thesis
      using lossy_ok.client_down [of m g R H out0 w0 v0 ?n f] by simp
  next
    case (server_down i)
    with not_work have "cli_rest R H out0 w0 v0 l" "i = ?n" by auto
    with server_down k rest m show ?thesis
      using lossy_ok.both_down [of m f R H out0 w0 v0 ?n g ?n] by (simp add: conv_at_asked [of m l])
  qed simp_all
qed

lemma ok_client_ends:
  assumes ok: "lossy_ok R H out0 w0 v0 f g cu su l" and keep: "socket_calls_keep A g"
    and p: "pending (client_end l) = [x]" "\<not> is_transfer x"
    and step: "deliver A (client_session A R) 0 ec [] (client_end l) = Inr k"
  defines "m \<equiv> l\<lparr>client_end := k\<rparr>"
  shows "lossy_ok R H out0 w0 v0 f g cu su m"
proof -
  have m: "asked m = asked l" "server_end m = server_end l" "to_server m = to_server l"
    by (simp_all add: m_def)
  have not_busy: "\<not> link_busy R H out0 w0 v0 n l" and not_work: "\<not> cli_work R H out0 w0 v0 fresh l" for n fresh
    using p by (auto simp: link_busy_def cli_work_def dest: asking_transfer)
  have not_rest: "\<not> link_idle R H out0 w0 v0 n l" "\<not> cli_rest R H out0 w0 v0 l" for n
    using p by (auto simp: link_idle_def cli_rest_def)
  have dead: "dead (client_end m) \<and> g (world (client_end m)) = g (world (client_end l))" if "dead (client_end l)"
    using dead_client_step [OF that p(1) keep step] by (simp add: m_def)
  from ok show ?thesis
  proof (cases rule: lossy_ok.cases)
    case (client_down j)
    then have "srv_rest R H out0 w0 v0 m \<and> j = length (asked l) \<or> srv_work R H out0 w0 v0 m \<and> Suc j = length (asked l)"
      using m by (simp add: srv_rest_def srv_work_def conv_at_asked [of m l])
    with client_down dead m show ?thesis
      using lossy_ok.client_down [of m g R H out0 w0 v0 j f] by (simp add: conv_at_asked [of m l])
  next
    case (both_down i j)
    with dead m show ?thesis
      using lossy_ok.both_down [of m f R H out0 w0 v0 i g j] by (simp add: conv_at_asked [of m l])
  qed (use not_busy not_work not_rest in auto)
qed

lemma ok_server_ends:
  assumes ok: "lossy_ok R H out0 w0 v0 f g cu su l" and keep: "socket_calls_keep B f"
    and p: "pending (server_end l) = [x]" "\<not> is_transfer x"
    and step: "deliver B (server_session B H) 0 ec [] (server_end l) = Inr s"
  defines "m \<equiv> l\<lparr>server_end := s\<rparr>"
  shows "lossy_ok R H out0 w0 v0 f g cu su m"
proof -
  have m: "asked m = asked l" "client_end m = client_end l" "to_client m = to_client l"
    by (simp_all add: m_def)
  have not_rest: "\<not> link_idle R H out0 w0 v0 n l" "\<not> srv_rest R H out0 w0 v0 l"
    and not_work: "\<not> link_busy R H out0 w0 v0 n l" "\<not> srv_work R H out0 w0 v0 l" for n
    using p by (auto simp: link_idle_def srv_rest_def link_busy_def srv_work_def
        dest: waiting_transfer serving_transfer)
  have dead: "dead (server_end m) \<and> f (world (server_end m)) = f (world (server_end l))" if "dead (server_end l)"
    using dead_server_step [OF that p(1) keep step] by (simp add: m_def)
  from ok show ?thesis
  proof (cases rule: lossy_ok.cases)
    case (server_down i)
    then have "cli_rest R H out0 w0 v0 m \<and> i = length (asked l) \<or> cli_work R H out0 w0 v0 False m \<and> i = length (asked l) \<or>
        cli_work R H out0 w0 v0 True m \<and> Suc i = length (asked l)"
      using m by (simp add: cli_rest_def cli_work_def conv_at_asked [of m l])
    with server_down dead m show ?thesis
      using lossy_ok.server_down [of m f R H out0 w0 v0 i g] by (simp add: conv_at_asked [of m l])
  next
    case (both_down i j)
    with dead m show ?thesis
      using lossy_ok.both_down [of m f R H out0 w0 v0 i g j] by (simp add: conv_at_asked [of m l])
  qed (use not_rest not_work in auto)
qed

subsection \<open>Runs\<close>

context fitting_handler
begin

lemma rest_send:
  assumes "cli_rest R H out0 w0 v0 l" and "fits (content_buffer m)"
  shows "cli_work R H out0 w0 v0 True (link_send m l)"
proof -
  let ?c = "content_buffer m"
  obtain w v where conv: "conversation H R out0 w0 v0 (asked l) = (w, v)" by fastforce
  obtain response w1 where H: "H (message_of ?c) (next_out out0 (asked l)) w = (response, w1)" by fastforce
  then have r: "fits (content_buffer response)"
    using response_fits [of "message_of ?c" "next_out out0 (asked l)" w] assms(2) by simp
  have "asking ?c (content_buffer response) v (encode ?c) (encode (content_buffer response)) 4
      (client_session_send m (client_end l))"
    using assms(1) conv
    by (intro ask_header)
      (simp_all add: client_session_send_def do_defs Let_def header_prepare_write cli_rest_def conv_at_def)
  with r H conv assms(1) show ?thesis
    unfolding cli_work_def link_send_def cli_rest_def by auto
qed

lemma ok_send:
  assumes ok: "lossy_ok R H out0 w0 v0 f g True su l" and p: "pending (client_end l) = []"
    and fit: "fits (content_buffer m)"
  shows "lossy_ok R H out0 w0 v0 f g True su (link_send m l)"
  using ok
proof (cases rule: lossy_ok.cases)
  case (both_up n)
  then have "link_idle R H out0 w0 v0 n l" using p by (auto simp: link_busy_def dest: asking_busy)
  with both_up fit show ?thesis by (blast intro: lossy_ok.both_up idle_send)
next
  case (server_down i)
  have "\<not> cli_work R H out0 w0 v0 fresh l" for fresh using p by (auto simp: cli_work_def dest: asking_busy)
  with server_down have "cli_rest R H out0 w0 v0 l" "i = length (asked l)" by auto
  with rest_send [OF this(1) fit] server_down show ?thesis
    using lossy_ok.server_down [of "link_send m l" f R H out0 w0 v0 i g]
    by (simp add: link_send_def conv_at_def)
qed simp_all

lemma lossy_step_ok:
  assumes "lossy_step A R B H l l'" and "socket_calls_keep A g" and "socket_calls_keep B f"
    and "lossy_ok R H out0 w0 v0 f g (client_up l) (server_up l) (net l)"
  shows "lossy_ok R H out0 w0 v0 f g (client_up l') (server_up l') (net l')"
  using assms(1)
proof cases
  case (lossy_send m)
  with ok_send [of R out0 w0 v0 f g "server_up l" "net l" m] assms(4) show ?thesis by simp
next
  case (lossy_completion m)
  with ok_completion [OF lossy_completion(2) assms(4)] show ?thesis by simp
next
  case (client_fails x ec d k i)
  with ok_client_fails [OF assms(4,2) client_fails(2,3,4,6)] show ?thesis by simp
next
  case (server_fails x ec d s i)
  with ok_server_fails [OF assms(4,3) server_fails(2,3,4,6)] show ?thesis by simp
next
  case client_stopped
  with ok_client_stopped [of R H out0 w0 v0 f g "server_up l" "net l" A] assms(2,4) show ?thesis by simp
next
  case (client_ends x ec k)
  with ok_client_ends [OF assms(4,2) client_ends(2,3,4)] show ?thesis by simp
next
  case (server_ends x ec s)
  with ok_server_ends [OF assms(4,3) server_ends(2,3,4)] show ?thesis by simp
qed

lemma lossy_run_ok:
  assumes "lossy_run A R B H l0 l" and "lossy_start l0"
    and "socket_calls_keep A g" and "socket_calls_keep B f"
  shows "lossy_ok R H (write_buffer (server_end (net l0))) (world (server_end (net l0)))
    (world (client_end (net l0))) f g (client_up l) (server_up l) (net l)"
  using assms(1,2)
proof (induction rule: lossy_run.induct)
  case (lossy_refl l)
  from lossy_refl link_run_inv [OF link_refl, of "net l"] show ?case
    by (auto simp: lossy_start_def intro: lossy_ok.both_up)
next
  case (lossy_next l m k)
  from lossy_step_ok [OF lossy_next.hyps(2) assms(3,4) lossy_next.IH [OF lossy_next.prems]] show ?case .
qed

end

text \<open>What the invariant says of the two worlds.\<close>

lemma lossy_ok_worlds:
  assumes "lossy_ok R H out0 w0 v0 f g cu su l"
  shows "\<exists>i j. j \<le> i \<and> i \<le> Suc j \<and> i \<le> length (asked l) \<and>
    f (world (server_end l)) = f (fst (conv_at R H out0 w0 v0 l i)) \<and>
    g (world (client_end l)) = g (snd (conv_at R H out0 w0 v0 l j))"
proof -
  have client: "?thesis"
    if "srv_rest R H out0 w0 v0 l \<and> j = length (asked l) \<or> srv_work R H out0 w0 v0 l \<and> Suc j = length (asked l)"
      and "g (world (client_end l)) = g (snd (conv_at R H out0 w0 v0 l j))" for j
    by (rule client_down_server [OF that(1)]) (use that(2) in auto)
  have at_work: "\<exists>j. world (client_end l) = snd (conv_at R H out0 w0 v0 l j) \<and> Suc j = length (asked l)"
    if "cli_work R H out0 w0 v0 fresh l" for fresh
    by (rule cli_work_failed [OF that]) blast
  from assms show ?thesis
  proof (cases rule: lossy_ok.cases)
    case (both_up n)
    then consider "srv_rest R H out0 w0 v0 l" "cli_rest R H out0 w0 v0 l"
      | "srv_work R H out0 w0 v0 l" "cli_work R H out0 w0 v0 False l"
      using idle_split busy_split by metis
    then show ?thesis
    proof cases
      case 1
      then show ?thesis by (intro client [of "length (asked l)"]) (simp_all add: cli_rest_def)
    next
      case 2
      with at_work obtain j where "world (client_end l) = snd (conv_at R H out0 w0 v0 l j)" "Suc j = length (asked l)"
        by blast
      with 2(1) show ?thesis by (intro client [of j]) simp_all
    qed
  next
    case (client_down j)
    then show ?thesis by (intro client [of j]) simp_all
  next
    case (server_down i)
    have "\<exists>j. world (client_end l) = snd (conv_at R H out0 w0 v0 l j) \<and> j \<le> i \<and> i \<le> Suc j \<and> i \<le> length (asked l)"
      using server_down(5) by (elim disjE conjE) (auto simp: cli_rest_def dest!: at_work)
    with server_down(4) show ?thesis by metis
  qed blast
qed

end
