(* ===== verification/Stopped_Link.thy ===== *)
theory Stopped_Link
  imports Lossy_Link
begin

section \<open>A connection whose client is stopped in the middle of an exchange\<close>

text \<open>
  The connection of \<open>Lossy_Link\<close> when the owner of the client may disconnect at any time, also while an
  answer is awaited. The shutdown is then issued beside the outstanding transfer, either may complete
  first, and a transfer that was not cancelled in time goes on with the exchange on a session that is
  shutting down or whose socket is closed already. The lemmas show that such a connection behaves,
  for all its handlers can see, as one of \<open>Lossy_Link\<close> whose client has not been stopped.
\<close>

subsection \<open>The system\<close>

text \<open>The operation \<open>j\<close> of the client completes; the server has only one outstanding at a time.\<close>

inductive abrupt_step ::
  "'v asio \<Rightarrow> 'v response_handler \<Rightarrow> 'w asio \<Rightarrow> 'w request_handler \<Rightarrow>
   ('v, 'w) lossy \<Rightarrow> ('v, 'w) lossy \<Rightarrow> bool"
  for A R B H where
  abrupt_send: "client_up l \<Longrightarrow> pending (client_end (net l)) = [] \<Longrightarrow> fits (content_buffer m) \<Longrightarrow>
    abrupt_step A R B H l (l\<lparr>net := link_send m (net l)\<rparr>)"
| abrupt_stop: "abrupt_step A R B H l
    (l\<lparr>net := net l\<lparr>client_end := stop A (client_end (net l))\<rparr>, client_up := False\<rparr>)"
| abrupt_client_writes: "j < length (pending (client_end (net l))) \<Longrightarrow>
    pending (client_end (net l)) ! j = x \<Longrightarrow> is_write x \<Longrightarrow>
    deliver A (client_session A R) j Success [] (client_end (net l)) = Inr k \<Longrightarrow>
    abrupt_step A R B H l
      (l\<lparr>net := net l\<lparr>client_end := k, to_server := to_server (net l) @ op_bytes x\<rparr>\<rparr>)"
| abrupt_client_reads: "j < length (pending (client_end (net l))) \<Longrightarrow>
    pending (client_end (net l)) ! j = x \<Longrightarrow> read_size x = Some n \<Longrightarrow> n \<le> length (to_client (net l)) \<Longrightarrow>
    deliver A (client_session A R) j Success (take n (to_client (net l))) (client_end (net l)) = Inr k \<Longrightarrow>
    abrupt_step A R B H l
      (l\<lparr>net := net l\<lparr>client_end := k, to_client := drop n (to_client (net l))\<rparr>\<rparr>)"
| abrupt_client_fails: "j < length (pending (client_end (net l))) \<Longrightarrow>
    pending (client_end (net l)) ! j = x \<Longrightarrow> is_transfer x \<Longrightarrow> ec \<noteq> Success \<Longrightarrow> admissible x ec d \<Longrightarrow>
    deliver A (client_session A R) j ec d (client_end (net l)) = Inr k \<Longrightarrow>
    abrupt_step A R B H l (l\<lparr>net := net l\<lparr>client_end := k,
      to_server := to_server (net l) @ take i (op_bytes x)\<rparr>, client_up := False\<rparr>)"
| abrupt_client_ends: "j < length (pending (client_end (net l))) \<Longrightarrow>
    \<not> is_transfer (pending (client_end (net l)) ! j) \<Longrightarrow>
    deliver A (client_session A R) j ec [] (client_end (net l)) = Inr k \<Longrightarrow>
    abrupt_step A R B H l (l\<lparr>net := net l\<lparr>client_end := k\<rparr>, client_up := client_up l \<and> ec = Success\<rparr>)"
| abrupt_server_writes: "pending (server_end (net l)) = [x] \<Longrightarrow> is_write x \<Longrightarrow>
    deliver B (server_session B H) 0 Success [] (server_end (net l)) = Inr s \<Longrightarrow>
    abrupt_step A R B H l
      (l\<lparr>net := net l\<lparr>server_end := s, to_client := to_client (net l) @ op_bytes x\<rparr>\<rparr>)"
| abrupt_server_reads: "pending (server_end (net l)) = [x] \<Longrightarrow> read_size x = Some n \<Longrightarrow>
    n \<le> length (to_server (net l)) \<Longrightarrow>
    deliver B (server_session B H) 0 Success (take n (to_server (net l))) (server_end (net l)) = Inr s \<Longrightarrow>
    abrupt_step A R B H l
      (l\<lparr>net := net l\<lparr>server_end := s, to_server := drop n (to_server (net l))\<rparr>\<rparr>)"
| abrupt_server_fails: "pending (server_end (net l)) = [x] \<Longrightarrow> is_transfer x \<Longrightarrow> ec \<noteq> Success \<Longrightarrow>
    admissible x ec d \<Longrightarrow>
    deliver B (server_session B H) 0 ec d (server_end (net l)) = Inr s \<Longrightarrow>
    abrupt_step A R B H l (l\<lparr>net := net l\<lparr>server_end := s,
      to_client := to_client (net l) @ take i (op_bytes x)\<rparr>, server_up := False\<rparr>)"
| abrupt_server_ends: "pending (server_end (net l)) = [x] \<Longrightarrow> \<not> is_transfer x \<Longrightarrow>
    deliver B (server_session B H) 0 ec [] (server_end (net l)) = Inr s \<Longrightarrow>
    abrupt_step A R B H l (l\<lparr>net := net l\<lparr>server_end := s\<rparr>, server_up := server_up l \<and> ec = Success\<rparr>)"

inductive abrupt_run ::
  "'v asio \<Rightarrow> 'v response_handler \<Rightarrow> 'w asio \<Rightarrow> 'w request_handler \<Rightarrow>
   ('v, 'w) lossy \<Rightarrow> ('v, 'w) lossy \<Rightarrow> bool"
  for A R B H where
  abrupt_refl: "abrupt_run A R B H l l"
| abrupt_next: "abrupt_run A R B H l m \<Longrightarrow> abrupt_step A R B H m k \<Longrightarrow> abrupt_run A R B H l k"

text \<open>A handshake that succeeds leaves both ends running.\<close>

lemma abrupt_client_handshakes:
  assumes "j < length (pending (client_end (net l)))" and "\<not> is_transfer (pending (client_end (net l)) ! j)"
    and "deliver A (client_session A R) j Success [] (client_end (net l)) = Inr k"
  shows "abrupt_step A R B H l (l\<lparr>net := net l\<lparr>client_end := k\<rparr>\<rparr>)"
  using abrupt_client_ends [OF assms, of B H] by (cases l) simp

lemma abrupt_server_handshakes:
  assumes "pending (server_end (net l)) = [x]" and "\<not> is_transfer x"
    and "deliver B (server_session B H) 0 Success [] (server_end (net l)) = Inr s"
  shows "abrupt_step A R B H l (l\<lparr>net := net l\<lparr>server_end := s\<rparr>\<rparr>)"
  using abrupt_server_ends [OF assms, of A R] by (cases l) simp

text \<open>It can do in particular what a connection does that does not fail.\<close>

lemma abrupt_completion:
  assumes "link_completion A R B H (net l) m"
  shows "abrupt_step A R B H l (l\<lparr>net := m\<rparr>)"
  using assms
proof cases
  case (client_writes x k)
  with abrupt_client_writes [of 0 l x A R k B H] show ?thesis by simp
next
  case (client_reads x n k)
  with abrupt_client_reads [of 0 l x n A R k B H] show ?thesis by simp
next
  case (server_writes x s)
  with abrupt_server_writes [of l x B H s A R] show ?thesis by simp
next
  case (server_reads x n s)
  with abrupt_server_reads [of l x n B H s A R] show ?thesis by simp
qed

lemma abrupt_completions:
  "(link_completion A R B H)\<^sup>*\<^sup>* (net l) m \<Longrightarrow> abrupt_run A R B H l (l\<lparr>net := m\<rparr>)"
proof (induction rule: rtranclp_induct)
  case base
  show ?case by (simp add: abrupt_refl)
next
  case (step m k)
  from step.hyps(2) have "abrupt_step A R B H (l\<lparr>net := m\<rparr>) (l\<lparr>net := m\<rparr>\<lparr>net := k\<rparr>)"
    by (intro abrupt_completion) simp
  with abrupt_next [OF step.IH] show ?case by simp
qed

lemma abrupt_run_trans: "abrupt_run A R B H k m \<Longrightarrow> abrupt_run A R B H l k \<Longrightarrow> abrupt_run A R B H l m"
  by (induction rule: abrupt_run.induct) (auto intro: abrupt_next)

subsection \<open>A client session with a shutdown beside its transfer\<close>

text \<open>The operations of a client session that carry no message.\<close>

fun is_control :: "async_op \<Rightarrow> bool" where
  "is_control Op_Shutdown = True"
| "is_control (Op_Handshake Handshake_Client) = True"
| "is_control _ = False"

text \<open>
  \<open>shadows g k k'\<close>: \<open>k\<close> is the session \<open>k'\<close>, which has at most one outstanding operation, but for
  the handshake or shutdowns beside it and for what those have done to sockets and console.
\<close>

definition shadows :: "('v \<Rightarrow> 'y) \<Rightarrow> 'v session_st \<Rightarrow> 'v session_st \<Rightarrow> bool" where
  "shadows g k k' \<longleftrightarrow> filter is_transfer (pending k) = pending k' \<and> length (pending k') \<le> 1 \<and>
     list_all (\<lambda>x. is_transfer x \<or> is_control x) (pending k) \<and>
     read_buffer k = read_buffer k' \<and> write_buffer k = write_buffer k' \<and> g (world k) = g (world k')"

definition only_control :: "'v session_st \<Rightarrow> bool" where
  "only_control k \<longleftrightarrow> list_all is_control (pending k)"

lemma control_no_transfer: "is_control x \<Longrightarrow> \<not> is_transfer x"
  by (erule is_control.elims) simp_all

lemma shadows_idle: "pending k = [] \<Longrightarrow> shadows g k k"
  by (simp add: shadows_def)

lemma shadows_control: "list_all is_control (pending k) \<Longrightarrow> shadows g k (k\<lparr>pending := []\<rparr>)"
  using control_no_transfer by (auto simp: shadows_def list_all_iff filter_empty_conv)

lemma shadows_send: "shadows g k k' \<Longrightarrow> pending k = [] \<Longrightarrow> shadows g (client_session_send m k) (client_session_send m k')"
  by (simp add: shadows_def client_session_send_def do_defs Let_def)

lemma shadows_stop: "socket_calls_keep A g \<Longrightarrow> shadows g k k' \<Longrightarrow> shadows g (stop A k) k'"
  by (simp add: shadows_def socket_calls_keepD)

text \<open>Taking one of the outstanding operations out.\<close>

abbreviation without :: "nat \<Rightarrow> 'a list \<Rightarrow> 'a list" where
  "without j xs \<equiv> take j xs @ drop (Suc j) xs"

lemma filter_without:
  assumes "j < length xs"
  shows "filter P xs = filter P (take j xs) @ (if P (xs ! j) then [xs ! j] else []) @ filter P (drop (Suc j) xs)"
  by (subst id_take_nth_drop [OF assms]) simp

lemma filter_without_single:
  assumes "j < length xs" and "P (xs ! j)" and "length (filter P xs) \<le> 1"
  shows "filter P xs = [xs ! j]" and "filter P (without j xs) = []"
  using assms filter_without [OF assms(1), of P] by auto

lemma list_all_without: "list_all P xs \<Longrightarrow> list_all P (without j xs)"
  by (auto simp: list_all_iff dest: in_set_takeD in_set_dropD)

lemma deliver_at:
  "j < length (pending k) \<Longrightarrow> deliver A V j ec d k =
     complete A V (pending k ! j) ec (store_read (pending k ! j) d (k\<lparr>pending := without j (pending k)\<rparr>))"
  by (simp add: deliver_def Let_def)

text \<open>A response handler that treats alike the worlds that look alike.\<close>

definition sees_only :: "('v \<Rightarrow> 'y) \<Rightarrow> 'v response_handler \<Rightarrow> bool" where
  "sees_only g R \<longleftrightarrow> (\<forall>m v v'. g v = g v' \<longrightarrow> g (R m v) = g (R m v'))"

text \<open>Either something that carries no message is outstanding, or the transfer alone.\<close>

lemma shadows_cases:
  assumes "shadows g k k'" and "pending k \<noteq> []"
  shows "(\<exists>j < length (pending k). is_control (pending k ! j)) \<or>
    (\<exists>x. pending k = [x] \<and> is_transfer x \<and> pending k' = [x])"
proof (cases "\<exists>j < length (pending k). is_control (pending k ! j)")
  case False
  with assms(1) have "list_all is_transfer (pending k)" by (auto simp: shadows_def list_all_length)
  then have "pending k' = pending k" using assms(1) by (simp add: shadows_def list_all_iff filter_id_conv)
  moreover have "length (pending k') \<le> 1" using assms(1) by (simp add: shadows_def)
  ultimately show ?thesis using assms(2) \<open>list_all is_transfer (pending k)\<close>
    by (cases "pending k") auto
qed simp

text \<open>A successful transfer does the same beside a shutdown as without one.\<close>

definition alike :: "('v \<Rightarrow> 'y) \<Rightarrow> 'v session_st \<Rightarrow> 'v session_st \<Rightarrow> bool" where
  "alike g k k' \<longleftrightarrow> read_buffer k = read_buffer k' \<and> write_buffer k = write_buffer k' \<and> g (world k) = g (world k')"

definition one_more :: "('v \<Rightarrow> 'y) \<Rightarrow> async_op list \<Rightarrow> 'v session_st \<Rightarrow> 'v session_st result \<Rightarrow> bool" where
  "one_more g xs t r \<longleftrightarrow> (\<exists>t'. r = Inr t' \<and> pending t = xs @ pending t' \<and>
     length (pending t') \<le> 1 \<and> list_all is_transfer (pending t') \<and> alike g t t')"

lemma header_written_shadow:
  "client_on_write_header A k = Inr t \<Longrightarrow> pending k' = [] \<Longrightarrow> alike g k k' \<Longrightarrow>
   one_more g (pending k) t (client_on_write_header A k')"
  by (auto simp: client_on_write_header_def Let_def bind_result_conv one_more_def alike_def do_defs)

lemma content_written_shadow:
  "client_on_write_content A k = Inr t \<Longrightarrow> pending k' = [] \<Longrightarrow> alike g k k' \<Longrightarrow>
   one_more g (pending k) t (client_on_write_content A k')"
  by (auto simp: client_on_write_content_def Let_def one_more_def alike_def do_defs)

lemma header_read_shadow:
  "client_on_read_header A k = Inr t \<Longrightarrow> pending k' = [] \<Longrightarrow> alike g k k' \<Longrightarrow>
   one_more g (pending k) t (client_on_read_header A k')"
  by (auto simp: client_on_read_header_def Let_def bind_result_conv one_more_def alike_def do_defs)

lemma sees_onlyD: "sees_only g R \<Longrightarrow> g v = g v' \<Longrightarrow> g (R m v) = g (R m v')"
  unfolding sees_only_def by blast

lemma content_read_shadow:
  "client_on_read_content A R k = Inr t \<Longrightarrow> pending k' = [] \<Longrightarrow> alike g k k' \<Longrightarrow> sees_only g R \<Longrightarrow>
   one_more g (pending k) t (client_on_read_content A R k')"
  by (auto simp: client_on_read_content_def Let_def one_more_def alike_def intro: sees_onlyD)

lemma complete_shadow:
  assumes "complete A (client_session A R) x Success k = Inr t" and "is_transfer x"
    and "pending k' = []" and "alike g k k'" and "sees_only g R"
  shows "one_more g (pending k) t (complete A (client_session A R) x Success k')"
  using assms
  by (cases x) (simp_all add: client_completed_defs header_written_shadow content_written_shadow
      header_read_shadow content_read_shadow)

lemma shadow_transfer:
  assumes "shadows g k k'" and j: "j < length (pending k)" and x: "pending k ! j = x" "is_transfer x"
    and step: "deliver A (client_session A R) j Success d k = Inr t" and R: "sees_only g R"
  obtains t' where "pending k' = [x]" and "deliver A (client_session A R) 0 Success d k' = Inr t'" and "shadows g t t'"
proof -
  have p: "pending k' = [x]" "filter is_transfer (without j (pending k)) = []"
    using assms(1) filter_without_single [OF j, of is_transfer] x by (simp_all add: shadows_def)
  let ?k = "store_read x d (k\<lparr>pending := without j (pending k)\<rparr>)" and ?k' = "store_read x d (k'\<lparr>pending := []\<rparr>)"
  have "alike g ?k ?k'" using assms(1) by (cases x) (simp_all add: shadows_def alike_def)
  moreover have "complete A (client_session A R) x Success ?k = Inr t" using step by (simp add: deliver_at [OF j] x)
  ultimately have "one_more g (pending ?k) t (complete A (client_session A R) x Success ?k')"
    by (intro complete_shadow [OF _ x(2) _ _ R]) simp_all
  then obtain t' where t': "complete A (client_session A R) x Success ?k' = Inr t'"
    "pending t = without j (pending k) @ pending t'" "length (pending t') \<le> 1" "list_all is_transfer (pending t')"
    "alike g t t'"
    by (auto simp: one_more_def)
  have "filter is_transfer (pending t') = pending t'" using t'(4) by (simp add: list_all_iff filter_id_conv)
  moreover have "list_all (\<lambda>x. is_transfer x \<or> is_control x) (without j (pending k))"
    using assms(1) by (intro list_all_without) (simp add: shadows_def)
  ultimately have "shadows g t t'" using t' p(2) by (auto simp: shadows_def alike_def list_all_iff)
  with t'(1) p(1) show thesis by (intro that) (simp_all add: deliver_single)
qed

text \<open>A failed one leaves nothing but control operations.\<close>

lemma failed_control:
  assumes "shadows g k k'" and j: "j < length (pending k)" and x: "pending k ! j = x" "is_transfer x"
    and ec: "ec \<noteq> Success" and keep: "socket_calls_keep A g"
    and step: "deliver A (client_session A R) j ec d k = Inr t"
  shows "only_control t \<and> g (world t) = g (world k)"
proof -
  let ?k = "store_read x d (k\<lparr>pending := without j (pending k)\<rparr>)"
  have c: "complete A (client_session A R) x ec ?k = Inr t" using step by (simp add: deliver_at [OF j] x)
  have "filter is_transfer (without j (pending k)) = []"
    using assms(1) filter_without_single [OF j, of is_transfer] x by (simp add: shadows_def)
  moreover have "list_all (\<lambda>x. is_transfer x \<or> is_control x) (without j (pending k))"
    using assms(1) by (intro list_all_without) (simp add: shadows_def)
  ultimately have o: "list_all is_control (pending ?k)"
    by (auto simp: list_all_iff filter_empty_conv)
  show ?thesis
  proof (cases "ec = Operation_Aborted")
    case True
    with c x(2) o show ?thesis by (auto simp: complete_aborted only_control_def)
  next
    case False
    obtain s1 where "complete A (client_session A R) x ec ?k = Inr (stop A s1)" "pending s1 = pending ?k"
      "world s1 = world ?k"
      by (rule complete_failed [OF x(2) ec False, of A "client_session A R" ?k])
    with c o show ?thesis by (auto simp: only_control_def socket_calls_keepD [OF keep])
  qed
qed

lemma client_close_alike:
  assumes "do_close_socket A (client_on_close_socket A) s = Inr t" and "socket_calls_keep A g"
  shows "pending t = pending s \<and> alike g t s"
proof -
  obtain ec w where "socket_close A (socket s) (world s) = (ec, w)" by fastforce
  moreover from this have "g w = g (world s)" using socket_calls_keepD(2) [OF assms(2)] by (metis snd_conv)
  ultimately show ?thesis
    using assms(1) by (auto simp: do_close_socket_def client_on_close_socket_def alike_def Let_def split: if_splits)
qed

lemma control_completed:
  assumes "deliver A (client_session A R) j ec [] k = Inr t" and "j < length (pending k)"
    and "is_control (pending k ! j)" and "socket_calls_keep A g"
  shows "pending t = without j (pending k) \<and> alike g t k"
proof -
  let ?k = "k\<lparr>pending := without j (pending k)\<rparr>"
  have "(\<exists>s. do_close_socket A (client_on_close_socket A) s = Inr t \<and> pending s = pending ?k \<and> alike g s ?k) \<or>
      pending t = pending ?k \<and> alike g t ?k"
    using assms(3)
  proof (cases rule: is_control.elims(2))
    case 1
    with assms(1) show ?thesis
      by (auto simp: deliver_at [OF assms(2)] client_completed_defs client_on_shutdown_secure_stream_def alike_def
          split: if_splits)
  next
    case 2
    with assms(1) show ?thesis
      by (auto simp: deliver_at [OF assms(2)] client_completed_defs client_on_secure_handshake_def alike_def
          split: if_splits)
  qed
  then show ?thesis
  proof (elim disjE exE conjE)
    fix s assume "do_close_socket A (client_on_close_socket A) s = Inr t" and "pending s = pending ?k" "alike g s ?k"
    with client_close_alike [OF this(1) assms(4)] show ?thesis by (simp add: alike_def)
  qed (simp add: alike_def)
qed

lemma control_total:
  assumes "j < length (pending k)" and "is_control (pending k ! j)"
  obtains t where "deliver A (client_session A R) j ec [] k = Inr t"
proof -
  have "\<exists>t. do_close_socket A (client_on_close_socket A) s = Inr t" for s
    by (simp add: do_close_socket_def client_on_close_socket_def Let_def split: prod.splits)
  with assms(2) have "\<exists>t. deliver A (client_session A R) j ec [] k = Inr t"
    by (cases rule: is_control.elims(2))
      (simp_all add: deliver_at [OF assms(1)] client_completed_defs client_on_shutdown_secure_stream_def
        client_on_secure_handshake_def)
  with that show thesis by blast
qed

subsection \<open>Simulation by a connection whose client is not stopped\<close>

text \<open>
  While the client of \<open>m\<close> is up, the one of \<open>l\<close> shadows it; after its failure only control operations are left
  at the one of \<open>l\<close>. Everything else is the same.
\<close>

definition tracks :: "('v \<Rightarrow> 'y) \<Rightarrow> ('v, 'w) lossy \<Rightarrow> ('v, 'w) lossy \<Rightarrow> bool" where
  "tracks g l m \<longleftrightarrow>
     server_end (net m) = server_end (net l) \<and> to_server (net m) = to_server (net l) \<and>
     to_client (net m) = to_client (net l) \<and> asked (net m) = asked (net l) \<and>
     (client_up l \<longrightarrow> client_up m) \<and>
     (if client_up m then shadows g (client_end (net l)) (client_end (net m))
      else only_control (client_end (net l)) \<and> g (world (client_end (net l))) = g (world (client_end (net m))))"

lemma tracks_start: "lossy_start l \<Longrightarrow> tracks g l l"
  by (simp add: tracks_def lossy_start_def link_start_def shadows_idle)

lemma tracksD:
  assumes "tracks g l m"
  shows "server_end (net m) = server_end (net l)" and "to_server (net m) = to_server (net l)"
    and "to_client (net m) = to_client (net l)" and "asked (net m) = asked (net l)"
    and "g (world (client_end (net l))) = g (world (client_end (net m)))"
  using assms by (auto simp: tracks_def shadows_def split: if_splits)

lemma transfer_up:
  assumes "tracks g l m" and "j < length (pending (client_end (net l)))"
    and "is_transfer (pending (client_end (net l)) ! j)"
  shows "client_up m" and "shadows g (client_end (net l)) (client_end (net m))"
proof -
  have "\<not> only_control (client_end (net l))"
    using assms(2,3) control_no_transfer by (auto simp: only_control_def list_all_length)
  with assms(1) show "client_up m" "shadows g (client_end (net l)) (client_end (net m))"
    by (auto simp: tracks_def split: if_splits)
qed

lemma write_transfer: "is_write x \<Longrightarrow> is_transfer x" and read_transfer: "read_size x = Some n \<Longrightarrow> is_transfer x"
  by (auto simp: transfer_cases)

lemma client_writes_tracked:
  assumes t: "tracks g l m" and R: "sees_only g R"
    and j: "j < length (pending (client_end (net l)))" and x: "pending (client_end (net l)) ! j = x" "is_write x"
    and step: "deliver A (client_session A R) j Success [] (client_end (net l)) = Inr k"
  shows "\<exists>m'. lossy_step A R B H m m' \<and>
    tracks g (l\<lparr>net := (net l)\<lparr>client_end := k, to_server := to_server (net l) @ op_bytes x\<rparr>\<rparr>) m'"
proof -
  have tr: "is_transfer x" using x(2) by (rule write_transfer)
  note up = transfer_up [OF t j, unfolded x(1), OF tr]
  obtain k' where k': "pending (client_end (net m)) = [x]"
    "deliver A (client_session A R) 0 Success [] (client_end (net m)) = Inr k'" "shadows g k k'"
    by (rule shadow_transfer [OF up(2) j x(1) tr step R])
  have "lossy_step A R B H m (m\<lparr>net := (net m)\<lparr>client_end := k', to_server := to_server (net m) @ op_bytes x\<rparr>\<rparr>)"
    by (rule lossy_completion) (rule client_writes [OF k'(1) x(2) k'(2)])
  moreover have "tracks g (l\<lparr>net := (net l)\<lparr>client_end := k, to_server := to_server (net l) @ op_bytes x\<rparr>\<rparr>)
      (m\<lparr>net := (net m)\<lparr>client_end := k', to_server := to_server (net m) @ op_bytes x\<rparr>\<rparr>)"
    using t up(1) k'(3) by (simp add: tracks_def)
  ultimately show ?thesis by blast
qed

lemma client_reads_tracked:
  assumes t: "tracks g l m" and R: "sees_only g R"
    and j: "j < length (pending (client_end (net l)))" and x: "pending (client_end (net l)) ! j = x" "read_size x = Some n"
    and n: "n \<le> length (to_client (net l))"
    and step: "deliver A (client_session A R) j Success (take n (to_client (net l))) (client_end (net l)) = Inr k"
  shows "\<exists>m'. lossy_step A R B H m m' \<and>
    tracks g (l\<lparr>net := (net l)\<lparr>client_end := k, to_client := drop n (to_client (net l))\<rparr>\<rparr>) m'"
proof -
  have tr: "is_transfer x" using x(2) by (rule read_transfer)
  note up = transfer_up [OF t j, unfolded x(1), OF tr]
  obtain k' where k': "pending (client_end (net m)) = [x]"
    "deliver A (client_session A R) 0 Success (take n (to_client (net l))) (client_end (net m)) = Inr k'" "shadows g k k'"
    by (rule shadow_transfer [OF up(2) j x(1) tr step R])
  have "lossy_step A R B H m (m\<lparr>net := (net m)\<lparr>client_end := k', to_client := drop n (to_client (net m))\<rparr>\<rparr>)"
    using k' n tracksD(3) [OF t] by (intro lossy_completion client_reads [OF k'(1) x(2)]) simp_all
  moreover have "tracks g (l\<lparr>net := (net l)\<lparr>client_end := k, to_client := drop n (to_client (net l))\<rparr>\<rparr>)
      (m\<lparr>net := (net m)\<lparr>client_end := k', to_client := drop n (to_client (net m))\<rparr>\<rparr>)"
    using t up(1) k'(3) by (simp add: tracks_def)
  ultimately show ?thesis by blast
qed

lemma client_fails_tracked:
  fixes i :: nat
  assumes t: "tracks g l m" and keep: "socket_calls_keep A g"
    and j: "j < length (pending (client_end (net l)))" and x: "pending (client_end (net l)) ! j = x" "is_transfer x"
    and ec: "ec \<noteq> Success" "admissible x ec d"
    and step: "deliver A (client_session A R) j ec d (client_end (net l)) = Inr k"
  shows "\<exists>m'. lossy_step A R B H m m' \<and>
    tracks g (l\<lparr>net := (net l)\<lparr>client_end := k, to_server := to_server (net l) @ take i (op_bytes x)\<rparr>,
      client_up := False\<rparr>) m'"
proof -
  note up = transfer_up [OF t j, unfolded x(1), OF x(2)]
  have p: "pending (client_end (net m)) = [x]"
    using up(2) filter_without_single(1) [OF j, of is_transfer] x by (simp add: shadows_def)
  let ?s = "store_read x d (client_end (net m)\<lparr>pending := []\<rparr>)"
  obtain k' where "complete A (client_session A R) x ec ?s = Inr k'"
    using complete_aborted [of x A "client_session A R" ?s] complete_failed [OF x(2) ec(1), of A "client_session A R" ?s]
      x(2) by (cases "ec = Operation_Aborted") blast+
  then have k': "deliver A (client_session A R) 0 ec d (client_end (net m)) = Inr k'"
    using p by (simp add: deliver_single)
  have "lossy_step A R B H m (m\<lparr>net := (net m)\<lparr>client_end := k',
      to_server := to_server (net m) @ take i (op_bytes x)\<rparr>, client_up := False\<rparr>)"
    by (rule client_fails [OF p x(2) ec k'])
  moreover have "only_control k \<and> g (world k) = g (world k')"
    using failed_control [OF up(2) j x ec(1) keep step] failed_dead [OF p x(2) ec(1) keep k'] tracksD(5) [OF t] by simp
  then have "tracks g (l\<lparr>net := (net l)\<lparr>client_end := k, to_server := to_server (net l) @ take i (op_bytes x)\<rparr>,
      client_up := False\<rparr>) (m\<lparr>net := (net m)\<lparr>client_end := k',
      to_server := to_server (net m) @ take i (op_bytes x)\<rparr>, client_up := False\<rparr>)"
    using t tracksD(2) [OF t] by (simp add: tracks_def)
  ultimately show ?thesis by blast
qed

lemma client_ends_tracked:
  assumes t: "tracks g l m" and keep: "socket_calls_keep A g"
    and j: "j < length (pending (client_end (net l)))" and x: "\<not> is_transfer (pending (client_end (net l)) ! j)"
    and step: "deliver A (client_session A R) j ec [] (client_end (net l)) = Inr k"
  shows "tracks g (l\<lparr>net := (net l)\<lparr>client_end := k\<rparr>, client_up := client_up l \<and> b\<rparr>) m"
proof -
  have "is_control (pending (client_end (net l)) ! j)"
    using t j x by (auto simp: tracks_def shadows_def only_control_def list_all_length split: if_splits)
  from control_completed [OF step j this keep]
  have p: "pending k = without j (pending (client_end (net l)))" and like: "alike g k (client_end (net l))" by simp_all
  have "filter is_transfer (pending k) = filter is_transfer (pending (client_end (net l)))"
    using filter_without [OF j, of is_transfer] x by (simp add: p)
  moreover have "list_all P (pending k)" if "list_all P (pending (client_end (net l)))" for P
    using that unfolding p by (rule list_all_without)
  ultimately show ?thesis using t like by (auto simp: tracks_def shadows_def only_control_def alike_def)
qed

lemma stop_tracked:
  assumes "tracks g l m" and "socket_calls_keep A g"
  shows "tracks g (l\<lparr>net := (net l)\<lparr>client_end := stop A (client_end (net l))\<rparr>, client_up := False\<rparr>) m"
  using assms by (auto simp: tracks_def shadows_stop only_control_def socket_calls_keepD)

lemma send_tracked:
  assumes t: "tracks g l m" and "client_up l" and "pending (client_end (net l)) = []" and "fits (content_buffer c)"
  shows "\<exists>m'. lossy_step A R B H m m' \<and> tracks g (l\<lparr>net := link_send c (net l)\<rparr>) m'"
proof -
  have up: "client_up m" "shadows g (client_end (net l)) (client_end (net m))"
    using t assms(2) by (auto simp: tracks_def)
  then have "pending (client_end (net m)) = []" using assms(3) by (simp add: shadows_def)
  then have "lossy_step A R B H m (m\<lparr>net := link_send c (net m)\<rparr>)" using up(1) assms(4) by (intro lossy_send)
  moreover have "tracks g (l\<lparr>net := link_send c (net l)\<rparr>) (m\<lparr>net := link_send c (net m)\<rparr>)"
    using t up shadows_send [OF up(2) assms(3)] tracksD(4) [OF t] by (simp add: tracks_def link_send_def)
  ultimately show ?thesis by blast
qed

text \<open>Steps of the server do not concern the client.\<close>

lemma server_moved:
  assumes "tracks g l m"
  shows "tracks g (l\<lparr>net := (net l)\<lparr>server_end := s, to_client := t\<rparr>\<rparr>) (m\<lparr>net := (net m)\<lparr>server_end := s, to_client := t\<rparr>\<rparr>)"
    and "tracks g (l\<lparr>net := (net l)\<lparr>server_end := s, to_server := u\<rparr>\<rparr>) (m\<lparr>net := (net m)\<lparr>server_end := s, to_server := u\<rparr>\<rparr>)"
    and "tracks g (l\<lparr>net := (net l)\<lparr>server_end := s, to_client := t\<rparr>, server_up := b\<rparr>)
      (m\<lparr>net := (net m)\<lparr>server_end := s, to_client := t\<rparr>, server_up := b\<rparr>)"
    and "tracks g (l\<lparr>net := (net l)\<lparr>server_end := s\<rparr>, server_up := b\<rparr>) (m\<lparr>net := (net m)\<lparr>server_end := s\<rparr>\<rparr>)"
  using assms by (simp_all add: tracks_def)

lemma abrupt_step_tracked:
  assumes "abrupt_step A R B H l l'" and t: "tracks g l m"
    and "socket_calls_keep A g" and "sees_only g R"
  shows "\<exists>m'. (m' = m \<or> lossy_step A R B H m m') \<and> tracks g l' m'"
  using assms(1)
proof cases
  case (abrupt_send c)
  from send_tracked [OF t abrupt_send(2-4), where A = A and R = R and B = B and H = H]
  show ?thesis unfolding abrupt_send(1) by blast
next
  case abrupt_stop
  from stop_tracked [OF t assms(3)] show ?thesis unfolding abrupt_stop(1) by blast
next
  case (abrupt_client_writes j x k)
  from client_writes_tracked [OF t assms(4) abrupt_client_writes(2-5), where B = B and H = H]
  show ?thesis unfolding abrupt_client_writes(1) by blast
next
  case (abrupt_client_reads j x n k)
  from client_reads_tracked [OF t assms(4) abrupt_client_reads(2-6), where B = B and H = H]
  show ?thesis unfolding abrupt_client_reads(1) by blast
next
  case (abrupt_client_fails j x ec d k i)
  from client_fails_tracked [OF t assms(3) abrupt_client_fails(2-7), where B = B and H = H and i = i]
  show ?thesis unfolding abrupt_client_fails(1) by blast
next
  case (abrupt_client_ends j ec k)
  from client_ends_tracked [OF t assms(3) abrupt_client_ends(2-4)]
  show ?thesis unfolding abrupt_client_ends(1) by blast
next
  case (abrupt_server_writes x s)
  then have "lossy_step A R B H m (m\<lparr>net := (net m)\<lparr>server_end := s, to_client := to_client (net m) @ op_bytes x\<rparr>\<rparr>)"
    by (intro lossy_completion server_writes) (simp_all add: tracksD [OF t])
  with server_moved(1) [OF t, where s = s and t = "to_client (net m) @ op_bytes x"] abrupt_server_writes(1) tracksD(3) [OF t]
  show ?thesis by auto
next
  case (abrupt_server_reads x n s)
  then have "lossy_step A R B H m (m\<lparr>net := (net m)\<lparr>server_end := s, to_server := drop n (to_server (net m))\<rparr>\<rparr>)"
    by (intro lossy_completion server_reads) (simp_all add: tracksD [OF t])
  with server_moved(2) [OF t, where s = s and u = "drop n (to_server (net m))"] abrupt_server_reads(1) tracksD(2) [OF t]
  show ?thesis by auto
next
  case (abrupt_server_fails x ec d s i)
  then have "lossy_step A R B H m (m\<lparr>net := (net m)\<lparr>server_end := s,
      to_client := to_client (net m) @ take i (op_bytes x)\<rparr>, server_up := False\<rparr>)"
    by (intro server_fails) (simp_all add: tracksD [OF t])
  with server_moved(3) [OF t, where s = s and t = "to_client (net m) @ take i (op_bytes x)" and b = False] abrupt_server_fails(1) tracksD(3) [OF t]
  show ?thesis by auto
next
  case (abrupt_server_ends x ec s)
  then have "lossy_step A R B H m (m\<lparr>net := (net m)\<lparr>server_end := s\<rparr>\<rparr>)"
    by (intro server_ends) (simp_all add: tracksD [OF t])
  with server_moved(4) [OF t] abrupt_server_ends(1) show ?thesis by blast
qed

lemma abrupt_run_tracked:
  assumes "abrupt_run A R B H l0 l" and "lossy_start l0" and "socket_calls_keep A g" and "sees_only g R"
  shows "\<exists>m. lossy_run A R B H l0 m \<and> tracks g l m"
  using assms(1,2)
proof (induction rule: abrupt_run.induct)
  case (abrupt_refl l)
  then show ?case by (blast intro: lossy_refl tracks_start)
next
  case (abrupt_next l0 l k)
  then obtain m where "lossy_run A R B H l0 m" "tracks g l m" by blast
  with abrupt_step_tracked [OF abrupt_next.hyps(2) _ assms(3,4)] show ?case by (blast intro: lossy_next)
qed

end
