(* ===== verification/Client_Invariant.thy ===== *)
theory Client_Invariant
  imports Client_Session
begin

section \<open>The invariant of a client session and its only fault\<close>

text \<open>
  What the buffers of a client session hold while an operation is outstanding, in every state it
  reaches when its owner calls \<open>send\<close> and \<open>stop\<close> on a quiet session, and the one completion on
  which such a session faults.
\<close>

subsection \<open>The invariant\<close>

fun client_pending_ok :: "'w session_st \<Rightarrow> async_op list \<Rightarrow> bool" where
  "client_pending_ok s [] \<longleftrightarrow> True"
| "client_pending_ok s [Op_Handshake Handshake_Client] \<longleftrightarrow> True"
| "client_pending_ok s [Op_Write_Header bs] \<longleftrightarrow>
     framed (write_buffer s) \<and> bs = header_buffer (write_buffer s)"
| "client_pending_ok s [Op_Write_Content bs] \<longleftrightarrow>
     framed (write_buffer s) \<and> bs = content_buffer (write_buffer s)"
| "client_pending_ok s [Op_Read_Header n] \<longleftrightarrow>
     n = default_header_length \<and> length (header_buffer (read_buffer s)) = n"
| "client_pending_ok s [Op_Read_Content n] \<longleftrightarrow>
     n = length (content_buffer (read_buffer s)) \<and> n < 10 ^ 10 \<and>
     get_header_buffer_content_length (read_buffer s) = Inr (of_nat n)"
| "client_pending_ok s [Op_Shutdown] \<longleftrightarrow> True"
| "client_pending_ok s _ \<longleftrightarrow> False"

definition client_inv :: "'w session_st \<Rightarrow> bool" where
  "client_inv s \<longleftrightarrow> client_pending_ok s (pending s)"

lemma client_inv_idle [intro]: "pending s = [] \<Longrightarrow> client_inv s"
  by (simp add: client_inv_def)

lemma client_inv_start: "pending s = [] \<Longrightarrow> client_inv (client_start s)"
  by (simp add: client_inv_def client_start_def do_defs)

lemma client_inv_send: "pending s = [] \<Longrightarrow> client_inv (client_session_send m s)"
  by (simp add: client_inv_def client_session_send_def do_defs Let_def)

lemma client_inv_stop: "pending s = [] \<Longrightarrow> client_inv (stop A s)"
  by (simp add: client_inv_def)

lemma client_inv_single:
  assumes "client_inv s" and "i < length (pending s)"
  obtains x where "pending s = [x]" and "i = 0"
  using assms by (cases "(s, pending s)" rule: client_pending_ok.cases) (auto simp: client_inv_def)

lemma client_on_write_header_inv:
  assumes "client_on_write_header A s = Inr s'" and "pending s = []" and "framed (write_buffer s)"
  shows "client_inv s'"
  using assms
  by (auto simp: client_on_write_header_def Let_def client_inv_def do_defs
      prepare_content_write_framed)

lemma client_on_write_content_inv:
  "client_on_write_content A s = Inr s' \<Longrightarrow> pending s = [] \<Longrightarrow> client_inv s'"
  by (auto simp: client_on_write_content_def Let_def client_inv_def do_defs)

lemma client_on_read_header_inv:
  assumes "client_on_read_header A s = Inr s'" and "pending s = []"
    and "length (header_buffer (read_buffer s)) = 28"
  shows "client_inv s'"
proof -
  from assms(1) obtain m where m: "prepare_content_buffer_read (read_buffer s) = Inr m"
    and s': "s' = do_read_content (with_read (\<lambda>_. m)
                    (debug A ''CLIENT | read response header OK'' [] s))"
    by (auto simp: client_on_read_header_def Let_def bind_result_conv)
  from prepare_content_read_sized [OF m assms(3)] show ?thesis
    using assms(2) by (simp add: s' client_inv_def do_defs)
qed

lemma client_close_inv:
  "do_close_socket A (client_on_close_socket A) s = Inr s' \<Longrightarrow> pending s = [] \<Longrightarrow> client_inv s'"
  by (rule client_inv_idle) (simp add: client_close.close_pending)

lemma client_deliver_inv:
  assumes step: "deliver A (client_session A R) i ec d s = Inr s'"
    and i: "i < length (pending s)" and ok: "admissible (pending s ! i) ec d" and inv: "client_inv s"
  shows "client_inv s'"
proof -
  obtain x where x: "pending s = [x]" and 0: "i = 0" using inv i by (rule client_inv_single)
  let ?s = "store_read x d (s\<lparr>pending := []\<rparr>)"
  have step': "complete A (client_session A R) x ec ?s = Inr s'"
    using step by (simp add: 0 deliver_single [OF x])
  have idle: "pending ?s = []" by simp
  show ?thesis
  proof (cases x)
    case (Op_Handshake t)
    with step' idle show ?thesis
      by (auto simp: client_completed_defs client_on_secure_handshake_def
          intro: client_close_inv split: if_splits)
  next
    case (Op_Write_Header bs)
    with inv x have "framed (write_buffer ?s)" by (simp add: client_inv_def)
    with step' idle Op_Write_Header show ?thesis
      by (auto simp: client_completed_defs intro: client_on_write_header_inv client_inv_stop
          split: if_splits)
  next
    case (Op_Write_Content bs)
    with step' idle show ?thesis
      by (auto simp: client_completed_defs intro: client_on_write_content_inv client_inv_stop
          split: if_splits)
  next
    case (Op_Read_Header n)
    with inv ok x 0 have "length (header_buffer (read_buffer ?s)) = 28"
      by (simp add: client_inv_def length_overlay)
    with step' idle Op_Read_Header show ?thesis
      by (auto simp: client_completed_defs simp del: store_read.simps
          intro: client_on_read_header_inv client_inv_stop split: if_splits)
  next
    case (Op_Read_Content n)
    with step' idle show ?thesis
      by (auto simp: client_completed_defs client_on_read_content_def Let_def
          simp del: store_read.simps intro: client_inv_stop split: if_splits)
  next
    case Op_Shutdown
    with step' idle show ?thesis
      by (auto simp: client_completed_defs client_on_shutdown_secure_stream_def
          intro: client_close_inv split: if_splits)
  qed (use inv x in \<open>simp_all add: client_inv_def\<close>)
qed

interpretation client_invariant: session_invariant A "client_session A R" client_inv for A R
  by unfold_locales (rule client_deliver_inv)

lemma client_reach_inv: "client_reach A R s t \<Longrightarrow> client_inv t"
  by (induction rule: client_reach.induct)
    (auto intro: client_inv_start client_inv_send client_inv_stop client_invariant.step_keeps)

subsection \<open>The only fault\<close>

declare client_close.close_no_fault [simp]

lemma client_fault_header:
  assumes step: "deliver A (client_session A R) i ec d s = Inl e" and inv: "client_inv s"
    and i: "i < length (pending s)" and ok: "admissible (pending s ! i) ec d"
  shows "ec = Success \<and> pending s = [Op_Read_Header 28] \<and> length d = 28 \<and>
         prepare_content_buffer_read (read_buffer s\<lparr>header_buffer := d\<rparr>) = Inl e"
proof -
  obtain x where x: "pending s = [x]" and 0: "i = 0" using inv i by (rule client_inv_single)
  have step': "complete A (client_session A R) x ec (store_read x d (s\<lparr>pending := []\<rparr>)) = Inl e"
    using step by (simp add: 0 deliver_single [OF x])
  show ?thesis
  proof (cases x)
    case (Op_Read_Header n)
    with inv x have n: "n = 28" "length (header_buffer (read_buffer s)) = 28"
      by (simp_all add: client_inv_def)
    with step' Op_Read_Header have ec: "ec = Success"
      by (auto simp: client_completed_defs split: if_splits)
    with ok x 0 Op_Read_Header n have "length d = 28" by simp
    with step' ec n x Op_Read_Header show ?thesis
      by (auto simp: client_completed_defs client_on_read_header_def Let_def overlay_full
          bind_result_conv)
  next
    case (Op_Write_Header bs)
    with inv x have "framed (write_buffer s)" by (simp add: client_inv_def)
    with step' Op_Write_Header show ?thesis
      by (auto simp: client_completed_defs client_on_write_header_def Let_def
          prepare_content_write_framed split: if_splits)
  next
    case Op_Shutdown
    with step' show ?thesis
      by (auto simp: client_completed_defs client_on_shutdown_secure_stream_def split: if_splits)
  qed (use step' inv x in \<open>auto simp: client_completed_defs client_on_secure_handshake_def
      client_on_read_content_def client_on_write_content_def client_inv_def Let_def split: if_splits\<close>)
qed

end
