(* ===== verification/Sample.thy ===== *)
theory Sample
  imports Files
begin

section \<open>A small concrete host\<close>

text \<open>
  An instance of the parameter \<open>asio\<close>, for evaluating the model on concrete inputs: a host with a
  disk, the handles that are open, the next free handle and the ports another service has bound.
  Every call succeeds except \<open>bind\<close> to a bound port; one address parses. It satisfies the named
  predicates of \<open>Asio\<close>.
\<close>

record tiny = host +
  opened :: "handle list"
  fresh :: handle
  bound :: "16 word list"

definition tiny_close :: "handle \<Rightarrow> tiny \<Rightarrow> error_code \<times> tiny" where
  "tiny_close h w = (Success, w\<lparr>opened := removeAll h (opened w)\<rparr>)"

definition tiny_asio :: "tiny asio" where
  "tiny_asio =
     \<lparr>ec_message = (\<lambda>ec. ''error''),
      local_time = (\<lambda>w. ''now''),
      socket_cancel = (\<lambda>h w. (Success, w)),
      socket_close = tiny_close,
      socket_is_open = (\<lambda>h w. h \<in> set (opened w)),
      timer_expires_from_now = (\<lambda>h ms w. (0, w)),
      acceptor_create = (\<lambda>w. (fresh w, w\<lparr>fresh := Suc (fresh w)\<rparr>)),
      acceptor_open = (\<lambda>h p w. (Success, w\<lparr>opened := h # opened w\<rparr>)),
      acceptor_reuse_address = (\<lambda>h b w. (Success, w)),
      acceptor_bind = (\<lambda>h e w. (if ep_port e \<in> set (bound w) then Address_In_Use else Success, w)),
      acceptor_listen = (\<lambda>h w. (Success, w)),
      acceptor_close = tiny_close,
      acceptor_is_open = (\<lambda>h w. h \<in> set (opened w)),
      address_from_string =
        (\<lambda>a. if a = ''127.0.0.1'' then (Success, V4 0x7F000001) else (Other_Error 22, V4 0)),
      address_to_string = (\<lambda>a. ''127.0.0.1''),
      host_name = (\<lambda>w. Inr ''host''),
      resolve = (\<lambda>h p w. Inr [])\<rparr>"

definition tiny_world :: tiny where
  "tiny_world =
     \<lparr>disk = [''a.txt'' \<mapsto> Regular ''hello'', ''/dev/tty'' \<mapsto> Unseekable], writable = (\<lambda>p. True),
      screen = [], opened = [], fresh = 1, bound = [80]\<rparr>"

definition local_endpoint :: "16 word \<Rightarrow> endpoint" where
  "local_endpoint p = \<lparr>ep_address = V4 0x7F000001, ep_port = p\<rparr>"

text \<open>A host on which one socket is open.\<close>

definition open_world :: "handle \<Rightarrow> tiny" where
  "open_world h = tiny_world\<lparr>opened := [h]\<rparr>"

lemma tiny_calls [simp]:
  "socket_cancel tiny_asio h w = (Success, w)"
  "socket_close tiny_asio h w = tiny_close h w"
  "socket_is_open tiny_asio h w \<longleftrightarrow> h \<in> set (opened w)"
  "timer_expires_from_now tiny_asio h ms w = (0, w)"
  "acceptor_create tiny_asio w = (fresh w, w\<lparr>fresh := Suc (fresh w)\<rparr>)"
  "acceptor_open tiny_asio h p w = (Success, w\<lparr>opened := h # opened w\<rparr>)"
  "acceptor_reuse_address tiny_asio h b w = (Success, w)"
  "acceptor_bind tiny_asio h e w = (if ep_port e \<in> set (bound w) then Address_In_Use else Success, w)"
  "acceptor_listen tiny_asio h w = (Success, w)"
  "acceptor_close tiny_asio h w = tiny_close h w"
  "acceptor_is_open tiny_asio h w \<longleftrightarrow> h \<in> set (opened w)"
  "address_from_string tiny_asio ''127.0.0.1'' = (Success, V4 0x7F000001)"
  by (simp_all add: tiny_asio_def)

lemma tiny_world_fields [simp]:
  "disk tiny_world = [''a.txt'' \<mapsto> Regular ''hello'', ''/dev/tty'' \<mapsto> Unseekable]"
  "writable tiny_world p" "opened tiny_world = []" "fresh tiny_world = 1" "bound tiny_world = [80]"
  by (simp_all add: tiny_world_def)

lemma local_endpoint_fields [simp]:
  "ep_address (local_endpoint p) = V4 0x7F000001" "ep_port (local_endpoint p) = p"
  by (simp_all add: local_endpoint_def)

lemma tiny_acceptor_laws: "acceptor_laws tiny_asio"
  by (auto simp: acceptor_laws_def tiny_close_def)

lemma tiny_close_again: "close_again tiny_asio"
  by (simp add: close_again_def tiny_close_def)

lemma tiny_close_closes: "close_closes tiny_asio"
  by (auto simp: close_closes_def tiny_close_def)

end
