(* ===== verification/Sample_Session.thy ===== *)
theory Sample_Session
  imports Client_Transaction Client_Invariant Sample
begin

section \<open>A concrete session\<close>

text \<open>A session whose handshake has succeeded, for the concrete instances.\<close>

definition sample_session :: "tiny session_st" where
  "sample_session = do_read_header (new_session 5 (open_world 5))"

lemma sample_session_fields [simp]:
  "pending sample_session = [Op_Read_Header 28]" "read_buffer sample_session = new_message"
  "write_buffer sample_session = new_message" "socket sample_session = 5"
  "world sample_session = open_world 5"
  by (simp_all add: sample_session_def do_read_header_def new_session_def issue_def new_message_def)

lemma ready_sample [simp]: "ready sample_session"
  by (simp add: ready_def new_message_def)

end
