(* ===== verification/Link_Properties.thy ===== *)
theory Link_Properties
  imports Stopped_Link Sample_Session
begin

section \<open>Properties of a connection\<close>

text \<open>
  The statements about a client session and a server session that share a connection, under every
  interleaving of their completions, without failures and with failures at any time.
\<close>

text \<open>A concrete connection, and a run of it: the message is sent and its header written.\<close>

definition sample_link :: "(tiny, tiny) link" where
  "sample_link =
     \<lparr>client_end = new_session 6 (open_world 6), server_end = sample_session, to_server = [],
      to_client = [], asked = []\<rparr>"

lemma sample_link_start: "link_start sample_link"
  by (simp add: link_start_def sample_link_def new_session_def)

lemma echo_fits:
  "fits (content_buffer q) \<Longrightarrow> fits (content_buffer (fst (handle_request q r (w :: 'w))))"
  by (simp add: content_handle_request)

text \<open>C3: The connection implements the abstract conversation: under every interleaving of the
  completions of the two ends, whenever the client is quiet the server's world is the one its handler
  has produced from all the requests asked, the client's world is the one its handler has produced
  from all the answers, each handled once and in order, and no byte is left in the channels.\<close>

theorem link_conversation:
  assumes "\<And>q r w. fits (content_buffer q) \<Longrightarrow> fits (content_buffer (fst (H q r w)))"
    and "link_start l0" and "link_run A R B H l0 n l" and "pending (client_end l) = []"
  shows "conversation H R (write_buffer (server_end l0)) (world (server_end l0)) (world (client_end l0)) (asked l) =
      (world (server_end l), world (client_end l)) \<and> to_server l = [] \<and> to_client l = []"
proof -
  have "fitting_handler H" by unfold_locales (rule assms(1))
  from fitting_handler.link_run_inv [OF this assms(3,2)] assms(4)
  have "link_idle R H (write_buffer (server_end l0)) (world (server_end l0)) (world (client_end l0)) n l"
    by (auto simp: link_busy_def dest: asking_busy)
  then show ?thesis by (auto simp: link_idle_def waiting_def)
qed

lemma sample_sends:
  "link_run tiny_asio (handle_response []) tiny_asio handle_request sample_link 0
    (link_send (message_of ''hi'') sample_link)"
  by (rule link_sends [OF link_refl]) (simp_all add: sample_link_def new_session_def fits_def)

lemma link_conversation_witness:
  "\<exists>l :: (tiny, tiny) link. asked l = [''hi''] \<and>
    conversation handle_request (handle_response []) (write_buffer (server_end sample_link))
      (world (server_end sample_link)) (world (client_end sample_link)) (asked l) =
    (world (server_end l), world (client_end l)) \<and> to_server l = [] \<and> to_client l = []"
proof -
  obtain n l where l: "link_run tiny_asio (handle_response []) tiny_asio handle_request sample_link n l"
    "asked l = asked (link_send (message_of ''hi'') sample_link)" "pending (client_end l) = []"
    using echo_handler.link_settles [OF sample_sends sample_link_start] by blast
  have "conversation handle_request (handle_response []) (write_buffer (server_end sample_link))
      (world (server_end sample_link)) (world (client_end sample_link)) (asked l) =
    (world (server_end l), world (client_end l)) \<and> to_server l = [] \<and> to_client l = []"
    by (rule link_conversation [OF echo_fits sample_link_start l(1,3)])
  moreover have "asked l = [''hi'']" using l(2) by (simp add: link_send_def sample_link_def)
  ultimately show ?thesis by blast
qed

text \<open>C9: The connection cannot get stuck and cannot go on for ever: while the client waits for its
  answer some completion of one of the ends is possible, after any number of sends there have been
  at most eight completions for each, four at either end, and when no completion is possible any
  more all of them have taken place, the client is quiet and the server waits for a request.\<close>

theorem link_live:
  assumes "\<And>q r w. fits (content_buffer q) \<Longrightarrow> fits (content_buffer (fst (H q r w)))"
    and "link_start l0" and "link_run A R B H l0 n l"
  shows "n \<le> 8 * length (asked l) \<and>
    (pending (client_end l) \<noteq> [] \<longrightarrow> (\<exists>l'. link_completion A R B H l l')) \<and>
    ((\<nexists>l'. link_completion A R B H l l') \<longrightarrow>
      pending (client_end l) = [] \<and> ready (server_end l) \<and> n = 8 * length (asked l))"
proof -
  let ?out = "write_buffer (server_end l0)" and ?w = "world (server_end l0)" and ?v = "world (client_end l0)"
  have "fitting_handler H" by unfold_locales (rule assms(1))
  from fitting_handler.link_run_inv [OF this assms(3,2)]
  show ?thesis
  proof
    assume idle: "link_idle R H ?out ?w ?v n l"
    then have "n \<le> 8 * length (asked l)" "pending (client_end l) = []" by (auto simp: link_idle_def)
    with idle_progress [OF idle, of A B] show ?thesis by blast
  next
    assume busy: "link_busy R H ?out ?w ?v n l"
    then have "n \<le> 8 * length (asked l)" by (auto simp: link_busy_def)
    with busy_progress [OF busy, of A B] show ?thesis by blast
  qed
qed

lemma link_live_witness:
  "\<exists>l'. link_completion tiny_asio (handle_response []) tiny_asio handle_request
    (link_send (message_of ''hi'') sample_link) l'"
proof -
  have "pending (client_end (link_send (message_of ''hi'') sample_link)) \<noteq> []"
    by (simp add: link_send_def client_session_send_def do_defs Let_def)
  with link_live [where H = handle_request, OF echo_fits sample_link_start sample_sends] show ?thesis by blast
qed

subsection \<open>Failures\<close>

text \<open>However the connection fails, at either end, at any time, with any error codes, after any part of
  the bytes in transit, the server's handler has been called on exactly the first \<open>i\<close> of the requests
  asked and the client's handler on exactly the answers to the first \<open>j\<close> of them, each once, in order
  and with the right contents, where \<open>j\<close> is \<open>i\<close> or \<open>i - 1\<close>: no message is ever cut, mixed up, repeated or
  invented. The only hypothesis on the library is that cancelling and closing sockets do not touch
  what the handlers keep in the world.\<close>

theorem lossy_at_most_once:
  assumes "\<And>q r w. fits (content_buffer q) \<Longrightarrow> fits (content_buffer (fst (H q r w)))"
    and "lossy_start l0" and "lossy_run A R B H l0 l"
    and "socket_calls_keep A g" and "socket_calls_keep B f"
  shows "\<exists>i j. j \<le> i \<and> i \<le> Suc j \<and> i \<le> length (asked (net l)) \<and>
    f (world (server_end (net l))) =
      f (fst (conversation H R (write_buffer (server_end (net l0))) (world (server_end (net l0)))
                (world (client_end (net l0))) (take i (asked (net l))))) \<and>
    g (world (client_end (net l))) =
      g (snd (conversation H R (write_buffer (server_end (net l0))) (world (server_end (net l0)))
                (world (client_end (net l0))) (take j (asked (net l)))))"
proof -
  have "fitting_handler H" by unfold_locales (rule assms(1))
  from lossy_ok_worlds [OF fitting_handler.lossy_run_ok [OF this assms(3,2,4,5)]]
  show ?thesis by (simp add: conv_at_def)
qed

definition sample_lossy :: "(tiny, tiny) lossy" where
  "sample_lossy = \<lparr>net = sample_link, client_up = True, server_up = True\<rparr>"

lemma tiny_keeps: "socket_calls_keep tiny_asio (\<lambda>w. (disk w, screen w))"
  by (simp add: socket_calls_keep_def tiny_close_def)

lemma lossy_at_most_once_witness:
  "\<exists>l :: (tiny, tiny) lossy. \<not> client_up l \<and> asked (net l) = [''hi''] \<and>
    (\<exists>i j. j \<le> i \<and> i \<le> Suc j \<and> i \<le> length (asked (net l)) \<and>
      (disk (world (server_end (net l))), screen (world (server_end (net l)))) =
        (let w = fst (conversation handle_request (handle_response []) (write_buffer (server_end (net sample_lossy)))
                   (world (server_end (net sample_lossy))) (world (client_end (net sample_lossy)))
                   (take i (asked (net l))))
         in (disk w, screen w)) \<and>
      (disk (world (client_end (net l))), screen (world (client_end (net l)))) =
        (let v = snd (conversation handle_request (handle_response []) (write_buffer (server_end (net sample_lossy)))
                   (world (server_end (net sample_lossy))) (world (client_end (net sample_lossy)))
                   (take j (asked (net l))))
         in (disk v, screen v)))"
proof -
  let ?V = "client_session tiny_asio (handle_response [])"
  let ?l1 = "sample_lossy\<lparr>net := link_send (message_of ''hi'') (net sample_lossy)\<rparr>"
  have start: "lossy_start sample_lossy" by (simp add: lossy_start_def sample_lossy_def sample_link_start)
  have s1: "lossy_step tiny_asio (handle_response []) tiny_asio handle_request sample_lossy ?l1"
    by (rule lossy_send) (simp_all add: sample_lossy_def sample_link_def new_session_def fits_def)
  have p: "pending (client_end (net ?l1)) = [Op_Write_Header (header_buffer (message_of ''hi''))]"
    by (simp add: sample_lossy_def sample_link_def link_send_def client_session_send_def do_defs Let_def
        new_session_def header_prepare_write)
  obtain k where k: "deliver tiny_asio ?V 0 Eof [] (client_end (net ?l1)) = Inr k"
    using p by (simp add: deliver_single client_completed_defs)
  let ?l2 = "?l1\<lparr>net := net ?l1\<lparr>client_end := k,
      to_server := to_server (net ?l1) @ take 3 (op_bytes (Op_Write_Header (header_buffer (message_of ''hi''))))\<rparr>,
      client_up := False\<rparr>"
  have "lossy_step tiny_asio (handle_response []) tiny_asio handle_request ?l1 ?l2"
    by (rule client_fails [OF p _ _ _ k]) simp_all
  with s1 have "lossy_run tiny_asio (handle_response []) tiny_asio handle_request sample_lossy ?l2"
    by (blast intro: lossy_refl lossy_next)
  note last = lossy_at_most_once [OF echo_fits start this tiny_keeps tiny_keeps]
  have up: "\<not> client_up ?l2" and asked: "asked (net ?l2) = [''hi'']"
    by (simp_all add: sample_lossy_def sample_link_def link_send_def)
  show ?thesis
    unfolding Let_def by (rule exI [of _ ?l2], rule conjI [OF up conjI [OF asked last]])
qed

text \<open>C8: The same when the owner of the client disconnects at any time, also in the middle of an exchange:
  whatever the race between the shutdown and the transfer it is issued beside, each handler has seen
  a beginning of what it should, whole, in order and once, and the client is at most one behind.\<close>

theorem abrupt_at_most_once:
  assumes "\<And>q r w. fits (content_buffer q) \<Longrightarrow> fits (content_buffer (fst (H q r w)))"
    and "lossy_start l0" and "abrupt_run A R B H l0 l"
    and "socket_calls_keep A g" and "socket_calls_keep B f" and "sees_only g R"
  shows "\<exists>i j. j \<le> i \<and> i \<le> Suc j \<and> i \<le> length (asked (net l)) \<and>
    f (world (server_end (net l))) =
      f (fst (conversation H R (write_buffer (server_end (net l0))) (world (server_end (net l0)))
                (world (client_end (net l0))) (take i (asked (net l))))) \<and>
    g (world (client_end (net l))) =
      g (snd (conversation H R (write_buffer (server_end (net l0))) (world (server_end (net l0)))
                (world (client_end (net l0))) (take j (asked (net l)))))"
proof -
  have "fitting_handler H" by unfold_locales (rule assms(1))
  obtain m where m: "lossy_run A R B H l0 m" "tracks g l m"
    using abrupt_run_tracked [OF assms(3,2,4,6)] by blast
  from lossy_ok_worlds [OF fitting_handler.lossy_run_ok [OF \<open>fitting_handler H\<close> m(1) assms(2,4,5)]]
  show ?thesis by (simp add: conv_at_def tracksD [OF m(2)])
qed

lemma handle_response_sees: "sees_only (\<lambda>w. (disk w, screen w, writable w)) (handle_response pf)"
  by (auto simp: sees_only_def handle_response_def write_file_def print_line_def split: option.splits node.splits)

lemma tiny_keeps_files: "socket_calls_keep tiny_asio (\<lambda>w. (disk w, screen w, writable w))"
  by (simp add: socket_calls_keep_def tiny_close_def)

lemma abrupt_at_most_once_witness:
  "\<exists>l :: (tiny, tiny) lossy. asked (net l) = [''hi''] \<and>
    pending (client_end (net l)) = [Op_Shutdown, Op_Write_Content ''hi''] \<and>
    (\<exists>i j. j \<le> i \<and> i \<le> Suc j \<and> i \<le> length (asked (net l)) \<and>
      (disk (world (server_end (net l))), screen (world (server_end (net l)))) =
        (let w = fst (conversation handle_request (handle_response []) (write_buffer (server_end (net sample_lossy)))
                   (world (server_end (net sample_lossy))) (world (client_end (net sample_lossy)))
                   (take i (asked (net l))))
         in (disk w, screen w)) \<and>
      (disk (world (client_end (net l))), screen (world (client_end (net l))), writable (world (client_end (net l)))) =
        (let v = snd (conversation handle_request (handle_response []) (write_buffer (server_end (net sample_lossy)))
                   (world (server_end (net sample_lossy))) (world (client_end (net sample_lossy)))
                   (take j (asked (net l))))
         in (disk v, screen v, writable v)))"
proof -
  let ?V = "client_session tiny_asio (handle_response [])" and ?h = "header_buffer (message_of ''hi'')"
  let ?step = "abrupt_step tiny_asio (handle_response []) tiny_asio handle_request"
  let ?l1 = "sample_lossy\<lparr>net := link_send (message_of ''hi'') (net sample_lossy)\<rparr>"
  have start: "lossy_start sample_lossy" by (simp add: lossy_start_def sample_lossy_def sample_link_start)
  have s1: "?step sample_lossy ?l1"
    by (rule abrupt_send) (simp_all add: sample_lossy_def sample_link_def new_session_def fits_def)
  let ?l2 = "?l1\<lparr>net := (net ?l1)\<lparr>client_end := stop tiny_asio (client_end (net ?l1))\<rparr>, client_up := False\<rparr>"
  have s2: "?step ?l1 ?l2" by (rule abrupt_stop)
  have p: "pending (client_end (net ?l2)) = [Op_Write_Header ?h, Op_Shutdown]"
    and w: "framed (write_buffer (client_end (net ?l2)))" "content_buffer (write_buffer (client_end (net ?l2))) = ''hi''"
    by (simp_all add: sample_lossy_def sample_link_def link_send_def client_session_send_def do_defs Let_def
        new_session_def header_prepare_write)
  obtain k where k: "deliver tiny_asio ?V 0 Success [] (client_end (net ?l2)) = Inr k"
    and pk: "pending k = [Op_Shutdown, Op_Write_Content ''hi'']"
    using p w by (simp add: deliver_at client_completed_defs client_on_write_header_def Let_def
        prepare_content_write_framed do_defs)
  let ?l3 = "?l2\<lparr>net := (net ?l2)\<lparr>client_end := k,
      to_server := to_server (net ?l2) @ op_bytes (Op_Write_Header ?h)\<rparr>\<rparr>"
  have "?step ?l2 ?l3" by (rule abrupt_client_writes [where j = 0 and x = "Op_Write_Header ?h"]) (use p k in simp_all)
  with s1 s2 have "abrupt_run tiny_asio (handle_response []) tiny_asio handle_request sample_lossy ?l3"
    by (blast intro: abrupt_refl abrupt_next)
  note last = abrupt_at_most_once [OF echo_fits start this tiny_keeps_files tiny_keeps handle_response_sees]
  have "asked (net ?l3) = [''hi'']" "pending (client_end (net ?l3)) = [Op_Shutdown, Op_Write_Content ''hi'']"
    by (simp_all add: sample_lossy_def sample_link_def link_send_def pk)
  then show ?thesis
    unfolding Let_def by - (rule exI [of _ ?l3], rule conjI, assumption, rule conjI, assumption, rule last)
qed

end
