(* ===== verification/Shared_Link.thy ===== *)
theory Shared_Link
  imports Link
begin

section \<open>A connection in a world it shares\<close>

text \<open>
  The connection of \<open>Link\<close> when the world of the server is shared: between any two completions the rest of
  the process may put any other world in its place. The calls of the request handler are recorded, each
  with the content it was given and the world it was called in, so that what the client is told can
  be stated without knowing what the rest of the process does.
\<close>

subsection \<open>The calls of the handler\<close>

type_synonym 'w handler_call = "bytes \<times> 'w"

text \<open>The call a completion makes: that of a content read at the server that succeeds, after which the header
  of the response is written, with the bytes it delivers.\<close>

definition handler_calls :: "('v, 'w) link \<Rightarrow> ('v, 'w) link \<Rightarrow> 'w handler_call list" where
  "handler_calls l l' =
     (case (pending (server_end l), pending (server_end l')) of
        ([Op_Read_Content n], [Op_Write_Header bs]) \<Rightarrow> [(take n (to_server l), world (server_end l))]
      | _ \<Rightarrow> [])"

text \<open>The contents of the responses to a list of calls, and what a client makes of a list of responses.\<close>

fun replies :: "'w request_handler \<Rightarrow> message \<Rightarrow> 'w handler_call list \<Rightarrow> bytes list" where
  "replies H out [] = []"
| "replies H out ((c, w) # es) = content_buffer (fst (H (message_of c) out w)) # replies H empty_message es"

definition told :: "'v response_handler \<Rightarrow> bytes list \<Rightarrow> 'v \<Rightarrow> 'v" where
  "told R rs v = fold (\<lambda>r. R (message_of r)) rs v"

lemma told_snoc [simp]: "told R (rs @ [r]) v = R (message_of r) (told R rs v)" "told R [] v = v"
  by (simp_all add: told_def)

lemma replies_snoc:
  "replies H out (es @ [(c, w)]) =
   replies H out es @ [content_buffer (fst (H (message_of c) (next_out out (map fst es)) w))]"
  by (induction es arbitrary: out) (auto simp: next_out_def)

subsection \<open>Runs\<close>

inductive shared_run ::
  "'v asio \<Rightarrow> 'v response_handler \<Rightarrow> 'w asio \<Rightarrow> 'w request_handler \<Rightarrow>
   ('v, 'w) link \<Rightarrow> 'w handler_call list \<Rightarrow> ('v, 'w) link \<Rightarrow> bool"
  for A R B H l0 where
  shared_refl: "shared_run A R B H l0 [] l0"
| shared_sends: "shared_run A R B H l0 es l \<Longrightarrow> pending (client_end l) = [] \<Longrightarrow> fits (content_buffer m) \<Longrightarrow>
    shared_run A R B H l0 es (link_send m l)"
| shared_completes: "shared_run A R B H l0 es l \<Longrightarrow> link_completion A R B H l l' \<Longrightarrow>
    shared_run A R B H l0 (es @ handler_calls l l') l'"
| shared_others: "shared_run A R B H l0 es l \<Longrightarrow>
    shared_run A R B H l0 es (l\<lparr>server_end := server_end l\<lparr>world := w\<rparr>\<rparr>)"

subsection \<open>The invariant\<close>

text \<open>
  Between two exchanges the calls so far were those of the requests so far. In an exchange the handler has
  either not been called for the last request, and nothing of the answer is under way, or it has, and
  the client is about to receive what it answered.
\<close>

definition shared_idle ::
  "'v response_handler \<Rightarrow> 'w request_handler \<Rightarrow> message \<Rightarrow> 'v \<Rightarrow> 'w handler_call list \<Rightarrow> ('v, 'w) link \<Rightarrow> bool"
where
  "shared_idle R H out0 v0 es l \<longleftrightarrow> map fst es = asked l \<and> to_server l = [] \<and> to_client l = [] \<and>
     pending (client_end l) = [] \<and> world (client_end l) = told R (replies H out0 es) v0 \<and>
     (\<exists>j. waiting (next_out out0 (asked l)) (world (server_end l)) (server_end l) j)"

text \<open>The last request \<open>c\<close> is under way, and the client has been told all before it.\<close>

definition shared_asking ::
  "'v response_handler \<Rightarrow> 'w request_handler \<Rightarrow> message \<Rightarrow> 'v \<Rightarrow> 'w handler_call list \<Rightarrow> bytes \<Rightarrow> bytes \<Rightarrow>
   bytes \<Rightarrow> bytes \<Rightarrow> ('v, 'w) link \<Rightarrow> bool"
where
  "shared_asking R H out0 v0 es c r u t l \<longleftrightarrow> asked l = map fst es @ [c] \<and> fits c \<and> fits r \<and>
     (\<exists>p q i. asking c r (told R (replies H out0 es) v0) p q i (client_end l) \<and>
        to_server l @ p = u \<and> to_client l @ t = q)"

inductive shared_busy ::
  "'v response_handler \<Rightarrow> 'w request_handler \<Rightarrow> message \<Rightarrow> 'v \<Rightarrow> 'w handler_call list \<Rightarrow> ('v, 'w) link \<Rightarrow> bool"
  for R H out0 v0 where
  not_called: "shared_asking R H out0 v0 es c r u (encode r) l \<Longrightarrow>
    hearing c (next_out out0 (map fst es)) u j (server_end l) \<Longrightarrow> shared_busy R H out0 v0 es l"
| called: "shared_asking R H out0 v0 es c r [] t l \<Longrightarrow>
    r = content_buffer (fst (H (message_of c) (next_out out0 (map fst es)) w)) \<Longrightarrow>
    replying r t j (server_end l) \<Longrightarrow> shared_busy R H out0 v0 (es @ [(c, w)]) l"

text \<open>While nothing of the answer is under way the client can be told anything.\<close>

lemma asking_rechoose:
  assumes "asking c r v p q i k" and "q = encode r"
  shows "asking c r' v p (encode r') i k"
  using assms
proof (cases rule: asking.cases)
  case ask_finish
  have "length r < length (encode r)" by (simp add: encode_header)
  with ask_finish(2) assms(2) show ?thesis by simp
qed (auto intro: asking.intros)

lemma encode_not_suffix: "b @ encode r = r \<Longrightarrow> False"
  by (drule arg_cong [of _ _ length]) (simp add: encode_header)

lemma asking_expects: "asking c r v p q i k \<Longrightarrow> q = encode r \<or> q = r"
  by (erule askingE) simp_all

lemma shared_asking_silent:
  assumes "shared_asking R H out0 v0 es c r u (encode r) l"
  shows "to_client l = [] \<and> (\<exists>p i. asking c r (told R (replies H out0 es) v0) p (encode r) i (client_end l) \<and>
    to_server l @ p = u)"
proof -
  from assms obtain p q i where cli: "asking c r (told R (replies H out0 es) v0) p q i (client_end l)"
    and ch: "to_server l @ p = u" "to_client l @ encode r = q"
    by (auto simp: shared_asking_def)
  have "q \<noteq> r" using ch(2) encode_not_suffix by blast
  with asking_expects [OF cli] have "q = encode r" by blast
  with cli ch show ?thesis by auto
qed

lemma shared_asking_rechoose:
  assumes "shared_asking R H out0 v0 es c r u (encode r) l" and "fits r'"
  shows "shared_asking R H out0 v0 es c r' u (encode r') l"
proof -
  from shared_asking_silent [OF assms(1)] obtain p i where silent: "to_client l = []"
    and "asking c r (told R (replies H out0 es) v0) p (encode r) i (client_end l)" "to_server l @ p = u"
    by blast
  from asking_rechoose [OF this(2) refl] this(3) silent assms show ?thesis
    unfolding shared_asking_def by auto
qed

subsection \<open>The rest of the process\<close>

lemma waiting_world [simp]: "waiting out w (s\<lparr>world := w\<rparr>) j \<longleftrightarrow> waiting out (world s) s j"
  by (simp add: waiting_def ready_def)

lemma hearing_world [simp]: "hearing c out u j (s\<lparr>world := w\<rparr>) \<longleftrightarrow> hearing c out u j s"
  by (simp add: hearing.simps [of _ _ _ _ s] hearing.simps [of _ _ _ _ "s\<lparr>world := w\<rparr>"])

lemma replying_world [simp]: "replying r t j (s\<lparr>world := w\<rparr>) \<longleftrightarrow> replying r t j s"
  by (simp add: replying.simps [of _ _ _ s] replying.simps [of _ _ _ "s\<lparr>world := w\<rparr>"])

lemma idle_others:
  "shared_idle R H out0 v0 es l \<Longrightarrow> shared_idle R H out0 v0 es (l\<lparr>server_end := server_end l\<lparr>world := w\<rparr>\<rparr>)"
  by (simp add: shared_idle_def)

lemma shared_asking_server [simp]:
  "shared_asking R H out0 v0 es c r u t (l\<lparr>server_end := s\<rparr>) = shared_asking R H out0 v0 es c r u t l"
  by (simp add: shared_asking_def)

lemma busy_others:
  assumes "shared_busy R H out0 v0 es l"
  shows "shared_busy R H out0 v0 es (l\<lparr>server_end := server_end l\<lparr>world := w\<rparr>\<rparr>)"
  using assms
proof (cases rule: shared_busy.cases)
  case (not_called c r u j)
  then show ?thesis
    by (intro shared_busy.not_called [where c = c and r = r and u = u and j = j])
      simp_all
next
  case (called fs c r t v j)
  then show ?thesis
    by (simp only:, intro shared_busy.called [where r = r and t = t and j = j])
      simp_all
qed

subsection \<open>Completions\<close>

lemma handler_calls_none:
  "server_end l' = server_end l \<Longrightarrow> handler_calls l l' = []"
  "pending (server_end l) = [x] \<Longrightarrow> (\<And>n. x \<noteq> Op_Read_Content n) \<Longrightarrow> handler_calls l l' = []"
  by (auto simp: handler_calls_def split: list.split async_op.split)

lemma idle_completion:
  assumes "link_completion A R B H l l'" and "shared_idle R H out0 v0 es l"
  shows "shared_idle R H out0 v0 (es @ handler_calls l l') l'"
proof -
  from assms(2) obtain j where s: "waiting (next_out out0 (asked l)) (world (server_end l)) (server_end l) j"
    and idle: "to_server l = []" "to_client l = []" "pending (client_end l) = []"
    by (auto simp: shared_idle_def)
  from assms(1) show ?thesis
  proof cases
    case (server_writes x t)
    from waiting_write [OF s server_writes(2-4)] have "op_bytes x = []"
      and t: "waiting (next_out out0 (asked l)) (world (server_end l)) t 0" by simp_all
    moreover from t have "world t = world (server_end l)" by (simp add: waiting_def)
    moreover have "handler_calls l l' = []"
      using server_writes(2,3) by (intro handler_calls_none(2)) auto
    ultimately show ?thesis using server_writes(1) assms(2) by (auto simp: shared_idle_def)
  next
    case (server_reads x k t)
    with s have "k = 28" by (auto simp: waiting_def ready_def)
    with server_reads(4) idle show ?thesis by simp
  qed (use idle in simp_all)
qed

lemma asking_client_writes:
  assumes "shared_asking R H out0 v0 es c r u t l" and "pending (client_end l) = [x]" and "is_write x"
    and "deliver A (client_session A R) 0 Success [] (client_end l) = Inr k"
  shows "shared_asking R H out0 v0 es c r u t (l\<lparr>client_end := k, to_server := to_server l @ op_bytes x\<rparr>)"
proof -
  from assms(1) obtain p q i where cli: "asking c r (told R (replies H out0 es) v0) p q i (client_end l)"
    and ch: "to_server l @ p = u" "to_client l @ t = q"
    by (auto simp: shared_asking_def)
  from asking_write [OF cli assms(2-4)] obtain p' i' where
    "asking c r (told R (replies H out0 es) v0) p' q i' k" "p = op_bytes x @ p'" by blast
  with assms(1) ch show ?thesis by (auto simp: shared_asking_def)
qed

lemma asking_client_reads:
  assumes "shared_asking R H out0 v0 es c r u t l" and "pending (client_end l) = [x]" and "read_size x = Some n"
    and "n \<le> length (to_client l)"
    and "deliver A (client_session A R) 0 Success (take n (to_client l)) (client_end l) = Inr k"
  defines "l' \<equiv> l\<lparr>client_end := k, to_client := drop n (to_client l)\<rparr>"
  shows "shared_asking R H out0 v0 es c r u t l' \<or>
    t = [] \<and> to_server l' = u \<and> to_client l' = [] \<and> pending k = [] \<and>
      world k = R (message_of r) (told R (replies H out0 es) v0)"
proof -
  from assms(1) obtain p q i where cli: "asking c r (told R (replies H out0 es) v0) p q i (client_end l)"
    and ch: "to_server l @ p = u" "to_client l @ t = q" and r: "fits r"
    by (auto simp: shared_asking_def)
  from asking_read [OF cli assms(2-4) ch(2) r assms(5)] have p: "p = []"
    and "(\<exists>q' i'. asking c r (told R (replies H out0 es) v0) p q' i' k \<and> drop n (to_client l) @ t = q') \<or>
      drop n (to_client l) = [] \<and> t = [] \<and> pending k = [] \<and>
        world k = R (message_of r) (told R (replies H out0 es) v0)"
    by blast+
  from this(2) show ?thesis
  proof
    assume "\<exists>q' i'. asking c r (told R (replies H out0 es) v0) p q' i' k \<and> drop n (to_client l) @ t = q'"
    then have "shared_asking R H out0 v0 es c r u t l'"
      using assms(1) ch p by (auto simp: shared_asking_def l'_def)
    then show ?thesis ..
  next
    assume "drop n (to_client l) = [] \<and> t = [] \<and> pending k = [] \<and>
        world k = R (message_of r) (told R (replies H out0 es) v0)"
    then show ?thesis using ch(1) p by (simp add: l'_def)
  qed
qed

lemma asking_server_writes:
  "shared_asking R H out0 v0 es c r u (b @ t) l \<Longrightarrow>
   shared_asking R H out0 v0 es c r u t (l\<lparr>server_end := s, to_client := to_client l @ b\<rparr>)"
  by (simp add: shared_asking_def)

lemma asking_server_reads:
  "shared_asking R H out0 v0 es c r u t l \<Longrightarrow> n \<le> length (to_server l) \<Longrightarrow>
   shared_asking R H out0 v0 es c r (drop n u) t (l\<lparr>server_end := s, to_server := drop n (to_server l)\<rparr>)"
  by (auto simp: shared_asking_def)

lemma replying_finished: "replying r [] j s \<Longrightarrow> waiting empty_message (world s) s j"
  by (erule replyingE) (auto simp: encode_header magic_numbers_def waiting_def)

lemma not_called_completion:
  assumes "link_completion A R B H l l'" and ask: "shared_asking R H out0 v0 es c r u (encode r) l"
    and hear: "hearing c (next_out out0 (map fst es)) u j (server_end l)"
    and fit: "\<And>w. fits (content_buffer (fst (H (message_of c) (next_out out0 (map fst es)) w)))"
  shows "shared_busy R H out0 v0 (es @ handler_calls l l') l'"
  using assms(1)
proof cases
  case (client_writes x k)
  with asking_client_writes [OF ask client_writes(2-4)] hear show ?thesis
    by (auto simp: handler_calls_none intro: not_called)
next
  case (client_reads x n k)
  from asking_client_reads [OF ask client_reads(2-5)] have
    "shared_asking R H out0 v0 es c r u (encode r) l'"
    by (auto simp: client_reads(1) encode_header magic_numbers_def)
  with client_reads(1) hear show ?thesis by (auto simp: handler_calls_none intro: not_called)
next
  case (server_writes x s)
  from hearing_write [OF hear server_writes(2-4)] obtain j' where
    x: "op_bytes x = []" "hearing c (next_out out0 (map fst es)) u j' s" by blast
  have "handler_calls l l' = []"
    using server_writes(2,3) by (intro handler_calls_none(2)) auto
  with x server_writes(1) asking_server_writes [of R H out0 v0 es c r u "[]" "encode r" l s] ask show ?thesis
    by (auto intro: not_called)
next
  case (server_reads x n s)
  from ask obtain p where ch: "to_server l @ p = u" and c: "fits c" by (auto simp: shared_asking_def)
  obtain response w1 where
    H: "H (message_of c) (next_out out0 (map fst es)) (world (server_end l)) = (response, w1)" by fastforce
  note ask' = asking_server_reads [OF _ server_reads(4), of R H out0 v0 es c _ u _ s]
  from hearing_read [where H = H, OF hear server_reads(2-4) ch c H server_reads(5)] show ?thesis
  proof (elim disjE conjE exE)
    fix u' j' assume x: "x = Op_Read_Header n" and h: "hearing c (next_out out0 (map fst es)) u' j' s"
      and "drop n (to_server l) @ p = u'"
    then have "u' = drop n u" using ch server_reads(4) by auto
    moreover have "handler_calls l l' = []" using server_reads(2) x by (intro handler_calls_none(2)) auto
    ultimately show ?thesis using ask' [OF ask] h server_reads(1) by (auto intro: not_called)
  next
    fix j' assume x: "x = Op_Read_Content n" "take n (to_server l) = c" "drop n (to_server l) = []" "p = []"
      and rep: "replying (content_buffer response) (encode (content_buffer response)) j' s"
    have "shared_asking R H out0 v0 es c (content_buffer response) u (encode (content_buffer response)) l"
      using fit [of "world (server_end l)"] H by (intro shared_asking_rechoose [OF ask]) simp
    moreover have "drop n u = []" using x ch by simp
    ultimately have "shared_asking R H out0 v0 es c (content_buffer response) [] (encode (content_buffer response)) l'"
      using ask' by (simp add: server_reads(1))
    then have "shared_busy R H out0 v0 (es @ [(c, world (server_end l))]) l'"
      using rep H by (intro called) (simp_all add: server_reads(1))
    moreover have "\<exists>bs. pending s = [Op_Write_Header bs]"
      using rep by (cases rule: replying.cases) (auto simp: encode_header magic_numbers_def dest: arg_cong [of _ _ length])
    ultimately show ?thesis using server_reads(1,2) x by (auto simp: handler_calls_def)
  qed
qed

lemma called_completion:
  assumes "link_completion A R B H l l'" and ask: "shared_asking R H out0 v0 es c r [] t l"
    and r: "r = content_buffer (fst (H (message_of c) (next_out out0 (map fst es)) w))"
    and rep: "replying r t j (server_end l)"
  defines "es' \<equiv> es @ [(c, w)]"
  shows "shared_busy R H out0 v0 (es' @ handler_calls l l') l' \<or> shared_idle R H out0 v0 (es' @ handler_calls l l') l'"
  using assms(1)
proof cases
  case (client_writes x k)
  from called [OF asking_client_writes [OF ask client_writes(2-4)] r] rep client_writes(1) show ?thesis
    by (simp add: handler_calls_none es'_def)
next
  case (client_reads x n k)
  from asking_client_reads [OF ask client_reads(2-5)] show ?thesis
  proof (elim disjE conjE)
    assume "shared_asking R H out0 v0 es c r [] t (l\<lparr>client_end := k, to_client := drop n (to_client l)\<rparr>)"
    from called [OF this r] rep client_reads(1) show ?thesis by (simp add: handler_calls_none es'_def)
  next
    assume fin: "t = []" "to_server (l\<lparr>client_end := k, to_client := drop n (to_client l)\<rparr>) = []"
      "to_client (l\<lparr>client_end := k, to_client := drop n (to_client l)\<rparr>) = []" "pending k = []"
      "world k = R (message_of r) (told R (replies H out0 es) v0)"
    have "asked l = map fst es'" using ask by (simp add: shared_asking_def es'_def)
    moreover have "next_out out0 (asked l) = empty_message" by (simp add: calculation es'_def next_out_def)
    moreover have "waiting empty_message (world (server_end l)) (server_end l) j"
      using rep fin(1) by (intro replying_finished) simp
    ultimately have "shared_idle R H out0 v0 es' l'"
      using fin r unfolding shared_idle_def client_reads(1) by (auto simp: es'_def replies_snoc)
    then show ?thesis using client_reads(1) by (simp add: handler_calls_none)
  qed
next
  case (server_writes x s)
  from replying_write [OF rep server_writes(2-4)] obtain t' j' where
    x: "replying r t' j' s" "t = op_bytes x @ t'" by blast
  have "handler_calls l l' = []"
    using server_writes(2,3) by (intro handler_calls_none(2)) auto
  with called [OF asking_server_writes [OF ask [unfolded x(2)], of s] r] x(1) server_writes(1) show ?thesis
    by (simp add: es'_def)
next
  case (server_reads x n s)
  from ask have "to_server l = []" by (auto simp: shared_asking_def)
  with replying_no_read [OF rep server_reads(2,3)] server_reads(4) show ?thesis by simp
qed

subsection \<open>What the client is told\<close>

context fitting_handler
begin

lemma shared_send:
  assumes "shared_idle R H out0 v0 es l" and "fits (content_buffer m)"
  shows "shared_busy R H out0 v0 es (link_send m l)"
proof -
  let ?c = "content_buffer m"
  have idle: "map fst es = asked l" "to_server l = []" "to_client l = []" "pending (client_end l) = []"
    "world (client_end l) = told R (replies H out0 es) v0"
    using assms(1) by (simp_all add: shared_idle_def)
  obtain j where s: "waiting (next_out out0 (asked l)) (world (server_end l)) (server_end l) j"
    using assms(1) by (auto simp: shared_idle_def)
  have "asking ?c [] (told R (replies H out0 es) v0) (encode ?c) (encode []) 4
      (client_session_send m (client_end l))"
    using idle(4,5)
    by (intro ask_header) (simp_all add: client_session_send_def do_defs Let_def header_prepare_write)
  then have "shared_asking R H out0 v0 es ?c [] (encode ?c) (encode []) (link_send m l)"
    using idle assms(2) by (auto simp: shared_asking_def link_send_def fits_def)
  moreover have "hearing ?c (next_out out0 (map fst es)) (encode ?c) (j + 4) (server_end (link_send m l))"
    using s idle(1) by (simp add: link_send_def hear_header)
  ultimately show ?thesis by (rule not_called)
qed

lemma shared_run_inv:
  assumes "shared_run A R B H l0 es l" and "link_start l0"
  defines "out0 \<equiv> write_buffer (server_end l0)" and "v0 \<equiv> world (client_end l0)"
  shows "shared_idle R H out0 v0 es l \<or> shared_busy R H out0 v0 es l"
  using assms(1)
proof (induction rule: shared_run.induct)
  case shared_refl
  have "waiting out0 (world (server_end l0)) (server_end l0) 0"
    using assms(2) by (simp add: waiting_def link_start_def out0_def)
  then show ?case using assms(2) by (auto simp: shared_idle_def link_start_def next_out_def v0_def)
next
  case (shared_sends es l m)
  have "\<not> shared_busy R H out0 v0 es l"
    using shared_sends.hyps(2) by (auto simp: shared_asking_def elim!: shared_busy.cases dest: asking_busy)
  with shared_sends show ?case by (blast intro: shared_send)
next
  case (shared_completes es l l')
  from shared_completes.IH show ?case
  proof
    assume "shared_idle R H out0 v0 es l"
    with idle_completion [OF shared_completes.hyps(2)] show ?thesis by blast
  next
    assume "shared_busy R H out0 v0 es l"
    then show ?thesis
    proof (cases rule: shared_busy.cases)
      case (not_called c r u j)
      have "fits c" using not_called(1) by (simp add: shared_asking_def)
      then have "fits (content_buffer (fst (H (message_of c) (next_out out0 (map fst es)) w)))" for w
        by (intro response_fits) simp
      from not_called_completion [OF shared_completes.hyps(2) not_called this] show ?thesis by blast
    next
      case (called fs c r t w j)
      from called_completion [OF shared_completes.hyps(2) called(2-4)] called(1) show ?thesis by blast
    qed
  qed
next
  case (shared_others es l w)
  from shared_others.IH show ?case by (elim disjE) (simp_all add: idle_others busy_others)
qed

end

text \<open>While the client is at work one of the two ends can go on, whatever the shared world is.\<close>

lemma shared_busy_progress:
  assumes "shared_busy R H out0 v0 es l"
  shows "\<exists>l'. link_completion A R B H l l'"
  using assms
proof (cases rule: shared_busy.cases)
  case (not_called c r u j)
  from not_called(1) obtain p q i where "asking c r (told R (replies H out0 es) v0) p q i (client_end l)"
    "fits c" "fits r" "to_server l @ p = u" "to_client l @ encode r = q"
    by (auto simp: shared_asking_def)
  moreover have "serving c r (next_out out0 (map fst es)) (world (server_end l)) w1 u (encode r) j (server_end l)" for w1
    using not_called(2) by (simp add: serving_def)
  ultimately show ?thesis by (blast intro: exchange_progress)
next
  case (called fs c r t w j)
  from called(2) obtain p q i where "asking c r (told R (replies H out0 fs) v0) p q i (client_end l)"
    "fits c" "fits r" "to_server l @ p = []" "to_client l @ t = q"
    by (auto simp: shared_asking_def)
  moreover have "serving c r out w0 (world (server_end l)) [] t j (server_end l)" for out w0
    using called(4) by (simp add: serving_def)
  ultimately show ?thesis by (blast intro: exchange_progress)
qed

end
