(* ===== verification/Flaky_Link.thy ===== *)
theory Flaky_Link
  imports Stopped_Link Shared_Link
begin

section \<open>A failing connection in a world it shares\<close>

text \<open>
  The connection of \<open>Stopped_Link\<close>, which fails and is stopped at any time, from before its handshakes and
  in the shared world of \<open>Shared_Link\<close>. The lemmas show that the calls of the handler and the world of
  the client are those of a connection that does not fail and whose handshakes are over, some of
  whose completions have not taken place: when an end fails, the other connection completes the
  write that failed, and nothing more at that end.
\<close>

subsection \<open>Runs\<close>

inductive flaky_run ::
  "'v asio \<Rightarrow> 'v response_handler \<Rightarrow> 'w asio \<Rightarrow> 'w request_handler \<Rightarrow>
   ('v, 'w) lossy \<Rightarrow> 'w handler_call list \<Rightarrow> ('v, 'w) lossy \<Rightarrow> bool"
  for A R B H l0 where
  flaky_refl: "flaky_run A R B H l0 [] l0"
| flaky_steps: "flaky_run A R B H l0 es l \<Longrightarrow> abrupt_step A R B H l l' \<Longrightarrow>
    flaky_run A R B H l0 (es @ handler_calls (net l) (net l')) l'"
| flaky_others: "flaky_run A R B H l0 es l \<Longrightarrow>
    flaky_run A R B H l0 es (l\<lparr>net := (net l)\<lparr>server_end := (server_end (net l))\<lparr>world := w\<rparr>\<rparr>\<rparr>)"

subsection \<open>The handshakes\<close>

text \<open>A server session as it will be when its handshake has completed, but for the line it then logs.\<close>

definition past_handshake :: "'w session_st \<Rightarrow> 'w session_st" where
  "past_handshake s =
     (if pending s = [Op_Handshake Handshake_Server]
      then do_read_header (with_read prepare_header_buffer_read (s\<lparr>pending := []\<rparr>)) else s)"

text \<open>A connection of two started sessions, each with its handshake before or behind it.\<close>

definition flaky_start :: "('v, 'w) lossy \<Rightarrow> bool" where
  "flaky_start l \<longleftrightarrow> list_all is_control (pending (client_end (net l))) \<and> ready (past_handshake (server_end (net l))) \<and>
     to_server (net l) = [] \<and> to_client (net l) = [] \<and> asked (net l) = []"

definition link_opened :: "('v, 'w) link \<Rightarrow> ('v, 'w) link" where
  "link_opened l = l\<lparr>client_end := (client_end l)\<lparr>pending := []\<rparr>, server_end := past_handshake (server_end l)\<rparr>"

lemma past_handshake_transfer [simp]: "pending s = [x] \<Longrightarrow> is_transfer x \<Longrightarrow> past_handshake s = s"
  by (auto simp: past_handshake_def)

lemma past_handshake_fields [simp]:
  "write_buffer (past_handshake s) = write_buffer s" "world (past_handshake s) = world s"
  by (simp_all add: past_handshake_def do_defs)

lemma past_handshake_world [simp]: "past_handshake (s\<lparr>world := w\<rparr>) = (past_handshake s)\<lparr>world := w\<rparr>"
  by (simp add: past_handshake_def do_defs)

lemma link_opened_start: "flaky_start l \<Longrightarrow> link_start (link_opened (net l))"
  by (simp add: flaky_start_def link_start_def link_opened_def)

text \<open>Two sessions that differ in nothing but their console.\<close>

definition same :: "'w session_st \<Rightarrow> 'w session_st \<Rightarrow> bool" where
  "same s t \<longleftrightarrow> pending t = pending s \<and> world t = world s \<and> socket t = socket s \<and>
     read_buffer t = read_buffer s \<and> write_buffer t = write_buffer s"

lemma same_refl [simp]: "same s s"
  by (simp add: same_def)

lemma same_world: "same s t \<Longrightarrow> same (s\<lparr>world := w\<rparr>) (t\<lparr>world := w\<rparr>)"
  by (auto simp: same_def)

lemma server_hooks_same:
  assumes "same s t"
  shows "server_on_read_header A s = Inr s' \<Longrightarrow> \<exists>t'. server_on_read_header A t = Inr t' \<and> same s' t'"
    and "server_on_read_content A H s = Inr s' \<Longrightarrow> \<exists>t'. server_on_read_content A H t = Inr t' \<and> same s' t'"
    and "server_on_write_header A s = Inr s' \<Longrightarrow> \<exists>t'. server_on_write_header A t = Inr t' \<and> same s' t'"
    and "server_on_write_content A s = Inr s' \<Longrightarrow> \<exists>t'. server_on_write_content A t = Inr t' \<and> same s' t'"
  using assms
  by (auto simp: same_def server_on_read_header_def server_on_read_content_def server_on_write_header_def
      server_on_write_content_def Let_def bind_result_conv do_defs split: prod.splits)

lemma server_transfer_same:
  assumes "same s t" and "pending s = [x]" and "is_transfer x"
    and "deliver B (server_session B H) 0 Success d s = Inr s'"
  obtains t' where "deliver B (server_session B H) 0 Success d t = Inr t'" and "same s' t'"
proof -
  let ?s = "store_read x d (s\<lparr>pending := []\<rparr>)" and ?t = "store_read x d (t\<lparr>pending := []\<rparr>)"
  have "same ?s ?t" using assms(1) by (cases x) (auto simp: same_def)
  moreover have "complete B (server_session B H) x Success ?s = Inr s'"
    using assms(2,4) by (simp add: deliver_single)
  ultimately have "\<exists>t'. complete B (server_session B H) x Success ?t = Inr t' \<and> same s' t'"
    using assms(3) by (cases x) (auto simp: completed_defs dest: server_hooks_same)
  then show thesis using that assms(1,2) by (auto simp: deliver_single same_def)
qed

text \<open>The handshake of a server session succeeds, or the session will do nothing more.\<close>

lemma server_handshake_completed:
  assumes "pending s = [Op_Handshake Handshake_Server]"
    and "deliver B (server_session B H) 0 ec [] s = Inr s'"
  shows "ec = Success \<and> past_handshake s' = s' \<and> same (past_handshake s) s' \<or> dead s' \<and> ec \<noteq> Success"
  using assms
  by (auto simp: deliver_single completed_defs server_on_secure_handshake_def past_handshake_def same_def dead_def
      Let_def do_defs dest: server_close.close_pending split: if_splits)

subsection \<open>The connection that does not fail\<close>

text \<open>
  \<open>follows g cu su l m\<close>: \<open>m\<close> is the other connection, and \<open>cu\<close> and \<open>su\<close> say whether the client and the
  session of \<open>l\<close> have not failed yet. What is in a channel of \<open>l\<close> to an end that still runs is a beginning
  of what is in that of \<open>m\<close>, and all of it while both run.
\<close>

definition follows :: "('v \<Rightarrow> 'y) \<Rightarrow> bool \<Rightarrow> bool \<Rightarrow> ('v, 'w) lossy \<Rightarrow> ('v, 'w) link \<Rightarrow> bool" where
  "follows g cu su l m \<longleftrightarrow> asked m = asked (net l) \<and> (client_up l \<longrightarrow> cu) \<and> (server_up l \<longrightarrow> su) \<and>
     (if cu then shadows g (client_end (net l)) (client_end m)
      else only_control (client_end (net l)) \<and> g (world (client_end (net l))) = g (world (client_end m))) \<and>
     (if su then same (past_handshake (server_end (net l))) (server_end m) else dead (server_end (net l))) \<and>
     (su \<longrightarrow> (\<exists>x. to_server m = to_server (net l) @ x \<and> (cu \<longrightarrow> x = []))) \<and>
     (cu \<longrightarrow> (\<exists>y. to_client m = to_client (net l) @ y \<and> (su \<longrightarrow> y = [])))"

definition shared_ok ::
  "'v response_handler \<Rightarrow> 'w request_handler \<Rightarrow> message \<Rightarrow> 'v \<Rightarrow> 'w handler_call list \<Rightarrow> ('v, 'w) link \<Rightarrow> bool"
where
  "shared_ok R H out0 v0 es m \<longleftrightarrow> shared_idle R H out0 v0 es m \<or> shared_busy R H out0 v0 es m"

text \<open>In such a connection every write that is outstanding can complete.\<close>

lemma ok_server_transfer:
  assumes "shared_ok R H out0 v0 es m" and "pending (server_end m) = [x]"
  shows "is_transfer x"
  using assms
  by (auto simp: shared_ok_def shared_idle_def waiting_def ready_def
      elim!: shared_busy.cases hearingE replyingE)

lemma ok_server_writes:
  assumes "shared_ok R H out0 v0 es m" and p: "pending (server_end m) = [x]" and "is_write x"
  obtains s where "deliver B (server_session B H) 0 Success [] (server_end m) = Inr s"
proof (cases x)
  case (Op_Write_Header bs)
  with assms obtain r t j where "replying r t j (server_end m)"
    by (auto simp: shared_ok_def shared_idle_def waiting_def ready_def elim!: shared_busy.cases hearingE)
  then have "pending (server_end m) = [Op_Write_Header (header_buffer (message_of r))]" "framed (write_buffer (server_end m))"
    using p Op_Write_Header by (auto simp: waiting_def ready_def elim!: replyingE)
  from server_response_header [OF this, of B H] that show thesis by metis
next
  case (Op_Write_Content bs)
  with p have "pending (server_end m) = [Op_Write_Content bs]" by simp
  from server_response_content [OF this, of B H] that show thesis by metis
qed (use assms(3) in simp_all)

lemma ok_client_writes:
  assumes "shared_ok R H out0 v0 es m" and p: "pending (client_end m) = [x]" and "is_write x"
  obtains k where "deliver A (client_session A R) 0 Success [] (client_end m) = Inr k"
proof (cases x)
  case (Op_Write_Header bs)
  with assms obtain c r v pp q i where "asking c r v pp q i (client_end m)"
    by (auto simp: shared_ok_def shared_idle_def shared_asking_def elim!: shared_busy.cases)
  then have "pending (client_end m) = [Op_Write_Header (header_buffer (message_of c))]" "framed (write_buffer (client_end m))"
    using p Op_Write_Header by (auto elim!: askingE)
  from client_header_written [OF this, of A R] that show thesis by metis
next
  case (Op_Write_Content bs)
  with p have "pending (client_end m) = [Op_Write_Content bs]" by simp
  from client_content_written [OF this, of A R] that show thesis by metis
qed (use assms(3) in simp_all)

lemma client_write_world:
  assumes "deliver A (client_session A R) 0 Success [] k = Inr k'" and "pending k = [x]" and "is_write x"
  shows "world k' = world k"
  using assms
  by (cases x) (auto simp: deliver_single client_completed_defs client_on_write_header_def
      client_on_write_content_def do_defs Let_def bind_result_conv)

lemma calls_write: "pending (server_end l) = [x] \<Longrightarrow> is_write x \<Longrightarrow> handler_calls l l' = []"
  by (rule handler_calls_none(2)) auto

subsection \<open>Steps of the client\<close>

lemma follows_transfer:
  assumes "follows g cu su l m" and "j < length (pending (client_end (net l)))"
    and "is_transfer (pending (client_end (net l)) ! j)"
  shows "cu" and "shadows g (client_end (net l)) (client_end m)"
proof -
  have "\<not> only_control (client_end (net l))"
    using assms(2,3) control_no_transfer by (auto simp: only_control_def list_all_length)
  with assms(1) show "cu" "shadows g (client_end (net l)) (client_end m)"
    by (auto simp: follows_def split: if_splits)
qed

lemma follows_client_writes:
  assumes f: "follows g cu su l m" and run: "shared_run A R B H m0 es m" and R: "sees_only g R"
    and j: "j < length (pending (client_end (net l)))" and x: "pending (client_end (net l)) ! j = x" "is_write x"
    and step: "deliver A (client_session A R) j Success [] (client_end (net l)) = Inr k"
  shows "\<exists>m'. shared_run A R B H m0 es m' \<and>
    follows g cu su (l\<lparr>net := (net l)\<lparr>client_end := k, to_server := to_server (net l) @ op_bytes x\<rparr>\<rparr>) m'"
proof -
  have tr: "is_transfer x" using x(2) by (rule write_transfer)
  note up = follows_transfer [OF f j, unfolded x(1), OF tr]
  obtain k' where k': "pending (client_end m) = [x]"
    "deliver A (client_session A R) 0 Success [] (client_end m) = Inr k'" "shadows g k k'"
    by (rule shadow_transfer [OF up(2) j x(1) tr step R])
  let ?m = "m\<lparr>client_end := k', to_server := to_server m @ op_bytes x\<rparr>"
  have "shared_run A R B H m0 (es @ handler_calls m ?m) ?m"
    by (rule shared_completes [OF run]) (rule client_writes [OF k'(1) x(2) k'(2)])
  moreover have "follows g cu su (l\<lparr>net := (net l)\<lparr>client_end := k, to_server := to_server (net l) @ op_bytes x\<rparr>\<rparr>) ?m"
    using f up(1) k'(3) by (auto simp: follows_def)
  ultimately show ?thesis by (intro exI [of _ ?m]) (simp add: handler_calls_none(1))
qed

lemma follows_client_reads:
  assumes f: "follows g cu su l m" and run: "shared_run A R B H m0 es m" and R: "sees_only g R"
    and j: "j < length (pending (client_end (net l)))" and x: "pending (client_end (net l)) ! j = x" "read_size x = Some n"
    and n: "n \<le> length (to_client (net l))"
    and step: "deliver A (client_session A R) j Success (take n (to_client (net l))) (client_end (net l)) = Inr k"
  shows "\<exists>m'. shared_run A R B H m0 es m' \<and>
    follows g cu su (l\<lparr>net := (net l)\<lparr>client_end := k, to_client := drop n (to_client (net l))\<rparr>\<rparr>) m'"
proof -
  have tr: "is_transfer x" using x(2) by (rule read_transfer)
  note up = follows_transfer [OF f j, unfolded x(1), OF tr]
  obtain k' where k': "pending (client_end m) = [x]"
    "deliver A (client_session A R) 0 Success (take n (to_client (net l))) (client_end m) = Inr k'" "shadows g k k'"
    by (rule shadow_transfer [OF up(2) j x(1) tr step R])
  obtain y where y: "to_client m = to_client (net l) @ y" "su \<longrightarrow> y = []"
    using f up(1) by (auto simp: follows_def)
  then have ch: "take n (to_client m) = take n (to_client (net l))" "n \<le> length (to_client m)"
    "drop n (to_client m) = drop n (to_client (net l)) @ y"
    using n by simp_all
  let ?m = "m\<lparr>client_end := k', to_client := drop n (to_client m)\<rparr>"
  have "shared_run A R B H m0 (es @ handler_calls m ?m) ?m"
    by (rule shared_completes [OF run]) (rule client_reads [OF k'(1) x(2) ch(2)], use k'(2) ch(1) in simp)
  moreover have "follows g cu su (l\<lparr>net := (net l)\<lparr>client_end := k, to_client := drop n (to_client (net l))\<rparr>\<rparr>) ?m"
    using f up(1) k'(3) y ch(3) by (auto simp: follows_def)
  ultimately show ?thesis by (intro exI [of _ ?m]) (simp add: handler_calls_none(1))
qed

text \<open>A write of the client that fails completes in the other connection.\<close>

lemma follows_client_fails:
  fixes i :: nat
  assumes f: "follows g cu su l m" and run: "shared_run A R B H m0 es m" and ok: "shared_ok R H out0 v0 es m"
    and keep: "socket_calls_keep A g"
    and j: "j < length (pending (client_end (net l)))" and x: "pending (client_end (net l)) ! j = x" "is_transfer x"
    and ec: "ec \<noteq> Success" and step: "deliver A (client_session A R) j ec d (client_end (net l)) = Inr k"
  shows "\<exists>m'. shared_run A R B H m0 es m' \<and>
    follows g False su (l\<lparr>net := (net l)\<lparr>client_end := k, to_server := to_server (net l) @ take i (op_bytes x)\<rparr>,
      client_up := False\<rparr>) m'"
proof -
  note up = follows_transfer [OF f j, unfolded x(1), OF x(2)]
  have p: "pending (client_end m) = [x]"
    using up(2) filter_without_single(1) [OF j, of is_transfer] x by (simp add: shadows_def)
  have k: "only_control k" "g (world k) = g (world (client_end m))"
    using failed_control [OF up(2) j x ec keep step] up(2) by (simp_all add: shadows_def)
  have "\<exists>m'. shared_run A R B H m0 es m' \<and> world (client_end m') = world (client_end m) \<and> asked m' = asked m \<and>
    server_end m' = server_end m \<and> to_server m' = to_server m @ op_bytes x"
  proof (cases "is_write x")
    case True
    obtain k' where k': "deliver A (client_session A R) 0 Success [] (client_end m) = Inr k'"
      by (rule ok_client_writes [OF ok p True])
    let ?m = "m\<lparr>client_end := k', to_server := to_server m @ op_bytes x\<rparr>"
    have "shared_run A R B H m0 (es @ handler_calls m ?m) ?m"
      by (rule shared_completes [OF run]) (rule client_writes [OF p True k'])
    then show ?thesis using client_write_world [OF k' p True] by (intro exI [of _ ?m]) (simp add: handler_calls_none(1))
  next
    case False
    then have "op_bytes x = []" using x(2) by (cases x) simp_all
    with run show ?thesis by auto
  qed
  then obtain m' where m': "shared_run A R B H m0 es m'" "world (client_end m') = world (client_end m)"
    "asked m' = asked m" "server_end m' = server_end m" "to_server m' = to_server m @ op_bytes x" by blast
  have "\<exists>z. to_server m' = (to_server (net l) @ take i (op_bytes x)) @ z" if su
  proof -
    have "to_server m = to_server (net l)" using f that up(1) by (auto simp: follows_def)
    then show ?thesis using m'(5) by (intro exI [of _ "drop i (op_bytes x)"]) simp
  qed
  then have "follows g False su (l\<lparr>net := (net l)\<lparr>client_end := k, to_server := to_server (net l) @ take i (op_bytes x)\<rparr>,
      client_up := False\<rparr>) m'"
    using f k m'(2-4) by (auto simp: follows_def)
  with m'(1) show ?thesis by blast
qed

lemma follows_client_ends:
  assumes f: "follows g cu su l m" and keep: "socket_calls_keep A g"
    and j: "j < length (pending (client_end (net l)))" and x: "\<not> is_transfer (pending (client_end (net l)) ! j)"
    and step: "deliver A (client_session A R) j ec [] (client_end (net l)) = Inr k"
  shows "follows g cu su (l\<lparr>net := (net l)\<lparr>client_end := k\<rparr>, client_up := client_up l \<and> b\<rparr>) m"
proof -
  have "is_control (pending (client_end (net l)) ! j)"
    using f j x by (auto simp: follows_def shadows_def only_control_def list_all_length split: if_splits)
  from control_completed [OF step j this keep]
  have p: "pending k = without j (pending (client_end (net l)))" and like: "alike g k (client_end (net l))" by simp_all
  have "filter is_transfer (pending k) = filter is_transfer (pending (client_end (net l)))"
    using filter_without [OF j, of is_transfer] x by (simp add: p)
  moreover have "list_all P (pending k)" if "list_all P (pending (client_end (net l)))" for P
    using that unfolding p by (rule list_all_without)
  ultimately have "if cu then shadows g k (client_end m)
      else only_control k \<and> g (world k) = g (world (client_end m))"
    using f like by (auto simp: follows_def shadows_def only_control_def alike_def)
  with f show ?thesis by (simp add: follows_def)
qed

lemma follows_stop:
  assumes "follows g cu su l m" and "socket_calls_keep A g"
  shows "follows g cu su (l\<lparr>net := (net l)\<lparr>client_end := stop A (client_end (net l))\<rparr>, client_up := False\<rparr>) m"
proof -
  have "if cu then shadows g (stop A (client_end (net l))) (client_end m)
      else only_control (stop A (client_end (net l))) \<and>
        g (world (stop A (client_end (net l)))) = g (world (client_end m))"
    using assms(1) shadows_stop [OF assms(2)]
    by (auto simp: follows_def only_control_def socket_calls_keepD [OF assms(2)])
  with assms(1) show ?thesis by (simp add: follows_def socket_calls_keepD [OF assms(2)])
qed

lemma follows_send:
  assumes f: "follows g cu su l m" and run: "shared_run A R B H m0 es m"
    and "client_up l" and "pending (client_end (net l)) = []" and "fits (content_buffer c)"
  shows "shared_run A R B H m0 es (link_send c m) \<and> follows g cu su (l\<lparr>net := link_send c (net l)\<rparr>) (link_send c m)"
proof -
  have cu: cu "shadows g (client_end (net l)) (client_end m)"
    using f assms(3) by (auto simp: follows_def)
  then have "pending (client_end m) = []" using assms(4) by (simp add: shadows_def)
  with run assms(5) have "shared_run A R B H m0 es (link_send c m)" by (intro shared_sends)
  moreover have "follows g cu su (l\<lparr>net := link_send c (net l)\<rparr>) (link_send c m)"
    using f cu shadows_send [OF cu(2) assms(4)] by (simp add: follows_def link_send_def)
  ultimately show ?thesis ..
qed

subsection \<open>Steps of the server\<close>

lemma follows_up: "follows g cu su l m \<Longrightarrow> pending (server_end (net l)) = [x] \<Longrightarrow> is_transfer x \<Longrightarrow>
    su \<and> same (server_end (net l)) (server_end m) \<and> pending (server_end m) = [x]"
  by (auto simp: follows_def same_def dest: dead_no_transfer split: if_splits)

text \<open>After a transfer a session is past its handshake.\<close>

lemma transfer_past_handshake:
  assumes "deliver B (server_session B H) 0 Success d s = Inr s'" and "pending s = [x]" and "is_transfer x"
  shows "past_handshake s' = s'"
  using assms
  by (cases x) (auto simp: deliver_single completed_defs server_on_read_header_def server_on_read_content_def
      server_on_write_header_def server_on_write_content_def past_handshake_def Let_def bind_result_conv do_defs
      split: prod.splits)

lemma follows_server_writes:
  assumes f: "follows g cu su l m" and run: "shared_run A R B H m0 es m"
    and x: "pending (server_end (net l)) = [x]" "is_write x"
    and step: "deliver B (server_session B H) 0 Success [] (server_end (net l)) = Inr s"
  shows "\<exists>m'. shared_run A R B H m0 es m' \<and>
    follows g cu su (l\<lparr>net := (net l)\<lparr>server_end := s, to_client := to_client (net l) @ op_bytes x\<rparr>\<rparr>) m'"
proof -
  have tr: "is_transfer x" using x(2) by (rule write_transfer)
  have up: su "same (server_end (net l)) (server_end m)" "pending (server_end m) = [x]"
    using follows_up [OF f x(1) tr] by simp_all
  obtain s' where s': "deliver B (server_session B H) 0 Success [] (server_end m) = Inr s'" "same s s'"
    by (rule server_transfer_same [OF up(2) x(1) tr step])
  let ?m = "m\<lparr>server_end := s', to_client := to_client m @ op_bytes x\<rparr>"
  have "shared_run A R B H m0 (es @ handler_calls m ?m) ?m"
    by (rule shared_completes [OF run]) (rule server_writes [OF up(3) x(2) s'(1)])
  moreover have "follows g cu su (l\<lparr>net := (net l)\<lparr>server_end := s, to_client := to_client (net l) @ op_bytes x\<rparr>\<rparr>) ?m"
    using f up(1) s'(2) transfer_past_handshake [OF step x(1) tr] by (auto simp: follows_def)
  ultimately show ?thesis using calls_write [OF up(3) x(2), of ?m] by (intro exI [of _ ?m]) simp
qed

lemma follows_server_reads:
  assumes f: "follows g cu su l m" and run: "shared_run A R B H m0 es m"
    and x: "pending (server_end (net l)) = [x]" "read_size x = Some n" and n: "n \<le> length (to_server (net l))"
    and step: "deliver B (server_session B H) 0 Success (take n (to_server (net l))) (server_end (net l)) = Inr s"
  defines "l' \<equiv> l\<lparr>net := (net l)\<lparr>server_end := s, to_server := drop n (to_server (net l))\<rparr>\<rparr>"
  shows "\<exists>m'. shared_run A R B H m0 (es @ handler_calls (net l) (net l')) m' \<and> follows g cu su l' m'"
proof -
  have tr: "is_transfer x" using x(2) by (rule read_transfer)
  have up: su "same (server_end (net l)) (server_end m)" "pending (server_end m) = [x]"
    using follows_up [OF f x(1) tr] by simp_all
  obtain s' where s': "deliver B (server_session B H) 0 Success (take n (to_server (net l))) (server_end m) = Inr s'"
    "same s s'"
    by (rule server_transfer_same [OF up(2) x(1) tr step])
  obtain y where y: "to_server m = to_server (net l) @ y" "cu \<longrightarrow> y = []"
    using f up(1) by (auto simp: follows_def)
  then have ch: "take n (to_server m) = take n (to_server (net l))" "n \<le> length (to_server m)"
    "drop n (to_server m) = drop n (to_server (net l)) @ y"
    using n by simp_all
  let ?m = "m\<lparr>server_end := s', to_server := drop n (to_server m)\<rparr>"
  have "shared_run A R B H m0 (es @ handler_calls m ?m) ?m"
    by (rule shared_completes [OF run]) (rule server_reads [OF up(3) x(2) ch(2)], use s'(1) ch(1) in simp)
  moreover have "handler_calls m ?m = handler_calls (net l) (net l')"
    using ch(1) x up(2,3) s'(2)
    by (cases x) (simp_all add: same_def handler_calls_def l'_def split: list.split async_op.split)
  moreover have "follows g cu su l' ?m"
    using f up(1) y ch(3) s'(2) transfer_past_handshake [OF step x(1) tr] by (auto simp: follows_def l'_def)
  ultimately show ?thesis by (intro exI [of _ ?m]) simp
qed

text \<open>A write of the server that fails completes in the other connection.\<close>

lemma follows_server_fails:
  fixes i :: nat
  assumes f: "follows g cu su l m" and run: "shared_run A R B H m0 es m" and ok: "shared_ok R H out0 v0 es m"
    and x: "pending (server_end (net l)) = [x]" "is_transfer x"
    and ec: "ec \<noteq> Success" and step: "deliver B (server_session B H) 0 ec d (server_end (net l)) = Inr s"
  shows "\<exists>m'. shared_run A R B H m0 es m' \<and>
    follows g cu False (l\<lparr>net := (net l)\<lparr>server_end := s, to_client := to_client (net l) @ take i (op_bytes x)\<rparr>,
      server_up := False\<rparr>) m'"
proof -
  have up: su "pending (server_end m) = [x]" using follows_up [OF f x] by simp_all
  have "socket_calls_keep B (\<lambda>_. ())" by (simp add: socket_calls_keep_def)
  from failed_dead [OF x ec this step] have dead: "dead s" by simp
  have "\<exists>m'. shared_run A R B H m0 es m' \<and> client_end m' = client_end m \<and> asked m' = asked m \<and>
    to_client m' = to_client m @ op_bytes x"
  proof (cases "is_write x")
    case True
    obtain t where t: "deliver B (server_session B H) 0 Success [] (server_end m) = Inr t"
      by (rule ok_server_writes [OF ok up(2) True])
    let ?m = "m\<lparr>server_end := t, to_client := to_client m @ op_bytes x\<rparr>"
    have "shared_run A R B H m0 (es @ handler_calls m ?m) ?m"
      by (rule shared_completes [OF run]) (rule server_writes [OF up(2) True t])
    then show ?thesis using calls_write [OF up(2) True, of ?m] by (intro exI [of _ ?m]) simp
  next
    case False
    then have "op_bytes x = []" using x(2) by (cases x) simp_all
    with run show ?thesis by auto
  qed
  then obtain m' where m': "shared_run A R B H m0 es m'" "client_end m' = client_end m" "asked m' = asked m"
    "to_client m' = to_client m @ op_bytes x" by blast
  have "\<exists>z. to_client m' = (to_client (net l) @ take i (op_bytes x)) @ z" if cu
  proof -
    have "to_client m = to_client (net l)" using f that up(1) by (auto simp: follows_def)
    then show ?thesis using m'(4) by (intro exI [of _ "drop i (op_bytes x)"]) simp
  qed
  then have "follows g cu False (l\<lparr>net := (net l)\<lparr>server_end := s, to_client := to_client (net l) @ take i (op_bytes x)\<rparr>,
      server_up := False\<rparr>) m'"
    using f dead m'(2,3) by (auto simp: follows_def split: if_splits)
  with m'(1) show ?thesis by blast
qed

text \<open>The other connection is past the handshake already, and does not shut down.\<close>

lemma follows_server_ends:
  assumes f: "follows g cu su l m" and ok: "shared_ok R H out0 v0 es m"
    and x: "pending (server_end (net l)) = [x]" "\<not> is_transfer x"
    and step: "deliver B (server_session B H) 0 ec [] (server_end (net l)) = Inr s"
  shows "\<exists>su'. follows g cu su' (l\<lparr>net := (net l)\<lparr>server_end := s\<rparr>, server_up := server_up l \<and> ec = Success\<rparr>) m"
proof (cases "su \<and> x = Op_Handshake Handshake_Server")
  case True
  with x step consider "past_handshake s = s" "same (past_handshake (server_end (net l))) s" | "dead s" "ec \<noteq> Success"
    using server_handshake_completed [of "server_end (net l)" B H ec s] by blast
  then show ?thesis
  proof cases
    case 1
    with f True have "follows g cu True (l\<lparr>net := (net l)\<lparr>server_end := s\<rparr>, server_up := server_up l \<and> ec = Success\<rparr>) m"
      by (auto simp: follows_def same_def)
    then show ?thesis ..
  next
    case 2
    with f have "follows g cu False (l\<lparr>net := (net l)\<lparr>server_end := s\<rparr>, server_up := server_up l \<and> ec = Success\<rparr>) m"
      by (auto simp: follows_def)
    then show ?thesis ..
  qed
next
  case False
  have "\<not> su"
  proof
    assume su
    with False x(1) have "past_handshake (server_end (net l)) = server_end (net l)" by (simp add: past_handshake_def)
    with f \<open>su\<close> x(1) have "pending (server_end m) = [x]" by (simp add: follows_def same_def)
    with ok_server_transfer [OF ok] x(2) show False by simp
  qed
  with f have "dead (server_end (net l))" by (simp add: follows_def)
  have "socket_calls_keep B (\<lambda>_. ())" by (simp add: socket_calls_keep_def)
  from dead_server_step [OF \<open>dead (server_end (net l))\<close> x(1) this step] f \<open>\<not> su\<close>
  have "follows g cu False (l\<lparr>net := (net l)\<lparr>server_end := s\<rparr>, server_up := server_up l \<and> ec = Success\<rparr>) m" by (simp add: follows_def)
  then show ?thesis ..
qed

subsection \<open>What a failing connection has done\<close>

lemma handler_calls_client [simp]:
  "handler_calls l (l\<lparr>client_end := k\<rparr>) = []" "handler_calls l (link_send c l) = []"
  "handler_calls l (l\<lparr>client_end := k, to_server := u\<rparr>) = []"
  "handler_calls l (l\<lparr>client_end := k, to_client := t\<rparr>) = []"
  by (simp_all add: handler_calls_none(1) link_send_def)

lemma calls_failed:
  assumes "pending (server_end l) = [x]" and "is_transfer x" and "ec \<noteq> Success"
    and "deliver B (server_session B H) 0 ec d (server_end l) = Inr s" and "server_end l' = s"
  shows "handler_calls l l' = []"
proof -
  have "socket_calls_keep B (\<lambda>_. ())" by (simp add: socket_calls_keep_def)
  from failed_dead [OF assms(1-3) this assms(4)] have "dead s" by simp
  with assms(5) show ?thesis
    by (auto simp: handler_calls_def dead_def split: list.split async_op.split)
qed

lemma follows_step:
  assumes "abrupt_step A R B H l l'" and f: "follows g cu su l m"
    and run: "shared_run A R B H m0 es m" and ok: "shared_ok R H out0 v0 es m"
    and keep: "socket_calls_keep A g" and R: "sees_only g R"
  shows "\<exists>cu' su' m'. shared_run A R B H m0 (es @ handler_calls (net l) (net l')) m' \<and> follows g cu' su' l' m'"
  using assms(1)
proof cases
  case (abrupt_send c)
  from follows_send [OF f run abrupt_send(2-4)] show ?thesis unfolding abrupt_send(1) by auto
next
  case abrupt_stop
  from follows_stop [OF f keep] run show ?thesis unfolding abrupt_stop(1) by auto
next
  case (abrupt_client_writes j x k)
  from follows_client_writes [OF f run R abrupt_client_writes(2-5)]
  show ?thesis unfolding abrupt_client_writes(1) by auto
next
  case (abrupt_client_reads j x n k)
  from follows_client_reads [OF f run R abrupt_client_reads(2-6)]
  show ?thesis unfolding abrupt_client_reads(1) by auto
next
  case (abrupt_client_fails j x ec d k i)
  from follows_client_fails [OF f run ok keep abrupt_client_fails(2-5,7), of i]
  show ?thesis unfolding abrupt_client_fails(1) by auto
next
  case (abrupt_client_ends j ec k)
  from follows_client_ends [OF f keep abrupt_client_ends(2-4)] run
  show ?thesis unfolding abrupt_client_ends(1) by auto
next
  case (abrupt_server_writes x s)
  from follows_server_writes [OF f run abrupt_server_writes(2-4)]
    calls_write [OF abrupt_server_writes(2,3), of "net l'"]
  show ?thesis unfolding abrupt_server_writes(1) by auto
next
  case (abrupt_server_reads x n s)
  from follows_server_reads [OF f run abrupt_server_reads(2-5)]
  show ?thesis unfolding abrupt_server_reads(1) by blast
next
  case (abrupt_server_fails x ec d s i)
  from follows_server_fails [OF f run ok abrupt_server_fails(2-4,6), of i]
    calls_failed [OF abrupt_server_fails(2-4,6), of "net l'"]
  show ?thesis unfolding abrupt_server_fails(1) by auto
next
  case (abrupt_server_ends x ec s)
  have "handler_calls (net l) (net l') = []"
    using abrupt_server_ends(2,3) by (intro handler_calls_none(2)) auto
  with follows_server_ends [OF f ok abrupt_server_ends(2-4)] run
  show ?thesis unfolding abrupt_server_ends(1) by auto
qed

lemma dead_world [simp]: "dead (s\<lparr>world := w\<rparr>) = dead s"
  by (simp add: dead_def)

lemma follows_others:
  assumes "follows g cu su l m" and "shared_run A R B H m0 es m"
  shows "\<exists>m'. shared_run A R B H m0 es m' \<and>
    follows g cu su (l\<lparr>net := (net l)\<lparr>server_end := (server_end (net l))\<lparr>world := w\<rparr>\<rparr>\<rparr>) m'"
proof -
  let ?m = "m\<lparr>server_end := (server_end m)\<lparr>world := w\<rparr>\<rparr>"
  have "follows g cu su (l\<lparr>net := (net l)\<lparr>server_end := (server_end (net l))\<lparr>world := w\<rparr>\<rparr>\<rparr>) ?m"
    using assms(1) same_world by (auto simp: follows_def)
  with shared_others [OF assms(2)] show ?thesis by blast
qed

context fitting_handler
begin

lemma flaky_run_follows:
  assumes "flaky_run A R B H l0 es l" and "flaky_start l0" and "socket_calls_keep A g" and "sees_only g R"
  shows "\<exists>cu su m. shared_run A R B H (link_opened (net l0)) es m \<and> follows g cu su l m"
  using assms(1)
proof (induction rule: flaky_run.induct)
  case flaky_refl
  have "follows g True True l0 (link_opened (net l0))"
    using assms(2) by (simp add: follows_def flaky_start_def link_opened_def shadows_control)
  with shared_refl show ?case by blast
next
  case (flaky_steps es l l')
  then obtain cu su m where m: "shared_run A R B H (link_opened (net l0)) es m" "follows g cu su l m" by blast
  have "shared_ok R H (write_buffer (server_end (link_opened (net l0)))) (world (client_end (link_opened (net l0)))) es m"
    unfolding shared_ok_def by (rule shared_run_inv [OF m(1) link_opened_start [OF assms(2)]])
  from follows_step [OF flaky_steps.hyps(2) m(2,1) this assms(3,4)] show ?case .
next
  case (flaky_others es l w)
  then obtain cu su m where "shared_run A R B H (link_opened (net l0)) es m" "follows g cu su l m" by blast
  from follows_others [OF this(2,1), of w] show ?case by blast
qed

text \<open>
  The requests handled are a beginning of those asked, and the answers told one of those given; of a
  client that is quiet and has neither failed nor been stopped, all of them.
\<close>

lemma flaky_run_told:
  assumes "flaky_run A R B H l0 es l" and "flaky_start l0" and "socket_calls_keep A g" and "sees_only g R"
  defines "rs \<equiv> replies H (write_buffer (server_end (net l0))) es"
  shows "length (asked (net l)) \<le> Suc (length es) \<and> map fst es = take (length es) (asked (net l)) \<and>
    (\<exists>j. j \<le> length es \<and> length (asked (net l)) \<le> Suc j \<and>
       (client_up l \<and> pending (client_end (net l)) = [] \<longrightarrow> j = length (asked (net l))) \<and>
       g (world (client_end (net l))) = g (told R (take j rs) (world (client_end (net l0)))))"
proof -
  obtain cu su m where run: "shared_run A R B H (link_opened (net l0)) es m" and f: "follows g cu su l m"
    using flaky_run_follows [OF assms(1-4)] by blast
  let ?out = "write_buffer (server_end (net l0))" and ?v = "world (client_end (net l0))"
  have asked: "asked m = asked (net l)" and w: "g (world (client_end (net l))) = g (world (client_end m))"
    and quiet: "client_up l \<Longrightarrow> pending (client_end (net l)) = [] \<Longrightarrow> pending (client_end m) = []"
    using f by (auto simp: follows_def shadows_def split: if_splits)
  have len: "length (replies H out fs) = length fs" for out fs
    by (induction H out fs rule: replies.induct) auto
  have "write_buffer (server_end (link_opened (net l0))) = ?out" "world (client_end (link_opened (net l0))) = ?v"
    by (simp_all add: link_opened_def)
  with shared_run_inv [OF run link_opened_start [OF assms(2)]]
  have "shared_idle R H ?out ?v es m \<or> shared_busy R H ?out ?v es m" by simp
  then show ?thesis
  proof
    assume "shared_idle R H ?out ?v es m"
    then have i: "map fst es = asked m" "world (client_end m) = told R rs ?v" by (simp_all add: shared_idle_def rs_def)
    then have "length es = length (asked m)" by (metis length_map)
    with i w asked len [of ?out es] show ?thesis by (intro conjI exI [of _ "length es"]) (simp_all add: rs_def)
  next
    assume busy: "shared_busy R H ?out ?v es m"
    then have "pending (client_end m) \<noteq> []"
      by (cases rule: shared_busy.cases) (auto simp: shared_asking_def dest: asking_busy)
    with quiet have q: "\<not> (client_up l \<and> pending (client_end (net l)) = [])" by blast
    from busy show ?thesis
    proof (cases rule: shared_busy.cases)
      case (not_called c r u j)
      then have "asked m = map fst es @ [c]" "world (client_end m) = told R rs ?v"
        by (auto simp: shared_asking_def rs_def dest: asking_transfer)
      with w q asked len [of ?out es] show ?thesis
        by (intro conjI exI [of _ "length es"]) (simp_all add: rs_def flip: asked)
    next
      case (called fs c r t w1 j)
      then have "asked m = map fst fs @ [c]" "world (client_end m) = told R (replies H ?out fs) ?v"
        by (auto simp: shared_asking_def dest: asking_transfer)
      with w q asked called(1) len [of ?out fs] show ?thesis
        by (intro conjI exI [of _ "length fs"]) (simp_all add: rs_def replies_snoc flip: asked)
    qed
  qed
qed

end

end
