(* ===== verification/Steady_Link.thy ===== *)
theory Steady_Link
  imports Flaky_Link
begin

section \<open>The end of every exchange that does not fail\<close>

text \<open>
  From every state of a connection of \<open>Flaky_Link\<close> neither end of which has failed or been stopped, the
  connection alone can bring the exchange to its end: what is left of the handshakes completes, then each
  end does what it does in a connection that does not fail, where every completion leaves fewer to come.
\<close>

subsection \<open>The completions left of an exchange\<close>

text \<open>The two ends as in \<open>Shared_Link\<close>, without the history, with \<open>n\<close> completions to come.\<close>

definition exchange :: "nat \<Rightarrow> ('v, 'w) link \<Rightarrow> bool" where
  "exchange n l \<longleftrightarrow> (\<exists>c r v p q i u t j out. fits c \<and> fits r \<and> asking c r v p q i (client_end l) \<and>
     to_server l @ p = u \<and> to_client l @ t = q \<and> n = i + j \<and>
     (hearing c out u j (server_end l) \<and> t = encode r \<or> replying r t j (server_end l) \<and> u = []))"

lemma exchangeE:
  assumes "exchange n l"
  obtains (hears) c r v p i j out where "fits c" and "fits r" and "asking c r v p (encode r) i (client_end l)"
      and "hearing c out (to_server l @ p) j (server_end l)" and "to_client l = []" and "n = i + j"
    | (replies) c r v t i j where "fits c" and "fits r" and "asking c r v [] (to_client l @ t) i (client_end l)"
      and "replying r t j (server_end l)" and "to_server l = []" and "n = i + j"
proof -
  from assms obtain c r v p q i u t j out where a: "fits c" "fits r" "asking c r v p q i (client_end l)"
    "to_server l @ p = u" "to_client l @ t = q" "n = i + j"
    and s: "hearing c out u j (server_end l) \<and> t = encode r \<or> replying r t j (server_end l) \<and> u = []"
    unfolding exchange_def by blast
  from s show thesis
  proof
    assume h: "hearing c out u j (server_end l) \<and> t = encode r"
    with a(5) have "to_client l @ encode r = q" by simp
    moreover have "q = encode r \<or> q = r" using asking_expects [OF a(3)] .
    ultimately have "q = encode r" "to_client l = []" using encode_not_suffix by auto
    with a h show thesis by (auto intro: hears [where out = out and p = p and j = j and i = i])
  next
    assume h: "replying r t j (server_end l) \<and> u = []"
    with a show thesis by (auto intro: replies [where t = t and j = j and i = i])
  qed
qed

lemma exchange_hears:
  "fits c \<Longrightarrow> fits r \<Longrightarrow> asking c r v p (encode r) i (client_end l) \<Longrightarrow>
   hearing c out (to_server l @ p) j (server_end l) \<Longrightarrow> to_client l = [] \<Longrightarrow> exchange (i + j) l"
  unfolding exchange_def by (intro exI conjI) auto

lemma exchange_replies:
  "fits c \<Longrightarrow> fits r \<Longrightarrow> asking c r v [] (to_client l @ t) i (client_end l) \<Longrightarrow>
   replying r t j (server_end l) \<Longrightarrow> to_server l = [] \<Longrightarrow> exchange (i + j) l"
  unfolding exchange_def by (intro exI conjI) auto

lemma busy_exchange:
  assumes "shared_busy R H out0 v0 es l"
  shows "\<exists>n. exchange n l"
  using assms
  by (cases rule: shared_busy.cases) (auto simp: shared_asking_def exchange_def; blast)+

lemma exchange_can_go_on:
  assumes "exchange n l"
  shows "\<exists>l'. link_completion A R B H l l'"
  using assms
proof (cases rule: exchangeE)
  case (hears c r v p i j out)
  have "serving c r out (world (server_end l)) w1 (to_server l @ p) (encode r) j (server_end l)" for w1
    using hears(4) by (simp add: serving_def)
  with hears show ?thesis by (blast intro: exchange_progress)
next
  case (replies c r v t i j)
  have "serving c r out w0 (world (server_end l)) [] t j (server_end l)" for out w0
    using replies(4) by (simp add: serving_def)
  moreover have "to_server l @ [] = []" using replies(5) by simp
  ultimately show ?thesis using replies(1-3) by (blast intro: exchange_progress)
qed

lemma link_completion_asked: "link_completion A R B H l l' \<Longrightarrow> asked l' = asked l"
  by (erule link_completion.cases) simp_all

context fitting_handler
begin

lemma hearing_shrinks:
  assumes "link_completion A R B H l l'" and hears: "fits c" "fits r" "asking c r v p (encode r) i (client_end l)"
    "hearing c out (to_server l @ p) j (server_end l)" "to_client l = []"
  shows "\<exists>k < i + j. exchange k l'"
  using assms(1)
proof cases
  case (client_writes x k)
  from asking_write [OF hears(3) client_writes(2-4)] obtain p' i' where
    "asking c r v p' (encode r) i' k" "p = op_bytes x @ p'" "i = Suc i'" by blast
  with hears client_writes(1) exchange_hears [of c r v p' i' l' out j] show ?thesis by auto
next
  case (client_reads x m k)
  then have "m = 0" using hears(5) by simp
  with client_reads(2,3) hears(3) have "x = Op_Read_Header 28 \<or> encode r = r"
    by (auto elim!: askingE)
  with client_reads(3) \<open>m = 0\<close> encode_not_suffix [of "[]" r] show ?thesis by auto
next
  case (server_writes x s)
  from hearing_write [OF hears(4) server_writes(2-4)] obtain j' where
    "op_bytes x = []" "hearing c out (to_server l @ p) j' s" "j = Suc j'" by blast
  with hears server_writes(1) exchange_hears [of c r v p i l' out j'] show ?thesis by auto
next
  case (server_reads x m s)
  obtain response w1 where H: "H (message_of c) out (world (server_end l)) = (response, w1)" by fastforce
  from hearing_read [where H = H, OF hears(4) server_reads(2-4) refl hears(1) H server_reads(5)] show ?thesis
  proof (elim disjE conjE exE)
    fix u' j' assume "hearing c out u' j' s" "drop m (to_server l) @ p = u'" "j = Suc j'"
    with hears server_reads(1) exchange_hears [of c r v p i l' out j'] show ?thesis by auto
  next
    fix j' assume s: "drop m (to_server l) = []" "p = []" "j = Suc j'"
      and rep: "replying (content_buffer response) (encode (content_buffer response)) j' s"
    have "fits (content_buffer response)" using response_fits [of "message_of c" out "world (server_end l)"] hears(1) H by simp
    moreover have "asking c (content_buffer response) v [] (encode (content_buffer response)) i (client_end l)"
      using asking_rechoose [OF hears(3) refl] s(2) by simp
    ultimately show ?thesis
      using hears s rep server_reads(1)
        exchange_replies [of c "content_buffer response" v l' "encode (content_buffer response)" i j'] by auto
  qed
qed

lemma replying_shrinks:
  assumes "link_completion A R B H l l'" and replies: "fits c" "fits r" "asking c r v [] (to_client l @ t) i (client_end l)"
    "replying r t j (server_end l)" "to_server l = []"
  shows "pending (client_end l') = [] \<or> (\<exists>k < i + j. exchange k l')"
  using assms(1)
proof cases
  case (client_writes x k)
  from asking_write [OF replies(3) client_writes(2-4)] obtain p' i' where
    "asking c r v p' (to_client l @ t) i' k" "[] = op_bytes x @ p'" "i = Suc i'" by blast
  with replies client_writes(1) exchange_replies [of c r v l' t i' j] show ?thesis by auto
next
  case (client_reads x m k)
  from asking_read [OF replies(3) client_reads(2-4) refl replies(2) client_reads(5)] show ?thesis
  proof (elim conjE disjE exE)
    fix q' i' assume "asking c r v [] q' i' k" "drop m (to_client l) @ t = q'" "i = Suc i'"
    with replies client_reads(1) exchange_replies [of c r v l' t i' j] show ?thesis by auto
  qed (simp add: client_reads(1))
next
  case (server_writes x s)
  from replying_write [OF replies(4) server_writes(2-4)] obtain t' j' where
    "replying r t' j' s" "t = op_bytes x @ t'" "j = Suc j'" by blast
  with replies server_writes(1) exchange_replies [of c r v l' t' i j'] show ?thesis by auto
next
  case (server_reads x m s)
  with replying_no_read [OF replies(4) server_reads(2,3)] replies(5) show ?thesis by simp
qed

lemma exchange_shrinks:
  assumes "link_completion A R B H l l'" and "exchange n l"
  shows "pending (client_end l') = [] \<or> (\<exists>k < n. exchange k l')"
  using assms(2)
  by (cases rule: exchangeE) (auto dest: hearing_shrinks [OF assms(1)] replying_shrinks [OF assms(1)])

lemma exchange_ends:
  assumes "exchange n l"
  shows "\<exists>l'. (link_completion A R B H)\<^sup>*\<^sup>* l l' \<and> pending (client_end l') = []"
  using assms
proof (induction n arbitrary: l rule: less_induct)
  case (less n)
  from exchange_can_go_on [OF less.prems, of A R B H] obtain k where k: "link_completion A R B H l k" by blast
  from exchange_shrinks [OF this less.prems] show ?case
  proof
    assume "pending (client_end k) = []"
    with k show ?thesis by blast
  next
    assume "\<exists>i < n. exchange i k"
    with less.IH obtain l' where "(link_completion A R B H)\<^sup>*\<^sup>* k l'" "pending (client_end l') = []" by blast
    with k show ?thesis by (blast intro: converse_rtranclp_into_rtranclp)
  qed
qed

end

subsection \<open>Completions of the connection that succeed\<close>

text \<open>
  A step of the connection that is nothing but an outstanding operation of one of its ends completing
  successfully: a transfer, or an operation that carries no message, such as a handshake.
\<close>

inductive completes ::
  "'v asio \<Rightarrow> 'v response_handler \<Rightarrow> 'w asio \<Rightarrow> 'w request_handler \<Rightarrow>
   ('v, 'w) lossy \<Rightarrow> ('v, 'w) lossy \<Rightarrow> bool"
  for A R B H where
  completes_transfer: "link_completion A R B H (net l) m \<Longrightarrow> completes A R B H l (l\<lparr>net := m\<rparr>)"
| completes_client: "j < length (pending (client_end (net l))) \<Longrightarrow>
    \<not> is_transfer (pending (client_end (net l)) ! j) \<Longrightarrow>
    deliver A (client_session A R) j Success [] (client_end (net l)) = Inr k \<Longrightarrow>
    completes A R B H l (l\<lparr>net := (net l)\<lparr>client_end := k\<rparr>\<rparr>)"
| completes_server: "pending (server_end (net l)) = [x] \<Longrightarrow> \<not> is_transfer x \<Longrightarrow>
    deliver B (server_session B H) 0 Success [] (server_end (net l)) = Inr s \<Longrightarrow>
    completes A R B H l (l\<lparr>net := (net l)\<lparr>server_end := s\<rparr>\<rparr>)"

lemma completes_abrupt: "completes A R B H l l' \<Longrightarrow> abrupt_step A R B H l l'"
  by (erule completes.cases)
    (auto intro: abrupt_completion abrupt_client_handshakes abrupt_server_handshakes)

subsection \<open>Two connections that go on alike\<close>

text \<open>Neither client has anything outstanding the other has not.\<close>

definition twins :: "('v \<Rightarrow> 'y) \<Rightarrow> 'v session_st \<Rightarrow> 'v session_st \<Rightarrow> bool" where
  "twins g k k' \<longleftrightarrow> shadows g k k' \<and> shadows g k' k"

definition mirrors :: "('v \<Rightarrow> 'y) \<Rightarrow> ('v, 'w) lossy \<Rightarrow> ('v, 'w) link \<Rightarrow> bool" where
  "mirrors g l m \<longleftrightarrow> client_up l \<and> server_up l \<and> twins g (client_end m) (client_end (net l)) \<and>
     same (server_end m) (server_end (net l)) \<and> to_server (net l) = to_server m \<and>
     to_client (net l) = to_client m \<and> asked (net l) = asked m"

lemma twins_pending: "twins g k k' \<Longrightarrow> pending k' = pending k"
  unfolding twins_def shadows_def by (metis filter_id_conv length_filter_le length_filter_less linorder_not_le)

lemma twins_shadow: "shadows g k k' \<Longrightarrow> list_all is_transfer (pending k) \<Longrightarrow> twins g k' k"
  by (auto simp: twins_def shadows_def list_all_iff filter_id_conv)

lemma twin_transfer:
  assumes "twins g k k'" and "pending k = [x]" and "is_transfer x"
    and step: "deliver A (client_session A R) 0 Success d k = Inr t" and R: "sees_only g R"
  obtains t' where "pending k' = [x]" and "deliver A (client_session A R) 0 Success d k' = Inr t'" and "twins g t t'"
proof -
  have p: "pending k' = [x]" using twins_pending [OF assms(1)] assms(2) by simp
  have two: "shadows g k k'" "shadows g k' k" using assms(1) by (simp_all add: twins_def)
  obtain t' where t': "deliver A (client_session A R) 0 Success d k' = Inr t'" "shadows g t t'"
    using shadow_transfer [OF two(1) _ _ assms(3) step R] assms(2) by auto
  obtain t'' where "deliver A (client_session A R) 0 Success d k = Inr t''" "shadows g t' t''"
    using shadow_transfer [OF two(2) _ _ assms(3) t'(1) R] p by auto
  with step t'(2) have "twins g t t'" by (simp add: twins_def)
  with p t'(1) show thesis by (rule that)
qed

lemma mirrors_step:
  assumes "link_completion A R B H m m'" and f: "mirrors g l m" and R: "sees_only g R"
  shows "\<exists>l'. completes A R B H l l' \<and> mirrors g l' m'"
proof -
  have tw: "twins g (client_end m) (client_end (net l))" and sm: "same (server_end m) (server_end (net l))"
    and ch: "to_server (net l) = to_server m" "to_client (net l) = to_client m"
    using f by (simp_all add: mirrors_def)
  have p: "pending (server_end (net l)) = pending (server_end m)" using sm by (simp add: same_def)
  from assms(1) have "\<exists>n. link_completion A R B H (net l) n \<and> mirrors g (l\<lparr>net := n\<rparr>) m'"
  proof cases
    case (client_writes x k)
    from twin_transfer [OF tw client_writes(2) write_transfer [OF client_writes(3)] client_writes(4) R]
    obtain k' where "pending (client_end (net l)) = [x]"
      "deliver A (client_session A R) 0 Success [] (client_end (net l)) = Inr k'" "twins g k k'" .
    with link_completion.client_writes [OF this(1) client_writes(3) this(2), of B H] f client_writes(1) show ?thesis
      by (auto simp: mirrors_def)
  next
    case (client_reads x n k)
    from twin_transfer [OF tw client_reads(2) read_transfer [OF client_reads(3)] client_reads(5) R]
    obtain k' where "pending (client_end (net l)) = [x]"
      "deliver A (client_session A R) 0 Success (take n (to_client (net l))) (client_end (net l)) = Inr k'" "twins g k k'"
      unfolding ch .
    with link_completion.client_reads [OF this(1) client_reads(3) _ this(2), of B H] f client_reads(1,4) ch show ?thesis
      by (auto simp: mirrors_def)
  next
    case (server_writes x s)
    from server_transfer_same [OF sm server_writes(2) write_transfer [OF server_writes(3)] server_writes(4)]
    obtain s' where "deliver B (server_session B H) 0 Success [] (server_end (net l)) = Inr s'" "same s s'" .
    with link_completion.server_writes [OF _ server_writes(3) this(1), of A R] f server_writes(1,2) p show ?thesis
      by (auto simp: mirrors_def)
  next
    case (server_reads x n s)
    from server_transfer_same [OF sm server_reads(2) read_transfer [OF server_reads(3)] server_reads(5)]
    obtain s' where "deliver B (server_session B H) 0 Success (take n (to_server (net l))) (server_end (net l)) = Inr s'"
      "same s s'" unfolding ch .
    with link_completion.server_reads [OF _ server_reads(3) _ this(1), of A R] f server_reads(1,2,4) p ch show ?thesis
      by (auto simp: mirrors_def)
  qed
  then show ?thesis by (blast intro: completes_transfer)
qed

lemma mirrors_steps:
  assumes "(link_completion A R B H)\<^sup>*\<^sup>* m m'" and "mirrors g l m" and "sees_only g R"
  shows "\<exists>l'. (completes A R B H)\<^sup>*\<^sup>* l l' \<and> mirrors g l' m'"
  using assms(1,2)
proof (induction rule: rtranclp_induct)
  case base
  then show ?case by blast
next
  case (step n k)
  then obtain l' where "(completes A R B H)\<^sup>*\<^sup>* l l'" "mirrors g l' n" by blast
  with mirrors_step [OF step.hyps(2) _ assms(3)] show ?case by (blast intro: rtranclp.rtrancl_into_rtrancl)
qed

subsection \<open>What is left of the handshakes\<close>

lemma client_clears:
  assumes "follows g True True l m" and "client_up l" and "server_up l" and keep: "socket_calls_keep A g"
  shows "\<exists>l'. (completes A R B H)\<^sup>*\<^sup>* l l' \<and> follows g True True l' m \<and> client_up l' \<and> server_up l' \<and>
    server_end (net l') = server_end (net l) \<and> list_all is_transfer (pending (client_end (net l')))"
  using assms(1-3)
proof (induction "length (pending (client_end (net l)))" arbitrary: l rule: less_induct)
  case less
  let ?k = "client_end (net l)"
  show ?case
  proof (cases "\<exists>j < length (pending ?k). is_control (pending ?k ! j)")
    case False
    with less.prems(1) have "list_all is_transfer (pending ?k)"
      by (auto simp: follows_def shadows_def list_all_length)
    with less.prems show ?thesis by blast
  next
    case True
    then obtain j where j: "j < length (pending ?k)" "is_control (pending ?k ! j)" by blast
    obtain k where k: "deliver A (client_session A R) j Success [] ?k = Inr k"
      by (rule control_total [OF j])
    let ?l = "l\<lparr>net := (net l)\<lparr>client_end := k\<rparr>\<rparr>"
    note nt = control_no_transfer [OF j(2)]
    have "follows g True True ?l m"
      using follows_client_ends [OF less.prems(1) keep j(1) nt k, of True] by (cases l) simp
    moreover have "length (pending k) < length (pending ?k)"
      using control_completed(1) [OF k j keep] j(1) by simp
    ultimately have "\<exists>l'. (completes A R B H)\<^sup>*\<^sup>* ?l l' \<and> follows g True True l' m \<and> client_up l' \<and> server_up l' \<and>
        server_end (net l') = server_end (net l) \<and> list_all is_transfer (pending (client_end (net l')))"
      using less.hyps [of ?l] less.prems(2,3) by simp
    then obtain l' where "(completes A R B H)\<^sup>*\<^sup>* ?l l'" and l': "follows g True True l' m" "client_up l'" "server_up l'"
      "server_end (net l') = server_end (net l)" "list_all is_transfer (pending (client_end (net l')))" by blast
    moreover have "completes A R B H l ?l" by (rule completes_client [OF j(1) nt k])
    ultimately show ?thesis by (meson converse_rtranclp_into_rtranclp)
  qed
qed

lemma connection_clears:
  assumes "follows g True True l m" and "client_up l" and "server_up l" and "socket_calls_keep A g"
    and ok: "shared_ok R H out0 v0 es m"
  shows "\<exists>l'. (completes A R B H)\<^sup>*\<^sup>* l l' \<and> mirrors g l' m"
proof -
  obtain l1 where run: "(completes A R B H)\<^sup>*\<^sup>* l l1" and f: "follows g True True l1 m" and up: "client_up l1" "server_up l1"
    and tr: "list_all is_transfer (pending (client_end (net l1)))"
    using client_clears [OF assms(1-4)] by blast
  have mirror: "mirrors g l' m" if "follows g True True l' m" "client_up l'" "server_up l'"
    "list_all is_transfer (pending (client_end (net l')))" "past_handshake (server_end (net l')) = server_end (net l')" for l'
    using that twins_shadow by (auto simp: follows_def mirrors_def same_def)
  show ?thesis
  proof (cases "pending (server_end (net l1)) = [Op_Handshake Handshake_Server]")
    case False
    then have "past_handshake (server_end (net l1)) = server_end (net l1)" by (simp add: past_handshake_def)
    with mirror [OF f up tr] run show ?thesis by blast
  next
    case True
    obtain s where s: "deliver B (server_session B H) 0 Success [] (server_end (net l1)) = Inr s"
      using True by (auto simp: deliver_single completed_defs server_on_secure_handshake_def)
    let ?l = "l1\<lparr>net := (net l1)\<lparr>server_end := s\<rparr>\<rparr>"
    obtain su where "follows g True su ?l m"
      using follows_server_ends [OF f ok True _ s] by (cases l1) auto
    moreover from this have su using up(2) by (simp add: follows_def)
    moreover have "past_handshake s = s" using server_handshake_completed [OF True s] by simp
    ultimately have "mirrors g ?l m" using up tr by (intro mirror) simp_all
    moreover have "completes A R B H l1 ?l" by (rule completes_server [OF True _ s]) simp
    ultimately show ?thesis using rtranclp.rtrancl_into_rtrancl [OF run] by blast
  qed
qed

subsection \<open>The exchange can always be brought to its end\<close>

lemma completions_asked: "(link_completion A R B H)\<^sup>*\<^sup>* m m' \<Longrightarrow> asked m' = asked m"
  by (induction rule: rtranclp_induct) (auto dest: link_completion_asked)

context fitting_handler
begin

lemma flaky_run_quiet:
  assumes "flaky_run A R B H l0 es l" and "flaky_start l0" and "socket_calls_keep A g" and "sees_only g R"
    and "client_up l" and "server_up l"
  shows "\<exists>l'. (completes A R B H)\<^sup>*\<^sup>* l l' \<and> client_up l' \<and> server_up l' \<and> pending (client_end (net l')) = [] \<and>
    asked (net l') = asked (net l)"
proof -
  obtain cu su m where run: "shared_run A R B H (link_opened (net l0)) es m" and "follows g cu su l m"
    using flaky_run_follows [OF assms(1-4)] by blast
  with assms(5,6) have f: "follows g True True l m" by (auto simp: follows_def)
  have ok: "shared_ok R H (write_buffer (server_end (link_opened (net l0)))) (world (client_end (link_opened (net l0)))) es m"
    unfolding shared_ok_def by (rule shared_run_inv [OF run link_opened_start [OF assms(2)]])
  have "\<exists>m'. (link_completion A R B H)\<^sup>*\<^sup>* m m' \<and> pending (client_end m') = []"
    using ok exchange_ends by (auto simp: shared_ok_def shared_idle_def dest!: busy_exchange)
  then obtain m' where m': "(link_completion A R B H)\<^sup>*\<^sup>* m m'" "pending (client_end m') = []" by blast
  obtain l1 where l1: "(completes A R B H)\<^sup>*\<^sup>* l l1" "mirrors g l1 m"
    using connection_clears [OF f assms(5,6,3) ok] by blast
  obtain l' where "(completes A R B H)\<^sup>*\<^sup>* l1 l'" and l': "mirrors g l' m'"
    using mirrors_steps [OF m'(1) l1(2) assms(4)] by blast
  with l1(1) have "(completes A R B H)\<^sup>*\<^sup>* l l'" by simp
  moreover have "asked (net l') = asked (net l)"
    using l' f completions_asked [OF m'(1)] by (simp add: mirrors_def follows_def)
  moreover have "pending (client_end (net l')) = []"
    using l' m'(2) twins_pending by (fastforce simp: mirrors_def)
  ultimately show ?thesis using l' by (auto simp: mirrors_def)
qed

end

end
