(* ===== verification/Server.thy ===== *)
theory Server
  imports Server_Transaction
begin

section \<open>The listening server\<close>

text \<open>
  \<open>class server\<close> of \<open>server.hpp\<close> and \<open>server.cpp\<close>: the endpoint, the acceptor, the accept loop
  and the sessions it has started. The sessions of the source are kept alive by their own
  operations; the model lists them, each without the world, which the server's state holds. The
  lemmas show which setters take effect in which state, what \<open>start\<close> and \<open>stop\<close> do to the accept
  loop and to the sessions, and that every session ever started keeps the session invariant.
\<close>

subsection \<open>State\<close>

text \<open>\<open>accepts\<close> counts the outstanding \<open>async_accept\<close> operations, \<open>ciphers\<close> is the context's list.\<close>

record 'w server_st =
  srv_acceptor :: handle
  srv_endpoint :: endpoint
  srv_handler :: "'w request_handler"
  accepts :: nat
  sessions :: "session list"
  ciphers :: string
  srv_console :: "output_line list"
  srv_world :: 'w

definition default_cipher_suite :: string where
  "default_cipher_suite = ''EECDH+AESGCM:EDH+AESGCM:AES256+EECDH:AES256+EDH''"

definition new_server_at ::
  "'w asio \<Rightarrow> endpoint \<Rightarrow> 'w request_handler \<Rightarrow> string \<Rightarrow> 'w \<Rightarrow> 'w server_st"
where
  "new_server_at A ep H cipher_suite w =
     (case acceptor_create A w of (h, w1) \<Rightarrow>
        \<lparr>srv_acceptor = h, srv_endpoint = ep, srv_handler = H, accepts = 0, sessions = [],
         ciphers = cipher_suite, srv_console = [], srv_world = w1\<rparr>)"

text \<open>The constructor from a string throws when the address does not parse.\<close>

definition new_server ::
  "'w asio \<Rightarrow> string \<Rightarrow> 16 word \<Rightarrow> 'w request_handler \<Rightarrow> string \<Rightarrow> 'w \<Rightarrow> 'w server_st result"
where
  "new_server A address port H cipher_suite w =
     (case address_from_string A address of (ec, a) \<Rightarrow>
        if ec = Success then Inr (new_server_at A \<lparr>ep_address = a, ep_port = port\<rparr> H cipher_suite w)
        else Inl System_Error)"

subsection \<open>Operations\<close>

definition server_debug :: "'w asio \<Rightarrow> string \<Rightarrow> string \<Rightarrow> 'w server_st \<Rightarrow> 'w server_st" where
  "server_debug A msg ec s =
     s\<lparr>srv_console := srv_console s @ [debug_line (local_time A (srv_world s)) msg ec]\<rparr>"

definition is_listening :: "'w asio \<Rightarrow> 'w server_st \<Rightarrow> bool" where
  "is_listening A s \<longleftrightarrow> acceptor_is_open A (srv_acceptor s) (srv_world s)"

definition get_address :: "'w asio \<Rightarrow> 'w server_st \<Rightarrow> string" where
  "get_address A s = address_to_string A (ep_address (srv_endpoint s))"

definition get_port :: "'w server_st \<Rightarrow> 16 word" where
  "get_port s = ep_port (srv_endpoint s)"

definition get_address_port :: "'w asio \<Rightarrow> 'w server_st \<Rightarrow> string" where
  "get_address_port A s = get_address A s @ '':'' @ decimal (unat (get_port s))"

definition do_accept :: "'w server_st \<Rightarrow> 'w server_st" where
  "do_accept s = s\<lparr>accepts := Suc (accepts s)\<rparr>"

text \<open>A call with an error code argument whose failure is only logged.\<close>

definition logged ::
  "'w asio \<Rightarrow> ('w \<Rightarrow> error_code \<times> 'w) \<Rightarrow> string \<Rightarrow> 'w server_st \<Rightarrow> 'w server_st"
where
  "logged A call msg s =
     (case call (srv_world s) of (ec, w) \<Rightarrow>
        let s1 = s\<lparr>srv_world := w\<rparr>
        in if ec \<noteq> Success then server_debug A msg (ec_message A ec) s1 else s1)"

definition start_listening :: "'w asio \<Rightarrow> 'w server_st \<Rightarrow> 'w server_st" where
  "start_listening A s =
     (if \<not> is_listening A s then
        let h = srv_acceptor s; ep = srv_endpoint s;
            s1 = logged A (acceptor_open A h (ep_protocol ep)) ''Opening acceptor failed'' s;
            s2 = logged A (acceptor_reuse_address A h True) ''Setting acceptor option failed'' s1;
            s3 = logged A (acceptor_bind A h ep) ''Binding acceptor to local endpoint failed'' s2;
            s4 = logged A (acceptor_listen A h) ''Start listening for new connections failed'' s3;
            s5 = server_debug A
                   (''SERVER | started listening on <'' @ get_address_port A s4 @ ''>.'') [] s4
        in do_accept s5
      else s)"

definition start_server :: "'w asio \<Rightarrow> 'w server_st \<Rightarrow> 'w server_st" where
  "start_server A s = start_listening A s"

text \<open>The overload of \<open>close\<close> without an error code throws.\<close>

definition stop_server :: "'w asio \<Rightarrow> 'w server_st \<Rightarrow> 'w server_st result" where
  "stop_server A s =
     (case acceptor_close A (srv_acceptor s) (srv_world s) of (ec, w) \<Rightarrow>
        if ec = Success then Inr (s\<lparr>srv_world := w\<rparr>) else Inl System_Error)"

text \<open>The destructor stops the server; it must not throw.\<close>

definition server_destroy :: "'w asio \<Rightarrow> 'w server_st \<Rightarrow> 'w server_st result" where
  "server_destroy A s = no_except (stop_server A s)"

subsection \<open>The accept loop\<close>

definition spawn_session :: "handle \<Rightarrow> 'w server_st \<Rightarrow> 'w server_st" where
  "spawn_session sock s =
     (let t = server_start (new_session sock (srv_world s))
      in s\<lparr>sessions := sessions s @ [session.truncate t], srv_world := world t\<rparr>)"

text \<open>The completion handler of \<open>async_accept\<close>; \<open>sock\<close> is the socket of the new connection.\<close>

definition accept_completed :: "'w asio \<Rightarrow> error_code \<Rightarrow> handle \<Rightarrow> 'w server_st \<Rightarrow> 'w server_st" where
  "accept_completed A ec sock s =
     (let s0 = s\<lparr>accepts := accepts s - 1\<rparr>
      in if \<not> is_listening A s0 then server_debug A ''SERVER | stopped listening'' [] s0
         else if ec = Success then do_accept (spawn_session sock s0)
         else if ec \<noteq> Operation_Aborted then
           do_accept (server_debug A ''Error on asynchronous accept'' (ec_message A ec) s0)
         else do_accept s0)"

text \<open>A completion of operation \<open>j\<close> of session \<open>i\<close>.\<close>

definition session_event ::
  "'w asio \<Rightarrow> nat \<Rightarrow> nat \<Rightarrow> error_code \<Rightarrow> bytes \<Rightarrow> 'w server_st \<Rightarrow> 'w server_st result"
where
  "session_event A i j ec d s =
     bind_result
       (deliver A (server_session A (srv_handler s)) j ec d (attach (sessions s ! i) (srv_world s)))
       (\<lambda>t. Inr (s\<lparr>sessions := (sessions s)[i := session.truncate t], srv_world := world t\<rparr>))"

subsection \<open>Setters and queries\<close>

definition set_address_checked ::
  "'w asio \<Rightarrow> address \<Rightarrow> 'w server_st \<Rightarrow> bool \<times> 'w server_st"
where
  "set_address_checked A address s =
     (let s1 = s\<lparr>srv_endpoint := srv_endpoint s\<lparr>ep_address := address\<rparr>\<rparr>
      in if is_listening A s1 then
           (False, server_debug A ''Could not change the address''
                     ''Stop the server before making any changes'' s1)
         else
           let s2 = s1\<lparr>srv_endpoint := srv_endpoint s1\<lparr>ep_address := address\<rparr>\<rparr>
           in (True, server_debug A (''SERVER | address set to '' @ get_address A s2) [] s2))"

definition set_address :: "'w asio \<Rightarrow> string \<Rightarrow> 'w server_st \<Rightarrow> bool \<times> 'w server_st" where
  "set_address A address s =
     (case address_from_string A address of (ec, a) \<Rightarrow>
        if ec = Success then set_address_checked A a s else (False, s))"

definition port_in_use ::
  "'w asio \<Rightarrow> 16 word \<Rightarrow> 'w server_st \<Rightarrow> (bool \<times> 'w server_st) result"
where
  "port_in_use A port s =
     (case acceptor_create A (srv_world s) of (h, w1) \<Rightarrow>
      let ep = \<lparr>ep_address = ep_address (srv_endpoint s), ep_port = port\<rparr>
      in case acceptor_open A h (ep_protocol ep) w1 of (ec1, w2) \<Rightarrow>
         case (if ec1 \<noteq> Success then (ec1, w2) else acceptor_bind A h ep w2) of (ec, w3) \<Rightarrow>
         case acceptor_close A h w3 of (ec3, w4) \<Rightarrow>
           if ec3 = Success then Inr (ec = Address_In_Use, s\<lparr>srv_world := w4\<rparr>)
           else Inl System_Error)"

definition set_port ::
  "'w asio \<Rightarrow> 16 word \<Rightarrow> 'w server_st \<Rightarrow> (bool \<times> 'w server_st) result"
where
  "set_port A port s =
     (if is_listening A s then
        Inr (False, server_debug A ''Could not change the port''
                      ''Stop the server before making any changes'' s)
      else
        bind_result (port_in_use A port s) (\<lambda>(used, s1).
          if used then
            Inr (False, server_debug A ''Could not change the port''
                   (''port '' @ decimal (unat port) @ '' is already in use by another service'') s1)
          else
            let s2 = s1\<lparr>srv_endpoint := srv_endpoint s1\<lparr>ep_port := port\<rparr>\<rparr>
            in Inr (True, server_debug A
                      (''SERVER | port set to '' @ decimal (unat (get_port s2))) [] s2)))"

definition set_endpoint :: "'w asio \<Rightarrow> endpoint \<Rightarrow> 'w server_st \<Rightarrow> bool \<times> 'w server_st" where
  "set_endpoint A ep s =
     (if is_listening A s then
        (False, server_debug A ''Could not change the endpoint''
                  ''Stop the server before making any changes'' s)
      else
        let s1 = s\<lparr>srv_endpoint := ep\<rparr>
        in (True, server_debug A
              (''SERVER | endpoint set to <'' @ get_address_port A s1 @ ''>.'') [] s1))"

text \<open>
  \<open>request_handler_\<close> is a reference: the assignment in the source calls the copy assignment of the
  base class on the referenced object, which has no data members to copy, and the reference keeps
  denoting the object it was bound to in the constructor.
\<close>

definition set_request_handler ::
  "'w asio \<Rightarrow> 'w request_handler \<Rightarrow> 'w server_st \<Rightarrow> bool \<times> 'w server_st"
where
  "set_request_handler A H s =
     (if is_listening A s then
        (False, server_debug A ''Could not change the request_handler''
                  ''Stop the server before making any changes'' s)
      else (True, s))"

fun collect_addresses :: "'w asio \<Rightarrow> bool \<Rightarrow> endpoint list \<Rightarrow> string list \<Rightarrow> string list" where
  "collect_addresses A only_ipv4 [] addresses = addresses"
| "collect_addresses A only_ipv4 (re # rs) addresses =
     (let address = ep_address re
      in if is_v4 address then
           collect_addresses A only_ipv4 rs (addresses @ [address_to_string A address])
         else if is_v6 address \<and> \<not> only_ipv4 then
           collect_addresses A only_ipv4 rs (addresses @ [address_to_string A address])
         else collect_addresses A only_ipv4 rs addresses)"

text \<open>The overloads of \<open>host_name\<close> and \<open>resolve\<close> without an error code throw.\<close>

definition get_local_addresses :: "'w asio \<Rightarrow> bool \<Rightarrow> 'w server_st \<Rightarrow> string list result" where
  "get_local_addresses A only_ipv4 s =
     bind_result (host_name A (srv_world s)) (\<lambda>hostname.
     bind_result (resolve A hostname [] (srv_world s)) (\<lambda>res.
     Inr (collect_addresses A only_ipv4 res [])))"

subsection \<open>How the operations act on the fields\<close>

lemma server_debug_fields [simp]:
  "srv_acceptor (server_debug A m e s) = srv_acceptor s" "srv_endpoint (server_debug A m e s) = srv_endpoint s"
  "srv_handler (server_debug A m e s) = srv_handler s" "accepts (server_debug A m e s) = accepts s"
  "sessions (server_debug A m e s) = sessions s" "srv_world (server_debug A m e s) = srv_world s"
  by (simp_all add: server_debug_def)

lemma is_listening_debug [simp]: "is_listening A (server_debug A m e s) = is_listening A s"
  by (simp add: is_listening_def)

lemma logged_fields [simp]:
  "srv_acceptor (logged A f m s) = srv_acceptor s" "srv_endpoint (logged A f m s) = srv_endpoint s"
  "srv_handler (logged A f m s) = srv_handler s" "accepts (logged A f m s) = accepts s"
  "sessions (logged A f m s) = sessions s" "srv_world (logged A f m s) = snd (f (srv_world s))"
  by (simp_all add: logged_def Let_def split: prod.splits)

lemma do_accept_fields [simp]:
  "srv_acceptor (do_accept s) = srv_acceptor s" "srv_endpoint (do_accept s) = srv_endpoint s"
  "srv_handler (do_accept s) = srv_handler s" "accepts (do_accept s) = Suc (accepts s)"
  "sessions (do_accept s) = sessions s" "srv_world (do_accept s) = srv_world s"
  by (simp_all add: do_accept_def)

lemma start_server_fields [simp]:
  "srv_acceptor (start_server A s) = srv_acceptor s" "srv_endpoint (start_server A s) = srv_endpoint s"
  "srv_handler (start_server A s) = srv_handler s" "sessions (start_server A s) = sessions s"
  "accepts (start_server A s) = (if is_listening A s then accepts s else Suc (accepts s))"
  by (simp_all add: start_server_def start_listening_def Let_def)

lemma stop_server_fields:
  "stop_server A s = Inr s' \<Longrightarrow> sessions s' = sessions s \<and> accepts s' = accepts s \<and>
     srv_handler s' = srv_handler s \<and> srv_endpoint s' = srv_endpoint s \<and> srv_acceptor s' = srv_acceptor s"
  by (auto simp: stop_server_def split: prod.splits if_splits)

lemma spawn_session_fields [simp]:
  "srv_acceptor (spawn_session k s) = srv_acceptor s" "srv_endpoint (spawn_session k s) = srv_endpoint s"
  "srv_handler (spawn_session k s) = srv_handler s" "accepts (spawn_session k s) = accepts s"
  "srv_world (spawn_session k s) = srv_world s"
  by (simp_all add: spawn_session_def Let_def server_start_def do_defs new_session_def issue_def)

lemma sessions_spawn:
  "sessions (spawn_session k s) =
     sessions s @ [session.truncate (server_start (new_session k (srv_world s)))]"
  by (simp add: spawn_session_def Let_def)

lemma session_event_Inr:
  assumes "session_event A i j ec d s = Inr s'"
  obtains t where
    "deliver A (server_session A (srv_handler s)) j ec d (attach (sessions s ! i) (srv_world s)) = Inr t"
    and "s' = s\<lparr>sessions := (sessions s)[i := session.truncate t], srv_world := world t\<rparr>"
  using assms by (auto simp: session_event_def bind_result_conv)

subsection \<open>Every session keeps its invariant\<close>

lemma server_inv_cong:
  assumes "pending s = pending t" and "read_buffer s = read_buffer t"
    and "write_buffer s = write_buffer t" and "server_inv s"
  shows "server_inv t"
  using assms
  by (cases "(s, pending s)" rule: server_pending_ok.cases) (auto simp: server_inv_def)

definition session_ok :: "'w \<Rightarrow> session \<Rightarrow> bool" where
  "session_ok w x \<longleftrightarrow> server_inv (attach x w)"

lemma session_ok_world: "session_ok w x \<Longrightarrow> session_ok w' x"
  using server_inv_cong [of "attach x w" "attach x w'"] by (simp add: session_ok_def)

lemma session_ok_truncate: "server_inv t \<Longrightarrow> session_ok w (session.truncate t)"
  using server_inv_cong [of t "attach (session.truncate t) w"] by (simp add: session_ok_def)

lemma list_all_session_ok_world:
  "list_all (session_ok w) xs \<Longrightarrow> list_all (session_ok w') xs"
  by (auto simp: list_all_iff intro: session_ok_world)

lemma session_ok_spawn: "session_ok w (session.truncate (server_start (new_session k v)))"
  by (rule session_ok_truncate) (rule server_inv_start)

text \<open>
  The steps of a running server: completions of accepts and of session operations, and the calls
  its owner makes. A completion that faults ends the process and is no step.
\<close>

inductive server_step :: "'w asio \<Rightarrow> 'w server_st \<Rightarrow> 'w server_st \<Rightarrow> bool" for A where
  step_accept: "0 < accepts s \<Longrightarrow> server_step A s (accept_completed A ec sock s)"
| step_session: "i < length (sessions s) \<Longrightarrow> j < length (pending (sessions s ! i)) \<Longrightarrow>
    admissible (pending (sessions s ! i) ! j) ec d \<Longrightarrow> session_event A i j ec d s = Inr s' \<Longrightarrow>
    server_step A s s'"
| step_start: "server_step A s (start_server A s)"
| step_stop: "stop_server A s = Inr s' \<Longrightarrow> server_step A s s'"
| step_address: "set_address A a s = (b, s') \<Longrightarrow> server_step A s s'"
| step_port: "set_port A p s = Inr (b, s') \<Longrightarrow> server_step A s s'"
| step_endpoint: "set_endpoint A ep s = (b, s') \<Longrightarrow> server_step A s s'"
| step_handler: "set_request_handler A H s = (b, s') \<Longrightarrow> server_step A s s'"

inductive server_run :: "'w asio \<Rightarrow> 'w server_st \<Rightarrow> 'w server_st \<Rightarrow> bool" for A where
  server_run_refl: "server_run A s s"
| server_run_step: "server_run A s t \<Longrightarrow> server_step A t u \<Longrightarrow> server_run A s u"

lemma setters_keep_sessions:
  "set_address A a s = (b, s') \<Longrightarrow> sessions s' = sessions s \<and> srv_handler s' = srv_handler s"
  "set_port A p s = Inr (b, s') \<Longrightarrow> sessions s' = sessions s \<and> srv_handler s' = srv_handler s"
  "set_endpoint A ep s = (b, s') \<Longrightarrow> sessions s' = sessions s \<and> srv_handler s' = srv_handler s"
  "set_request_handler A H s = (b, s') \<Longrightarrow> sessions s' = sessions s \<and> srv_handler s' = srv_handler s"
  by (auto simp: set_address_def set_address_checked_def set_port_def port_in_use_def
      set_endpoint_def set_request_handler_def Let_def bind_result_conv
      split: prod.splits if_splits)

lemma accept_completed_fields:
  "srv_handler (accept_completed A ec k s) = srv_handler s"
  "sessions (accept_completed A ec k s) =
     (if is_listening A s \<and> ec = Success
      then sessions s @ [session.truncate (server_start (new_session k (srv_world s)))]
      else sessions s)"
  "accepts (accept_completed A ec k s) =
     (if is_listening A s then Suc (accepts s - 1) else accepts s - 1)"
  by (simp_all add: accept_completed_def Let_def is_listening_def sessions_spawn)

lemma server_step_sessions:
  assumes "server_step A s s'" and "list_all (session_ok (srv_world s)) (sessions s)"
  shows "list_all (session_ok (srv_world s')) (sessions s')"
proof -
  have keep: "list_all (session_ok (srv_world s')) (sessions s')" if "sessions s' = sessions s"
    using list_all_session_ok_world [OF assms(2)] that by simp
  from assms(1) show ?thesis
proof (cases rule: server_step.cases)
  case (step_accept ec sock)
  with assms(2) show ?thesis
    using list_all_session_ok_world [OF assms(2), of "srv_world s'"] session_ok_spawn
    by (auto simp: accept_completed_fields)
next
  case (step_session i j ec d)
  from step_session(4) obtain t where
    t: "deliver A (server_session A (srv_handler s)) j ec d (attach (sessions s ! i) (srv_world s)) = Inr t"
    and s': "s' = s\<lparr>sessions := (sessions s)[i := session.truncate t], srv_world := world t\<rparr>"
    by (rule session_event_Inr)
  have "server_inv (attach (sessions s ! i) (srv_world s))"
    using assms(2) step_session(1) by (simp add: list_all_length session_ok_def)
  with t step_session(2,3) have "server_inv t"
    by (intro server_deliver_inv [OF t]) simp_all
  then have "session_ok (world t) (session.truncate t)" by (rule session_ok_truncate)
  moreover have "list_all (session_ok (world t)) (sessions s)"
    using assms(2) by (rule list_all_session_ok_world)
  ultimately show ?thesis by (auto simp: s' list_all_iff dest: set_update_subset_insert [THEN subsetD])
next
  case step_start
  then show ?thesis by (intro keep) simp
next
  case step_stop
  then show ?thesis by (intro keep) (simp add: stop_server_fields)
next
  case step_address
  then show ?thesis by (intro keep) (simp add: setters_keep_sessions(1))
next
  case step_port
  then show ?thesis by (intro keep) (simp add: setters_keep_sessions(2))
next
  case step_endpoint
  then show ?thesis by (intro keep) (simp add: setters_keep_sessions(3))
next
  case step_handler
  then show ?thesis by (intro keep) (simp add: setters_keep_sessions(4))
qed
qed

lemma server_run_sessions:
  "server_run A s s' \<Longrightarrow> list_all (session_ok (srv_world s)) (sessions s) \<Longrightarrow>
   list_all (session_ok (srv_world s')) (sessions s')"
  by (induction rule: server_run.induct) (auto intro: server_step_sessions)

lemma server_step_handler: "server_step A s s' \<Longrightarrow> srv_handler s' = srv_handler s"
  by (erule server_step.cases)
    (auto simp: accept_completed_fields dest: stop_server_fields setters_keep_sessions
      elim!: session_event_Inr)

lemma server_run_handler: "server_run A s s' \<Longrightarrow> srv_handler s' = srv_handler s"
  by (induction rule: server_run.induct) (auto dest: server_step_handler)

subsection \<open>Listening\<close>

lemma start_listens:
  assumes "acceptor_laws A"
    and "fst (acceptor_open A (srv_acceptor s) (ep_protocol (srv_endpoint s)) (srv_world s)) = Success"
  shows "is_listening A (start_server A s)"
proof (cases "is_listening A s")
  case True
  then show ?thesis by (simp add: start_server_def start_listening_def)
next
  case False
  let ?w = "snd (acceptor_open A (srv_acceptor s) (ep_protocol (srv_endpoint s)) (srv_world s))"
  have "acceptor_is_open A (srv_acceptor s) ?w"
    using acceptor_lawsD(1) [OF assms(1)] assms(2) by (metis prod.collapse)
  with False show ?thesis
    by (simp add: start_server_def start_listening_def Let_def acceptor_lawsD [OF assms(1)]
        is_listening_def del: ep_protocol.simps)
qed

text \<open>What a start prints last does not depend on the outcome of its calls.\<close>

lemma start_server_console:
  assumes "\<not> is_listening A s"
  shows "\<exists>time. debug_line time (''SERVER | started listening on <'' @ get_address_port A s @ ''>.'') []
    \<in> set (srv_console (start_server A s))"
proof -
  have "\<exists>s4. start_server A s = do_accept (server_debug A
      (''SERVER | started listening on <'' @ get_address_port A s4 @ ''>.'') [] s4) \<and>
      srv_endpoint s4 = srv_endpoint s"
    unfolding start_server_def start_listening_def Let_def if_P [OF assms]
    by (rule exI, rule conjI, rule refl) simp
  then obtain s4 where "start_server A s = do_accept (server_debug A
      (''SERVER | started listening on <'' @ get_address_port A s4 @ ''>.'') [] s4)"
    and ep: "srv_endpoint s4 = srv_endpoint s"
    by blast
  moreover from ep have "get_address_port A s4 = get_address_port A s"
    by (simp only: get_address_port_def get_address_def get_port_def)
  ultimately show ?thesis by (auto simp: do_accept_def server_debug_def)
qed

lemma stop_not_listening:
  "acceptor_laws A \<Longrightarrow> stop_server A s = Inr s' \<Longrightarrow> \<not> is_listening A s'"
  by (auto simp: stop_server_def is_listening_def dest: acceptor_lawsD(2) split: prod.splits if_splits)

subsection \<open>Local addresses\<close>

lemma collect_addresses_append:
  "collect_addresses A b rs acc =
     acc @ map (address_to_string A) (filter (\<lambda>a. is_v4 a \<or> \<not> b) (map ep_address rs))"
proof (induction rs arbitrary: acc)
  case Nil
  then show ?case by simp
next
  case (Cons r rs)
  then show ?case by (cases "ep_address r"; cases b) (simp_all add: Let_def)
qed

end
