(* ===== verification/Network.thy ===== *)
theory Network
  imports Shared_Link Server
begin

section \<open>A server with many clients\<close>

text \<open>
  The server of \<open>Server\<close> together with clients connected to its first sessions. The sessions share the
  world of the server and the object that keeps them; the server may at the same time accept further
  connections, serve sessions whose peers are not modelled and send anything, be stopped, restarted
  and reconfigured. The lemmas show that each connection is a connection in a shared world, and that
  the server of the network is a server.
\<close>

subsection \<open>The system\<close>

text \<open>What belongs to one client: its session, the two channels, what it sent, the calls made for it.\<close>

record ('v, 'w) peer =
  peer_end :: "'v session_st"
  up :: bytes
  down :: bytes
  sent :: "bytes list"
  calls_made :: "'w handler_call list"

record ('v, 'w) network =
  srv :: "'w server_st"
  peers :: "('v, 'w) peer list"

definition view :: "('v, 'w) network \<Rightarrow> nat \<Rightarrow> ('v, 'w) link" where
  "view N i =
     \<lparr>client_end = peer_end (peers N ! i),
      server_end = attach (sessions (srv N) ! i) (srv_world (srv N)),
      to_server = up (peers N ! i), to_client = down (peers N ! i), asked = sent (peers N ! i)\<rparr>"

definition put :: "nat \<Rightarrow> ('v, 'w) link \<Rightarrow> ('v, 'w) network \<Rightarrow> ('v, 'w) network" where
  "put i l N =
     \<lparr>srv = (srv N)\<lparr>sessions := (sessions (srv N))[i := session.truncate (server_end l)],
                    srv_world := world (server_end l)\<rparr>,
      peers = (peers N)[i := \<lparr>peer_end = client_end l, up = to_server l, down = to_client l,
        sent = asked l, calls_made = calls_made (peers N ! i) @ handler_calls (view N i) l\<rparr>]\<rparr>"

text \<open>The clients may have different handlers.\<close>

inductive network_step ::
  "'v asio \<Rightarrow> (nat \<Rightarrow> 'v response_handler) \<Rightarrow> 'w asio \<Rightarrow> ('v, 'w) network \<Rightarrow> ('v, 'w) network \<Rightarrow> bool"
  for A R B where
  net_completion: "i < length (peers N) \<Longrightarrow>
    link_completion A (R i) B (srv_handler (srv N)) (view N i) l \<Longrightarrow> network_step A R B N (put i l N)"
| net_send: "i < length (peers N) \<Longrightarrow> pending (peer_end (peers N ! i)) = [] \<Longrightarrow>
    fits (content_buffer m) \<Longrightarrow> network_step A R B N (put i (link_send m (view N i)) N)"
| net_others: "server_step B (srv N) s \<Longrightarrow>
    take (length (peers N)) (sessions s) = take (length (peers N)) (sessions (srv N)) \<Longrightarrow>
    network_step A R B N (N\<lparr>srv := s\<rparr>)"

inductive network_run ::
  "'v asio \<Rightarrow> (nat \<Rightarrow> 'v response_handler) \<Rightarrow> 'w asio \<Rightarrow> ('v, 'w) network \<Rightarrow> ('v, 'w) network \<Rightarrow> bool"
  for A R B N0 where
  network_refl: "network_run A R B N0 N0"
| network_next: "network_run A R B N0 N \<Longrightarrow> network_step A R B N N' \<Longrightarrow> network_run A R B N0 N'"

text \<open>Every client is connected, after both handshakes, and nothing has been sent.\<close>

definition network_start :: "('v, 'w) network \<Rightarrow> bool" where
  "network_start N \<longleftrightarrow> length (peers N) \<le> length (sessions (srv N)) \<and>
     (\<forall>i < length (peers N). link_start (view N i) \<and> calls_made (peers N ! i) = [])"

subsection \<open>Views\<close>

lemma put_fields [simp]:
  "srv_handler (srv (put i l N)) = srv_handler (srv N)" "length (peers (put i l N)) = length (peers N)"
  "length (sessions (srv (put i l N))) = length (sessions (srv N))"
  by (simp_all add: put_def)

lemma view_put_same:
  assumes "i < length (peers N)" and "i < length (sessions (srv N))"
  shows "view (put i l N) i = l"
  using assms by (simp add: view_def put_def)

lemma view_put_other:
  assumes "j \<noteq> i"
  shows "view (put i l N) j =
    (view N j)\<lparr>server_end := server_end (view N j)\<lparr>world := world (server_end l)\<rparr>\<rparr>"
  using assms attach_world [of "sessions (srv N) ! j" "world (server_end l)" "srv_world (srv N)"]
  by (simp add: view_def put_def)

lemma calls_put:
  "i < length (peers N) \<Longrightarrow>
   calls_made (peers (put i l N) ! j) = calls_made (peers N ! j) @ (if j = i then handler_calls (view N i) l else [])"
  by (simp add: put_def nth_list_update)

lemma view_others:
  assumes "take n (sessions s) = take n (sessions (srv N))" and "i < n"
  shows "view (N\<lparr>srv := s\<rparr>) i = (view N i)\<lparr>server_end := server_end (view N i)\<lparr>world := srv_world s\<rparr>\<rparr>"
proof -
  have "sessions s ! i = sessions (srv N) ! i" using arg_cong [OF assms(1), of "\<lambda>xs. xs ! i"] assms(2) by simp
  with attach_world [of "sessions (srv N) ! i" "srv_world s" "srv_world (srv N)"] show ?thesis
    by (simp add: view_def)
qed

subsection \<open>Each connection is a connection in a shared world\<close>

definition connections_ok ::
  "'v asio \<Rightarrow> (nat \<Rightarrow> 'v response_handler) \<Rightarrow> 'w asio \<Rightarrow> ('v, 'w) network \<Rightarrow> ('v, 'w) network \<Rightarrow> bool"
where
  "connections_ok A R B N0 N \<longleftrightarrow> srv_handler (srv N) = srv_handler (srv N0) \<and>
     length (peers N) = length (peers N0) \<and> length (peers N) \<le> length (sessions (srv N)) \<and>
     (\<forall>i < length (peers N). shared_run A (R i) B (srv_handler (srv N0)) (view N0 i)
        (calls_made (peers N ! i)) (view N i))"

lemma put_connections_ok:
  assumes "connections_ok A R B N0 N" and "i < length (peers N)"
    and "shared_run A (R i) B (srv_handler (srv N0)) (view N0 i)
      (calls_made (peers N ! i) @ handler_calls (view N i) l) l"
  shows "connections_ok A R B N0 (put i l N)"
proof -
  have "shared_run A (R j) B (srv_handler (srv N0)) (view N0 j) (calls_made (peers (put i l N) ! j)) (view (put i l N) j)"
    if "j < length (peers N)" for j
  proof (cases "j = i")
    case True
    with assms show ?thesis by (simp add: view_put_same calls_put connections_ok_def)
  next
    case False
    have "shared_run A (R j) B (srv_handler (srv N0)) (view N0 j) (calls_made (peers N ! j)) (view N j)"
      using assms(1) that by (simp add: connections_ok_def)
    from shared_others [OF this] False show ?thesis
      using assms(2) by (simp add: view_put_other calls_put)
  qed
  with assms(1) show ?thesis by (simp add: connections_ok_def)
qed

lemma others_connections_ok:
  assumes "connections_ok A R B N0 N" and "server_step B (srv N) s"
    and "take (length (peers N)) (sessions s) = take (length (peers N)) (sessions (srv N))"
  shows "connections_ok A R B N0 (N\<lparr>srv := s\<rparr>)"
proof -
  have "shared_run A (R i) B (srv_handler (srv N0)) (view N0 i) (calls_made (peers N ! i)) (view (N\<lparr>srv := s\<rparr>) i)"
    if "i < length (peers N)" for i
    unfolding view_others [OF assms(3) that]
    using assms(1) that by (intro shared_others) (simp add: connections_ok_def)
  moreover have "length (peers N) \<le> length (sessions s)"
    using arg_cong [OF assms(3), of length] assms(1) by (simp add: connections_ok_def)
  ultimately show ?thesis
    using assms(1) server_step_handler [OF assms(2)] by (simp add: connections_ok_def)
qed

lemma network_run_connections:
  assumes "network_run A R B N0 N" and "network_start N0"
  shows "connections_ok A R B N0 N"
  using assms(1)
proof (induction rule: network_run.induct)
  case network_refl
  from assms(2) show ?case by (simp add: connections_ok_def network_start_def shared_refl)
next
  case (network_next N N')
  from network_next.hyps(2) show ?case
  proof cases
    case (net_completion i l)
    have "shared_run A (R i) B (srv_handler (srv N0)) (view N0 i)
        (calls_made (peers N ! i) @ handler_calls (view N i) l) l"
      using network_next.IH net_completion(2,3) by (intro shared_completes) (simp_all add: connections_ok_def)
    with net_completion(1,2) network_next.IH show ?thesis by (simp add: put_connections_ok)
  next
    case (net_send i m)
    have "shared_run A (R i) B (srv_handler (srv N0)) (view N0 i) (calls_made (peers N ! i)) (link_send m (view N i))"
      using network_next.IH net_send by (intro shared_sends) (simp_all add: connections_ok_def view_def)
    moreover have "handler_calls (view N i) (link_send m (view N i)) = []"
      by (intro handler_calls_none(1)) (simp add: link_send_def)
    ultimately show ?thesis using net_send(1,2) network_next.IH by (simp add: put_connections_ok)
  next
    case (net_others s)
    with network_next.IH show ?thesis by (simp add: others_connections_ok)
  qed
qed

subsection \<open>The server of the network is a server\<close>

lemma put_server_same:
  assumes "server_end l = server_end (view N i)"
  shows "srv (put i l N) = srv N"
  using assms by (simp add: put_def view_def)

lemma put_server_completes:
  assumes "i < length (sessions (srv N))" and "pending (server_end (view N i)) = [x]" and "admissible x ec d"
    and "deliver B (server_session B (srv_handler (srv N))) 0 ec d (server_end (view N i)) = Inr (server_end l)"
  shows "server_step B (srv N) (srv (put i l N))"
proof -
  have "session_event B i 0 ec d (srv N) = Inr (srv (put i l N))"
    using assms(4) by (simp add: session_event_def view_def put_def)
  moreover have "pending (sessions (srv N) ! i) = [x]" using assms(2) by (simp add: view_def)
  ultimately show ?thesis using assms(1,3) by (intro step_session [of i _ 0 ec d]) simp_all
qed

lemma network_step_server:
  assumes "network_step A R B N N'" and "length (peers N) \<le> length (sessions (srv N))"
  shows "srv N' = srv N \<or> server_step B (srv N) (srv N')"
  using assms(1)
proof cases
  case (net_completion i l)
  from net_completion(2) assms(2) have i: "i < length (sessions (srv N))" by simp
  from net_completion(3) show ?thesis
  proof cases
    case (client_writes x k)
    then show ?thesis by (simp add: net_completion(1) put_server_same)
  next
    case (client_reads x n k)
    then show ?thesis by (simp add: net_completion(1) put_server_same)
  next
    case (server_writes x s)
    have "admissible x Success []" using server_writes(3) by (cases x) simp_all
    from put_server_completes [OF i server_writes(2) this, of B l] server_writes(1,4) show ?thesis
      by (simp add: net_completion(1))
  next
    case (server_reads x n s)
    have "admissible x Success (take n (to_server (view N i)))"
      using server_reads(3,4) by (cases x) simp_all
    from put_server_completes [OF i server_reads(2) this, of B l] server_reads(1,5) show ?thesis
      by (simp add: net_completion(1))
  qed
next
  case (net_send i m)
  then show ?thesis by (simp add: put_server_same link_send_def)
next
  case (net_others s)
  then show ?thesis by simp
qed

lemma network_run_server:
  assumes "network_run A R B N0 N" and "network_start N0"
  shows "server_run B (srv N0) (srv N)"
  using assms(1)
proof (induction rule: network_run.induct)
  case network_refl
  show ?case by (rule server_run_refl)
next
  case (network_next N N')
  have "length (peers N) \<le> length (sessions (srv N))"
    using network_run_connections [OF network_next.hyps(1) assms(2)] by (simp add: connections_ok_def)
  from network_step_server [OF network_next.hyps(2) this] network_next.IH show ?case
    by (auto intro: server_run_step)
qed

end
