(* ===== verification/Open_Network.thy ===== *)
theory Open_Network
  imports Steady_Link Network
begin

section \<open>A server its clients come to\<close>

text \<open>
  The server of \<open>Server\<close> from before its first connection on. Clients connect while it listens, both
  ends do their handshakes, exchange messages, fail and are stopped at any time as in \<open>Stopped_Link\<close>;
  in between the server accepts connections from peers that are not modelled and may do anything, and
  its owner calls it. The lemmas show that each connection of a client is one of \<open>Flaky_Link\<close>, and
  that the server of the network is a server.
\<close>

subsection \<open>The system\<close>

text \<open>
  What belongs to a client that came to the server: a \<open>peer\<close>, whether its owner or a failure has ended it,
  whether a failure has ended its session, and the world it was in when it came.
\<close>

record ('v, 'w) member = "('v, 'w) peer" +
  client_runs :: bool
  session_runs :: bool
  came_in :: 'v

text \<open>Session \<open>i\<close> of the server is that of member \<open>i\<close>, or of a peer that is not modelled.\<close>

record ('v, 'w) open_network =
  srv_open :: "'w server_st"
  members :: "('v, 'w) member option list"

text \<open>A client session that has just been started.\<close>

definition new_member :: "handle \<Rightarrow> 'v \<Rightarrow> ('v, 'w) member" where
  "new_member sock v =
     \<lparr>peer_end = client_start (new_session sock v), up = [], down = [], sent = [], calls_made = [],
      client_runs = True, session_runs = True, came_in = v\<rparr>"

definition member_view :: "'w server_st \<Rightarrow> nat \<Rightarrow> ('v, 'w) member \<Rightarrow> ('v, 'w) lossy" where
  "member_view s i p =
     \<lparr>net = \<lparr>client_end = peer_end p, server_end = attach (sessions s ! i) (srv_world s),
             to_server = up p, to_client = down p, asked = sent p\<rparr>,
      client_up = client_runs p, server_up = session_runs p\<rparr>"

definition member_moved :: "'w server_st \<Rightarrow> nat \<Rightarrow> ('v, 'w) lossy \<Rightarrow> ('v, 'w) member \<Rightarrow> ('v, 'w) member" where
  "member_moved s i l p =
     p\<lparr>peer_end := client_end (net l), up := to_server (net l), down := to_client (net l), sent := asked (net l),
       calls_made := calls_made p @ handler_calls (net (member_view s i p)) (net l),
       client_runs := client_up l, session_runs := server_up l\<rparr>"

definition server_moved_to :: "nat \<Rightarrow> 'w session_st \<Rightarrow> 'w server_st \<Rightarrow> 'w server_st" where
  "server_moved_to i t s = s\<lparr>sessions := (sessions s)[i := session.truncate t], srv_world := world t\<rparr>"

text \<open>
  What else happens at a server that goes from \<open>s\<close> to \<open>t\<close>: the sessions of the members stay as they are, and
  new ones are not those of members.
\<close>

definition leaves_members :: "('v, 'w) member option list \<Rightarrow> 'w server_st \<Rightarrow> 'w server_st \<Rightarrow> bool" where
  "leaves_members ms s t \<longleftrightarrow> length ms \<le> length (sessions t) \<and>
     (\<forall>i < length ms. ms ! i \<noteq> None \<longrightarrow> sessions t ! i = sessions s ! i)"

definition with_others :: "('v, 'w) member option list \<Rightarrow> 'w server_st \<Rightarrow> ('v, 'w) member option list" where
  "with_others ms t = ms @ replicate (length (sessions t) - length ms) None"

inductive open_step ::
  "'v asio \<Rightarrow> (nat \<Rightarrow> 'v response_handler) \<Rightarrow> 'w asio \<Rightarrow> ('v, 'w) open_network \<Rightarrow> ('v, 'w) open_network \<Rightarrow> bool"
  for A R B where
  open_comes: "0 < accepts (srv_open N) \<Longrightarrow> is_listening B (srv_open N) \<Longrightarrow>
    open_step A R B N
      \<lparr>srv_open = accept_completed B Success sock (srv_open N), members = members N @ [Some (new_member h v)]\<rparr>"
| open_moves: "i < length (members N) \<Longrightarrow> members N ! i = Some p \<Longrightarrow>
    abrupt_step A (R i) B (srv_handler (srv_open N)) (member_view (srv_open N) i p) l \<Longrightarrow>
    open_step A R B N
      \<lparr>srv_open = server_moved_to i (server_end (net l)) (srv_open N),
       members = (members N)[i := Some (member_moved (srv_open N) i l p)]\<rparr>"
| open_rest: "server_step B (srv_open N) s \<Longrightarrow> leaves_members (members N) (srv_open N) s \<Longrightarrow>
    open_step A R B N \<lparr>srv_open = s, members = with_others (members N) s\<rparr>"

inductive open_run ::
  "'v asio \<Rightarrow> (nat \<Rightarrow> 'v response_handler) \<Rightarrow> 'w asio \<Rightarrow> 'w server_st \<Rightarrow> ('v, 'w) open_network \<Rightarrow> bool"
  for A R B s0 where
  open_refl: "sessions s0 = [] \<Longrightarrow> open_run A R B s0 \<lparr>srv_open = s0, members = []\<rparr>"
| open_next: "open_run A R B s0 N \<Longrightarrow> open_step A R B N N' \<Longrightarrow> open_run A R B s0 N'"

subsection \<open>Each connection is a failing connection in a shared world\<close>

definition member_ok ::
  "'v asio \<Rightarrow> 'v response_handler \<Rightarrow> 'w asio \<Rightarrow> 'w request_handler \<Rightarrow> 'w server_st \<Rightarrow> nat \<Rightarrow> ('v, 'w) member \<Rightarrow> bool"
where
  "member_ok A R B H s i p \<longleftrightarrow>
     (\<exists>l0. flaky_start l0 \<and> world (client_end (net l0)) = came_in p \<and>
        write_buffer (server_end (net l0)) = new_message \<and>
        flaky_run A R B H l0 (calls_made p) (member_view s i p))"

definition members_ok ::
  "'v asio \<Rightarrow> (nat \<Rightarrow> 'v response_handler) \<Rightarrow> 'w asio \<Rightarrow> 'w request_handler \<Rightarrow> 'w server_st \<Rightarrow>
   ('v, 'w) member option list \<Rightarrow> bool"
where
  "members_ok A R B H s ms \<longleftrightarrow> srv_handler s = H \<and> length ms = length (sessions s) \<and>
     (\<forall>i p. i < length ms \<longrightarrow> ms ! i = Some p \<longrightarrow> member_ok A (R i) B H s i p)"

lemma members_okD:
  "members_ok A R B H s ms \<Longrightarrow> i < length ms \<Longrightarrow> ms ! i = Some p \<Longrightarrow> member_ok A (R i) B H s i p"
  by (simp add: members_ok_def)

text \<open>What happens elsewhere may change the world of the server.\<close>

lemma member_view_other:
  assumes "sessions t ! i = sessions s ! i"
  shows "member_view t i p = (member_view s i p)
    \<lparr>net := (net (member_view s i p))\<lparr>server_end := (server_end (net (member_view s i p)))\<lparr>world := srv_world t\<rparr>\<rparr>\<rparr>"
  using attach_world [of "sessions s ! i" "srv_world t" "srv_world s"] assms by (simp add: member_view_def)

lemma member_ok_other:
  assumes "member_ok A R B H s i p" and "sessions t ! i = sessions s ! i"
  shows "member_ok A R B H t i p"
  using assms(1) unfolding member_ok_def member_view_other [OF assms(2)] by (blast intro: flaky_others)

lemma member_ok_new:
  assumes "sessions s ! i = session.truncate (server_start (new_session sock w))"
  shows "member_ok A R B H s i (new_member h v)"
proof -
  let ?l = "member_view s i (new_member h v)"
  have "flaky_start ?l"
    using assms by (simp add: flaky_start_def member_view_def new_member_def client_start_def server_start_def
        new_session_def past_handshake_def ready_def do_defs header_prepare_read)
  moreover have "flaky_run A R B H ?l (calls_made (new_member h v)) ?l"
    by (simp add: new_member_def flaky_refl)
  ultimately show ?thesis
    unfolding member_ok_def using assms
    by (intro exI [of _ ?l])
      (simp add: member_view_def new_member_def client_start_def server_start_def new_session_def do_defs)
qed

lemma member_view_moved:
  assumes "i < length (sessions s)"
  shows "member_view (server_moved_to i (server_end (net l)) s) i (member_moved s i l p) = l"
  using assms by (simp add: member_view_def server_moved_to_def member_moved_def)

lemma member_comes_ok:
  assumes ok: "members_ok A R B H s ms" and up: "is_listening B s"
  shows "members_ok A R B H (accept_completed B Success sock s) (ms @ [Some (new_member h v)])"
proof -
  let ?s = "accept_completed B Success sock s" and ?n = "length ms"
  have ss: "sessions ?s = sessions s @ [session.truncate (server_start (new_session sock (srv_world s)))]"
    and n: "?n = length (sessions s)"
    using up ok by (simp_all add: accept_completed_fields members_ok_def)
  have "member_ok A (R i) B H ?s i p" if "i < Suc ?n" and "(ms @ [Some (new_member h v)]) ! i = Some p" for i p
  proof (cases "i < ?n")
    case True
    with that(2) have "ms ! i = Some p" by (simp add: nth_append)
    from member_ok_other [OF members_okD [OF ok True this]] show ?thesis
      using True n ss by (simp add: nth_append)
  next
    case False
    with that(1) have "i = ?n" by simp
    moreover from this that(2) have "p = new_member h v" by simp
    ultimately show ?thesis using ss n by (auto intro: member_ok_new simp: nth_append)
  qed
  with ok ss n show ?thesis by (simp add: members_ok_def accept_completed_fields)
qed

lemma member_moves_ok:
  assumes ok: "members_ok A R B H s ms" and i: "i < length ms" "ms ! i = Some p"
    and step: "abrupt_step A (R i) B H (member_view s i p) l"
  shows "members_ok A R B H (server_moved_to i (server_end (net l)) s) (ms[i := Some (member_moved s i l p)])"
proof -
  let ?s = "server_moved_to i (server_end (net l)) s"
  have n: "i < length (sessions s)" using ok i(1) by (simp add: members_ok_def)
  have "member_ok A (R i) B H ?s i (member_moved s i l p)"
  proof -
    from members_okD [OF ok i] obtain l0 where "flaky_start l0" "world (client_end (net l0)) = came_in p"
      "write_buffer (server_end (net l0)) = new_message"
      "flaky_run A (R i) B H l0 (calls_made p) (member_view s i p)"
      unfolding member_ok_def by blast
    with flaky_steps [OF this(4) step] show ?thesis
      unfolding member_ok_def member_view_moved [OF n] by (auto simp: member_moved_def)
  qed
  moreover have "member_ok A (R j) B H ?s j q" if "j \<noteq> i" "j < length ms" "ms ! j = Some q" for j q
    by (rule member_ok_other [OF members_okD [OF ok that(2,3)]]) (use that(1) in \<open>simp add: server_moved_to_def\<close>)
  ultimately have "member_ok A (R j) B H ?s j q"
    if "j < length ms" "ms[i := Some (member_moved s i l p)] ! j = Some q" for j q
    using that i(1) by (cases "j = i") simp_all
  moreover have "sessions ?s = (sessions s)[i := session.truncate (server_end (net l))]" "srv_handler ?s = srv_handler s"
    by (simp_all add: server_moved_to_def)
  ultimately show ?thesis using ok by (simp add: members_ok_def)
qed

lemma members_rest_ok:
  assumes ok: "members_ok A R B H s ms" and keep: "leaves_members ms s t" and H: "srv_handler t = srv_handler s"
  shows "members_ok A R B H t (with_others ms t)"
proof -
  have "member_ok A (R i) B H t i p" if "i < length ms" "ms ! i = Some p" for i p
    using keep that by (intro member_ok_other [OF members_okD [OF ok that]]) (simp add: leaves_members_def)
  with ok keep H show ?thesis
    by (auto simp: members_ok_def leaves_members_def with_others_def nth_append split: if_splits)
qed

lemma open_run_ok: "open_run A R B s0 N \<Longrightarrow> members_ok A R B (srv_handler s0) (srv_open N) (members N)"
proof (induction rule: open_run.induct)
  case open_refl
  then show ?case by (simp add: members_ok_def)
next
  case (open_next N N')
  note ok = open_next.IH
  have H: "srv_handler (srv_open N) = srv_handler s0" using ok by (simp add: members_ok_def)
  from open_next.hyps(2) show ?case
  proof cases
    case (open_comes sock h v)
    with member_comes_ok [OF ok] show ?thesis by simp
  next
    case (open_moves i p l)
    with member_moves_ok [OF ok open_moves(2,3)] H show ?thesis by simp
  next
    case (open_rest s)
    with members_rest_ok [OF ok open_rest(3)] server_step_handler [OF open_rest(2)] show ?thesis by simp
  qed
qed

text \<open>What the handler has seen of a member and what the member has been told.\<close>

lemma member_told:
  assumes "fitting_handler H" and "members_ok A R B H s ms" and "i < length ms" and "ms ! i = Some p"
    and "socket_calls_keep A g" and "sees_only g (R i)"
  defines "es \<equiv> calls_made p"
  shows "length (sent p) \<le> Suc (length es) \<and> map fst es = take (length es) (sent p) \<and>
    (\<exists>j. j \<le> length es \<and> length (sent p) \<le> Suc j \<and>
       (client_runs p \<and> pending (peer_end p) = [] \<longrightarrow> j = length (sent p)) \<and>
       g (world (peer_end p)) = g (told (R i) (take j (replies H new_message es)) (came_in p)))"
proof -
  from members_okD [OF assms(2-4)] obtain l0 where l0: "flaky_start l0"
    "world (client_end (net l0)) = came_in p" "write_buffer (server_end (net l0)) = new_message"
    and run: "flaky_run A (R i) B H l0 (calls_made p) (member_view s i p)"
    unfolding member_ok_def by blast
  from fitting_handler.flaky_run_told [OF assms(1) run l0(1) assms(5,6)]
  show ?thesis by (simp add: member_view_def l0(2,3) es_def)
qed

text \<open>As long as neither end of its connection has failed or been stopped it can still be told everything.\<close>

lemma member_quiet:
  assumes "fitting_handler H" and "members_ok A R B H s ms" and "i < length ms" and "ms ! i = Some p"
    and "socket_calls_keep A g" and "sees_only g (R i)" and "client_runs p" and "session_runs p"
  obtains l where "(completes A (R i) B H)\<^sup>*\<^sup>* (member_view s i p) l" and "client_up l" and "server_up l"
    and "pending (client_end (net l)) = []" and "asked (net l) = sent p"
proof -
  from members_okD [OF assms(2-4)] obtain l0 where l0: "flaky_start l0"
    and run: "flaky_run A (R i) B H l0 (calls_made p) (member_view s i p)"
    unfolding member_ok_def by blast
  from fitting_handler.flaky_run_quiet [OF assms(1) run l0 assms(5,6)] assms(7,8) that
  show thesis by (auto simp: member_view_def)
qed

text \<open>Conversely, a member can do whatever a failing connection can.\<close>

lemma member_does:
  assumes "abrupt_run A (R i) B (srv_handler s0) l0 l" and "open_run A R B s0 N0"
    and "i < length (members N0)" and "members N0 ! i = Some p0" and "l0 = member_view (srv_open N0) i p0"
  shows "\<exists>N p. open_run A R B s0 N \<and> i < length (members N) \<and> members N ! i = Some p \<and>
    member_view (srv_open N) i p = l \<and> came_in p = came_in p0"
  using assms
proof (induction rule: abrupt_run.induct)
  case (abrupt_refl l0)
  then show ?case by blast
next
  case (abrupt_next l0 l k)
  then obtain N p where N: "open_run A R B s0 N" "i < length (members N)" "members N ! i = Some p"
    and l: "member_view (srv_open N) i p = l" "came_in p = came_in p0" by blast
  note ok = open_run_ok [OF N(1)]
  have step: "abrupt_step A (R i) B (srv_handler (srv_open N)) (member_view (srv_open N) i p) k"
    using abrupt_next.hyps(2) ok l(1) by (simp add: members_ok_def)
  have "i < length (sessions (srv_open N))" using ok N(2) by (simp add: members_ok_def)
  then show ?case
    using open_next [OF N(1) open_moves [where A = A and R = R, OF N(2,3) step]] N(2) l(2)
    by (intro exI [of _ "\<lparr>srv_open = server_moved_to i (server_end (net k)) (srv_open N),
            members = (members N)[i := Some (member_moved (srv_open N) i k p)]\<rparr>"]
        exI [of _ "member_moved (srv_open N) i k p"])
      (simp add: member_view_moved, simp add: member_moved_def)
qed

subsection \<open>The server of the network is a server\<close>

lemma abrupt_step_server:
  assumes "abrupt_step A R B H l l'"
  shows "server_end (net l') = server_end (net l) \<or>
    (\<exists>x ec d. pending (server_end (net l)) = [x] \<and> admissible x ec d \<and>
       deliver B (server_session B H) 0 ec d (server_end (net l)) = Inr (server_end (net l')))"
  using assms
proof cases
  case (abrupt_server_writes x s)
  then have "admissible x Success []" by (cases x) simp_all
  with abrupt_server_writes show ?thesis by auto
next
  case (abrupt_server_reads x n s)
  then have "admissible x Success (take n (to_server (net l)))" by (cases x) simp_all
  with abrupt_server_reads show ?thesis by auto
next
  case (abrupt_server_fails x ec d s i)
  then show ?thesis by auto
next
  case (abrupt_server_ends x ec s)
  then have "admissible x ec []" by (cases x) simp_all
  with abrupt_server_ends show ?thesis by auto
qed (simp_all add: link_send_def)

lemma moved_is_event:
  assumes "i < length (sessions s)" and "abrupt_step A R B (srv_handler s) (member_view s i p) l"
  shows "server_moved_to i (server_end (net l)) s = s \<or> server_step B s (server_moved_to i (server_end (net l)) s)"
proof -
  let ?t = "server_end (net (member_view s i p))"
  have t: "?t = attach (sessions s ! i) (srv_world s)" by (simp add: member_view_def)
  from abrupt_step_server [OF assms(2)] show ?thesis
  proof (elim disjE exE conjE)
    assume "server_end (net l) = ?t"
    then show ?thesis by (simp add: server_moved_to_def t)
  next
    fix x ec d assume x: "pending ?t = [x]" "admissible x ec d"
      and step: "deliver B (server_session B (srv_handler s)) 0 ec d ?t = Inr (server_end (net l))"
    have "session_event B i 0 ec d s = Inr (server_moved_to i (server_end (net l)) s)"
      using step by (simp add: session_event_def server_moved_to_def t)
    with assms(1) x show ?thesis
      by (intro disjI2 step_session [of i _ 0 ec d]) (simp_all add: t)
  qed
qed

lemma open_run_server: "open_run A R B s0 N \<Longrightarrow> server_run B s0 (srv_open N)"
proof (induction rule: open_run.induct)
  case open_refl
  show ?case by (simp add: server_run_refl)
next
  case (open_next N N')
  have n: "length (members N) = length (sessions (srv_open N))"
    using open_run_ok [OF open_next.hyps(1)] by (simp add: members_ok_def)
  from open_next.hyps(2) open_next.IH n show ?case
    by cases (auto intro: server_run_step step_accept dest: moved_is_event [rotated])
qed

end
