(* ===== verification/Server_Properties.thy ===== *)
theory Server_Properties
  imports Server Sample_Session
begin

section \<open>Properties of the server\<close>

text \<open>
  The statements about \<open>class server\<close>: its sessions and its handler in every state it reaches, the
  accept loop under \<open>start\<close>, \<open>stop\<close> and restarts, and what the setters and queries do.
\<close>

text \<open>A server on the small host, and one that listens.\<close>

definition sample_server :: "tiny server_st" where
  "sample_server = new_server_at tiny_asio (local_endpoint 8443) handle_request default_cipher_suite tiny_world"

definition listening_server :: "tiny server_st" where
  "listening_server = start_server tiny_asio sample_server"

lemma sample_server_fields [simp]:
  "srv_acceptor sample_server = 1" "srv_endpoint sample_server = local_endpoint 8443"
  "accepts sample_server = 0" "sessions sample_server = []"
  "srv_world sample_server = tiny_world\<lparr>fresh := Suc 1\<rparr>"
  by (simp_all add: sample_server_def new_server_at_def)

lemma sample_not_listening [simp]: "\<not> is_listening tiny_asio sample_server"
  by (simp add: is_listening_def)

lemma listening_server_fields [simp]:
  "is_listening tiny_asio listening_server" "accepts listening_server = 1"
  "srv_endpoint listening_server = local_endpoint 8443" "sessions listening_server = []"
  by (simp_all add: listening_server_def start_listens tiny_acceptor_laws)

subsection \<open>Sessions and handler in every reachable state\<close>

lemma server_inv_sequential: "server_inv s \<Longrightarrow> sequential s"
  by (cases "(s, pending s)" rule: server_pending_ok.cases) (auto simp: server_inv_def sequential_def)

text \<open>C23: However the connections, completions, starts, stops and setters of a server interleave, each of
  its sessions has at most one outstanding operation, on memory nobody touches, and all share the
  handler the server was constructed with: \<open>set_request_handler\<close> never takes effect.\<close>

theorem server_sessions_safe:
  assumes "server_run A (new_server_at A ep H cs w) s"
  shows "srv_handler s = H \<and>
    (\<forall>x \<in> set (sessions s). length (pending x) \<le> 1 \<and>
       (\<forall>y \<in> set (pending x). op_stable (attach x (srv_world s)) y))"
proof -
  have "sessions (new_server_at A ep H cs w) = []" "srv_handler (new_server_at A ep H cs w) = H"
    by (simp_all add: new_server_at_def split: prod.split)
  with server_run_sessions [OF assms] server_run_handler [OF assms]
  have "list_all (session_ok (srv_world s)) (sessions s)" "srv_handler s = H" by simp_all
  then show ?thesis
    by (auto simp: list_all_iff session_ok_def sequential_def dest!: bspec server_inv_sequential)
qed

lemma server_sessions_safe_witness:
  "let s = accept_completed tiny_asio Success 7 listening_server
   in length (sessions s) = 1 \<and> srv_handler s = handle_request \<and>
    (\<forall>x \<in> set (sessions s). length (pending x) \<le> 1 \<and>
       (\<forall>y \<in> set (pending x). op_stable (attach x (srv_world s)) y))"
proof -
  let ?s = "accept_completed tiny_asio Success 7 listening_server"
  have "server_step tiny_asio sample_server listening_server"
    unfolding listening_server_def by (rule step_start)
  moreover have "server_step tiny_asio listening_server ?s" by (rule step_accept) simp
  ultimately have "server_run tiny_asio sample_server ?s"
    by (blast intro: server_run_refl server_run_step)
  from server_sessions_safe [OF this [unfolded sample_server_def]]
  show ?thesis by (simp add: Let_def accept_completed_fields)
qed

subsection \<open>The accept loop\<close>

text \<open>Starting a server that does not listen, when the acceptor can be opened, makes it listen with
  exactly one more accept outstanding, and starting it again changes nothing.\<close>

theorem start_listens_once:
  assumes "acceptor_laws A" and "\<not> is_listening A s"
    and "fst (acceptor_open A (srv_acceptor s) (ep_protocol (srv_endpoint s)) (srv_world s)) = Success"
  shows "is_listening A (start_server A s) \<and> accepts (start_server A s) = Suc (accepts s) \<and>
    sessions (start_server A s) = sessions s \<and>
    start_server A (start_server A s) = start_server A s"
proof -
  have listening: "is_listening A (start_server A s)" using assms(1,3) by (rule start_listens)
  then have "start_server A (start_server A s) = start_server A s"
    by (simp add: start_server_def [of A "start_server A s"] start_listening_def)
  with listening assms(2) show ?thesis by simp
qed

lemma start_listens_once_witness:
  "is_listening tiny_asio (start_server tiny_asio sample_server) \<and>
    accepts (start_server tiny_asio sample_server) = Suc (accepts sample_server) \<and>
    sessions (start_server tiny_asio sample_server) = sessions sample_server \<and>
    start_server tiny_asio (start_server tiny_asio sample_server) = start_server tiny_asio sample_server"
  by (rule start_listens_once) (simp_all add: tiny_acceptor_laws del: ep_protocol.simps)

text \<open>While a server listens, the completion of an accept, whatever its error code, is followed by
  the next accept, and starts a session, waiting for its handshake as a server, exactly when the
  accept succeeded.\<close>

theorem accept_loop_continues:
  assumes "is_listening A s" and "0 < accepts s"
  shows "accepts (accept_completed A ec k s) = accepts s \<and>
    (if ec = Success
     then \<exists>x. sessions (accept_completed A ec k s) = sessions s @ [x] \<and> socket x = k \<and>
            pending x = [Op_Handshake Handshake_Server]
     else sessions (accept_completed A ec k s) = sessions s)"
  using assms
  by (simp add: accept_completed_fields server_start_def do_defs new_session_def)

lemma accept_loop_continues_witness:
  "accepts (accept_completed tiny_asio Success 7 listening_server) = accepts listening_server \<and>
    (if Success = Success
     then \<exists>x. sessions (accept_completed tiny_asio Success 7 listening_server) = sessions listening_server @ [x] \<and>
            socket x = 7 \<and> pending x = [Op_Handshake Handshake_Server]
     else sessions (accept_completed tiny_asio Success 7 listening_server) = sessions listening_server)"
  by (rule accept_loop_continues) simp_all

text \<open>After \<open>stop\<close> returned, the server does not listen, each outstanding accept ends the accept loop
  when it completes, even one that had succeeded, and every session goes on as if nothing had
  happened.\<close>

theorem stop_ends_accepting:
  assumes "stop_server A s = Inr t" and "acceptor_laws A"
  shows "\<not> is_listening A t \<and> sessions t = sessions s \<and> accepts t = accepts s \<and>
    accepts (accept_completed A ec k t) = accepts t - 1 \<and>
    sessions (accept_completed A ec k t) = sessions s"
  using stop_not_listening [OF assms(2,1)] stop_server_fields [OF assms(1)]
  by (simp add: accept_completed_fields)

lemma stop_ends_accepting_witness:
  "\<exists>t. stop_server tiny_asio listening_server = Inr t \<and>
    (\<not> is_listening tiny_asio t \<and> sessions t = sessions listening_server \<and> accepts t = accepts listening_server \<and>
     accepts (accept_completed tiny_asio Success 7 t) = accepts t - 1 \<and>
     sessions (accept_completed tiny_asio Success 7 t) = sessions listening_server)"
proof -
  obtain t where t: "stop_server tiny_asio listening_server = Inr t"
    by (simp add: stop_server_def tiny_close_def)
  show ?thesis by (intro exI [of _ t] conjI t stop_ends_accepting [OF t tiny_acceptor_laws, of Success 7, THEN conjunct1]
        stop_ends_accepting [OF t tiny_acceptor_laws, of Success 7, THEN conjunct2])
qed

text \<open>C35: A server that is stopped and started again before the accept of its first life has completed
  has two accepts outstanding, and when the first then completes as cancelled it is renewed, because
  its handler only asks whether the acceptor is open: the two accept loops go on side by side and
  share one socket.\<close>

theorem restart_doubles_accept_loop:
  assumes "acceptor_laws A" and "is_listening A s" and "accepts s = 1" and "stop_server A s = Inr t"
    and "fst (acceptor_open A (srv_acceptor t) (ep_protocol (srv_endpoint t)) (srv_world t)) = Success"
  shows "is_listening A (start_server A t) \<and> accepts (start_server A t) = 2 \<and>
    accepts (accept_completed A Operation_Aborted k (start_server A t)) = 2"
proof -
  have "\<not> is_listening A t" using assms(1,4) by (rule stop_not_listening)
  then have "accepts (start_server A t) = 2" using assms(3) stop_server_fields [OF assms(4)] by simp
  moreover have "is_listening A (start_server A t)" using assms(1,5) by (rule start_listens)
  ultimately show ?thesis by (simp add: accept_completed_fields)
qed

lemma restart_doubles_accept_loop_witness:
  "\<exists>t. stop_server tiny_asio listening_server = Inr t \<and>
    (is_listening tiny_asio (start_server tiny_asio t) \<and> accepts (start_server tiny_asio t) = 2 \<and>
     accepts (accept_completed tiny_asio Operation_Aborted 0 (start_server tiny_asio t)) = 2)"
proof -
  obtain t where t: "stop_server tiny_asio listening_server = Inr t"
    by (simp add: stop_server_def tiny_close_def)
  have "is_listening tiny_asio (start_server tiny_asio t) \<and> accepts (start_server tiny_asio t) = 2 \<and>
     accepts (accept_completed tiny_asio Operation_Aborted 0 (start_server tiny_asio t)) = 2"
    by (rule restart_doubles_accept_loop [OF tiny_acceptor_laws _ _ t])
      (simp_all del: ep_protocol.simps)
  with t show ?thesis by blast
qed

text \<open>C37: A server whose endpoint cannot be bound, for example because another service uses the port,
  still reports that it started listening: it prints the message, answers that it listens, and waits
  for connections.\<close>

theorem failed_bind_still_listens:
  assumes "acceptor_laws A" and "\<not> is_listening A s"
    and "fst (acceptor_open A (srv_acceptor s) (ep_protocol (srv_endpoint s)) (srv_world s)) = Success"
    and "\<And>w. fst (acceptor_bind A (srv_acceptor s) (srv_endpoint s) w) = Address_In_Use"
  shows "is_listening A (start_server A s) \<and> accepts (start_server A s) = Suc (accepts s) \<and>
    (\<exists>time. debug_line time (''SERVER | started listening on <'' @ get_address_port A s @ ''>.'') []
       \<in> set (srv_console (start_server A s)))"
proof -
  have "\<exists>time. debug_line time (''SERVER | started listening on <'' @ get_address_port A s @ ''>.'') []
       \<in> set (srv_console (start_server A s))"
    using assms(2) by (rule start_server_console)
  with assms(2) start_listens [OF assms(1,3)] show ?thesis by simp
qed

lemma failed_bind_still_listens_witness:
  "let s = sample_server\<lparr>srv_endpoint := local_endpoint 80, srv_world := tiny_world\<rparr>
   in \<exists>B. is_listening B (start_server B s) \<and> accepts (start_server B s) = Suc (accepts s) \<and>
    (\<exists>time. debug_line time (''SERVER | started listening on <'' @ get_address_port B s @ ''>.'') []
       \<in> set (srv_console (start_server B s)))"
proof -
  let ?B = "tiny_asio\<lparr>acceptor_bind := \<lambda>h e w. (Address_In_Use, w)\<rparr>"
  have laws: "acceptor_laws ?B" using tiny_acceptor_laws by (simp add: acceptor_laws_def)
  show ?thesis unfolding Let_def
    by (rule exI [of _ ?B], rule failed_bind_still_listens [OF laws])
      (simp_all add: is_listening_def del: ep_protocol.simps)
qed

subsection \<open>Setters and queries\<close>

text \<open>C36: On a server that listens, \<open>set_address\<close> answers false, as for a change it refuses, but the
  endpoint has the new address, while \<open>set_port\<close> and \<open>set_endpoint\<close> answer false; apart from that
  each of the three writes one line to the console, which tells the user to stop the server first, and
  changes nothing else of the server or the world.\<close>

theorem set_address_while_listening:
  assumes "is_listening A s" and "address_from_string A text = (Success, a)"
  shows "let told = \<lambda>what. srv_console s @ [debug_line (local_time A (srv_world s))
      (''Could not change the '' @ what) ''Stop the server before making any changes'']
    in set_address A text s =
        (False, s\<lparr>srv_endpoint := (srv_endpoint s)\<lparr>ep_address := a\<rparr>, srv_console := told ''address''\<rparr>) \<and>
      set_port A p s = Inr (False, s\<lparr>srv_console := told ''port''\<rparr>) \<and>
      set_endpoint A ep s = (False, s\<lparr>srv_console := told ''endpoint''\<rparr>)"
proof -
  have "is_listening A (s\<lparr>srv_endpoint := e\<rparr>)" for e
    using assms(1) by (simp add: is_listening_def)
  with assms show ?thesis
    by (simp add: set_address_def set_address_checked_def set_port_def set_endpoint_def Let_def server_debug_def)
qed

lemma set_address_while_listening_witness:
  "fst (set_address tiny_asio ''127.0.0.1'' listening_server) = False \<and>
    srv_endpoint (snd (set_address tiny_asio ''127.0.0.1'' listening_server)) =
      (srv_endpoint listening_server)\<lparr>ep_address := V4 0x7F000001\<rparr> \<and>
    (\<exists>lines. set_port tiny_asio 1 listening_server = Inr (False, listening_server\<lparr>srv_console := lines\<rparr>)) \<and>
    (\<exists>lines. set_endpoint tiny_asio (local_endpoint 2) listening_server = (False, listening_server\<lparr>srv_console := lines\<rparr>))"
proof -
  have "is_listening tiny_asio listening_server" "address_from_string tiny_asio ''127.0.0.1'' = (Success, V4 0x7F000001)"
    by simp_all
  from set_address_while_listening [OF this, of 1 "local_endpoint 2"] show ?thesis by (auto simp: Let_def)
qed

text \<open>On a server that does not listen, \<open>set_port\<close> succeeds exactly when a trial bind of the port does
  not answer that the address is in use; then the endpoint has the new port and its old address, and
  otherwise it is unchanged, in both cases without sessions, accepts or handler being touched.\<close>

theorem set_port_when_stopped:
  assumes "\<not> is_listening A s" and "port_in_use A p s = Inr (used, t)"
  shows "\<exists>s'. set_port A p s = Inr (\<not> used, s') \<and>
    srv_endpoint s' = (if used then srv_endpoint s else (srv_endpoint s)\<lparr>ep_port := p\<rparr>) \<and>
    sessions s' = sessions s \<and> accepts s' = accepts s \<and> srv_handler s' = srv_handler s"
proof -
  have "srv_endpoint t = srv_endpoint s" "sessions t = sessions s" "accepts t = accepts s"
    "srv_handler t = srv_handler s"
    using assms(2) by (auto simp: port_in_use_def Let_def split: prod.splits if_splits)
  with assms show ?thesis by (cases used) (simp_all add: set_port_def Let_def)
qed

lemma set_port_when_stopped_witness:
  "\<exists>s'. set_port tiny_asio 80 sample_server = Inr (\<not> True, s') \<and>
    srv_endpoint s' = (if True then srv_endpoint sample_server else (srv_endpoint sample_server)\<lparr>ep_port := 80\<rparr>) \<and>
    sessions s' = sessions sample_server \<and> accepts s' = accepts sample_server \<and>
    srv_handler s' = srv_handler sample_server"
  by (rule set_port_when_stopped [where t = "sample_server\<lparr>srv_world := tiny_world\<lparr>fresh := 3\<rparr>\<rparr>"])
    (simp_all add: port_in_use_def tiny_close_def Let_def numeral_3_eq_3 numeral_2_eq_2 tiny_world_def
      del: ep_protocol.simps)

text \<open>When the host has a name and the name resolves, \<open>get_local_addresses\<close> returns the texts of all
  addresses it resolves to, in the order of the resolver, without the version 6 addresses when only
  version 4 ones are asked for.\<close>

theorem local_addresses_filtered:
  assumes "host_name A (srv_world s) = Inr name" and "resolve A name [] (srv_world s) = Inr res"
  shows "get_local_addresses A only_ipv4 s =
     Inr (map (address_to_string A) (filter (\<lambda>a. is_v4 a \<or> \<not> only_ipv4) (map ep_address res)))"
  using assms by (simp add: get_local_addresses_def collect_addresses_append)

lemma local_addresses_filtered_witness: "get_local_addresses tiny_asio True sample_server = Inr []"
proof -
  have "host_name tiny_asio (srv_world sample_server) = Inr ''host''"
    "resolve tiny_asio ''host'' [] (srv_world sample_server) = Inr []"
    by (simp_all add: tiny_asio_def)
  from local_addresses_filtered [OF this, of True] show ?thesis by simp
qed

end
