(* ===== verification/Network_Properties.thy ===== *)
theory Network_Properties
  imports Open_Network Link_Properties Server_Properties
begin

section \<open>Properties of a server with many clients\<close>

text \<open>
  What each client of a server is told, whatever the other clients, further connections and the owner
  of the server do at the same time, and whatever fails.
\<close>

lemma server_session_connection:
  assumes "network_run A R B N0 N" and "network_start N0" and "i < length (peers N)"
  shows "link_start (view N0 i) \<and> shared_run A (R i) B (srv_handler (srv N0)) (view N0 i)
    (calls_made (peers N ! i)) (view N i) \<and> srv_handler (srv N) = srv_handler (srv N0)"
  using network_run_connections [OF assms(1,2)] assms(2,3)
  by (simp add: connections_ok_def network_start_def)

text \<open>A server with two clients, and the same when the first client has sent a message.\<close>

definition echo_server_st :: "tiny server_st" where
  "echo_server_st =
     (new_server_at tiny_asio (local_endpoint 8443) handle_request default_cipher_suite tiny_world)
       \<lparr>sessions := [session.truncate sample_session, session.truncate sample_session]\<rparr>"

definition sample_peer :: "(tiny, tiny) peer" where
  "sample_peer =
     \<lparr>peer_end = new_session 6 (open_world 6), up = [], down = [], sent = [], calls_made = []\<rparr>"

definition sample_network :: "(tiny, tiny) network" where
  "sample_network = \<lparr>srv = echo_server_st, peers = [sample_peer, sample_peer]\<rparr>"

definition sample_busy :: "(tiny, tiny) network" where
  "sample_busy = put 0 (link_send (message_of ''hi'') (view sample_network 0)) sample_network"

lemma echo_server_st_fields [simp]:
  "sessions echo_server_st = [session.truncate sample_session, session.truncate sample_session]"
  "srv_handler echo_server_st = handle_request"
  by (simp_all add: echo_server_st_def new_server_at_def)

lemma sample_network_start: "network_start sample_network"
proof -
  have "ready (attach (session.truncate sample_session) w)" for w :: tiny
    by (simp add: ready_def new_message_def)
  then show ?thesis
    by (simp add: network_start_def sample_network_def sample_peer_def view_def link_start_def
        new_session_def less_Suc_eq)
qed

lemma sample_busy_run: "network_run A R tiny_asio sample_network sample_busy"
  unfolding sample_busy_def
  by (intro network_next [OF network_refl] net_send)
    (simp_all add: sample_network_def sample_peer_def new_session_def fits_def)

lemma sample_busy_fields [simp]:
  "length (peers sample_busy) = 2" "peers sample_busy ! Suc 0 = sample_peer"
  "srv_handler (srv sample_busy) = handle_request"
  "pending (peer_end (peers sample_busy ! 0)) = [Op_Write_Header (header_buffer (message_of ''hi''))]"
  by (simp_all add: sample_busy_def sample_network_def put_def view_def link_send_def sample_peer_def
      client_session_send_def do_defs Let_def new_session_def header_prepare_write)

lemma echo_responses_fit:
  "fits (content_buffer q) \<Longrightarrow> fits (content_buffer (fst (srv_handler (srv sample_network) q r w)))"
  by (simp add: sample_network_def content_handle_request)

lemma replies_echo: "replies handle_request out es = map fst es"
  by (induction es arbitrary: out) (auto simp: content_handle_request)

text \<open>C6: However the completions of all clients and sessions interleave, and whatever further connections,
  hostile peers and calls of the owner do to the server and to the world its handler works on: for
  each client that is quiet, the handler has been called on exactly the messages it sent, in order and
  each once, the client has been told exactly the answers to these calls, in order, and its channels
  are empty; and for each client that waits, some completion of its own connection is possible.\<close>

theorem network_conversations:
  assumes "\<And>q r w. fits (content_buffer q) \<Longrightarrow> fits (content_buffer (fst (srv_handler (srv N0) q r w)))"
    and "network_start N0" and "network_run A R B N0 N" and "i < length (peers N)"
  shows "(pending (peer_end (peers N ! i)) = [] \<longrightarrow>
      map fst (calls_made (peers N ! i)) = sent (peers N ! i) \<and>
      world (peer_end (peers N ! i)) =
        told (R i) (replies (srv_handler (srv N)) (write_buffer (sessions (srv N0) ! i)) (calls_made (peers N ! i)))
          (world (peer_end (peers N0 ! i))) \<and>
      up (peers N ! i) = [] \<and> down (peers N ! i) = []) \<and>
    (pending (peer_end (peers N ! i)) \<noteq> [] \<longrightarrow>
      (\<exists>l. link_completion A (R i) B (srv_handler (srv N)) (view N i) l \<and> network_step A R B N (put i l N)))"
proof -
  from server_session_connection [OF assms(3,2,4)] have start: "link_start (view N0 i)"
    and run: "shared_run A (R i) B (srv_handler (srv N0)) (view N0 i) (calls_made (peers N ! i)) (view N i)"
    and H: "srv_handler (srv N) = srv_handler (srv N0)"
    by simp_all
  have "fitting_handler (srv_handler (srv N0))" by unfold_locales (rule assms(1))
  from fitting_handler.shared_run_inv [OF this run start] show ?thesis
  proof
    assume "shared_idle (R i) (srv_handler (srv N0)) (write_buffer (server_end (view N0 i)))
        (world (client_end (view N0 i))) (calls_made (peers N ! i)) (view N i)"
    then show ?thesis by (simp add: shared_idle_def view_def H)
  next
    assume busy: "shared_busy (R i) (srv_handler (srv N0)) (write_buffer (server_end (view N0 i)))
        (world (client_end (view N0 i))) (calls_made (peers N ! i)) (view N i)"
    then have "pending (client_end (view N i)) \<noteq> []"
      by (cases rule: shared_busy.cases) (auto simp: shared_asking_def dest: asking_busy)
    moreover obtain l where "link_completion A (R i) B (srv_handler (srv N)) (view N i) l"
      using shared_busy_progress [OF busy, of A B] H by auto
    ultimately show ?thesis using net_completion [OF assms(4)] by (auto simp: view_def)
  qed
qed

lemma network_conversations_witness:
  "\<exists>l. link_completion tiny_asio (handle_response []) tiny_asio handle_request (view sample_busy 0) l \<and>
    network_step tiny_asio (\<lambda>i. handle_response []) tiny_asio sample_busy (put 0 l sample_busy)"
proof -
  have "0 < length (peers sample_busy)" by (subst sample_busy_fields(1)) simp
  from network_conversations [OF echo_responses_fit sample_network_start sample_busy_run this,
      where R = "\<lambda>i. handle_response []" and A = tiny_asio]
  show ?thesis by simp
qed

text \<open>The example server echoes to each of its clients exactly what that client sent, however many there
  are and whatever else the server does: no client ever sees the bytes of another.\<close>

theorem network_echo:
  assumes "srv_handler (srv N0) = handle_request" and "network_start N0"
    and "network_run A R B N0 N" and "i < length (peers N)" and "pending (peer_end (peers N ! i)) = []"
  shows "world (peer_end (peers N ! i)) = told (R i) (sent (peers N ! i)) (world (peer_end (peers N0 ! i)))"
proof -
  from server_session_connection [OF assms(3,2,4)] have start: "link_start (view N0 i)"
    and run: "shared_run A (R i) B handle_request (view N0 i) (calls_made (peers N ! i)) (view N i)"
    by (simp_all add: assms(1))
  from echo_handler.shared_run_inv [OF run start] show ?thesis
    using assms(5)
    by (auto simp: shared_idle_def view_def replies_echo shared_asking_def
        elim!: shared_busy.cases dest: asking_busy)
qed

lemma network_echo_witness:
  "world (peer_end (peers sample_busy ! Suc 0)) =
    told (handle_response []) (sent (peers sample_busy ! Suc 0)) (world (peer_end (peers sample_network ! Suc 0)))"
  by (rule network_echo [OF _ sample_network_start sample_busy_run [where R = "\<lambda>i. handle_response []" and A = tiny_asio]])
    (simp_all add: sample_network_def, simp_all add: sample_peer_def new_session_def)

text \<open>C7: From before the first connection on, while clients come, shake hands, send, fail and are stopped at
  any time, the server accepts any other peers and its owner calls it: the handler has been called on a
  beginning of what each client sent, each message whole, in order and once, and at most the last is
  missing; the client has been told the answers to these calls, in order, and at most that to the last
  message is missing; and none is missing of a client that is quiet and has neither failed nor been stopped. The
  server of all that remains a server.\<close>

theorem open_network_at_most_once:
  assumes "\<And>q r w. fits (content_buffer q) \<Longrightarrow> fits (content_buffer (fst (srv_handler s0 q r w)))"
    and "open_run A R B s0 N" and "i < length (members N)" and "members N ! i = Some p"
    and "socket_calls_keep A g" and "sees_only g (R i)"
  shows "let es = calls_made p; rs = replies (srv_handler s0) new_message es
    in length (sent p) \<le> Suc (length es) \<and> map fst es = take (length es) (sent p) \<and>
      (\<exists>j. j \<le> length es \<and> length (sent p) \<le> Suc j \<and>
         (client_runs p \<and> pending (peer_end p) = [] \<longrightarrow> j = length (sent p)) \<and>
         g (world (peer_end p)) = g (told (R i) (take j rs) (came_in p))) \<and>
      server_run B s0 (srv_open N)"
proof -
  have "fitting_handler (srv_handler s0)" by unfold_locales (rule assms(1))
  from member_told [OF this open_run_ok [OF assms(2)] assms(3-6)] open_run_server [OF assms(2)] show ?thesis by (simp add: Let_def)
qed

text \<open>
  A server listens; a client comes, its handshake completes, it sends a message, and its owner
  disconnects before the header has been written.
\<close>

definition sample_member :: "(tiny, tiny) member" where
  "sample_member = new_member 6 (open_world 6)"

lemma listening_handler [simp]: "srv_handler listening_server = handle_request"
  by (simp add: listening_server_def sample_server_def new_server_at_def)

lemma sample_member_comes:
  "open_run tiny_asio R tiny_asio listening_server
    \<lparr>srv_open = accept_completed tiny_asio Success 7 listening_server, members = [Some sample_member]\<rparr>"
proof -
  let ?empty = "\<lparr>srv_open = listening_server, members = []\<rparr> :: (tiny, tiny) open_network"
  have "open_run tiny_asio R tiny_asio listening_server ?empty" by (rule open_refl) simp
  moreover have "open_step tiny_asio R tiny_asio ?empty
      \<lparr>srv_open = accept_completed tiny_asio Success 7 listening_server, members = [Some sample_member]\<rparr>"
    using open_comes [where N = ?empty and A = tiny_asio and B = tiny_asio and R = R and sock = 7 and h = 6 and v = "open_world 6"]
    by (simp add: sample_member_def)
  ultimately show ?thesis by (rule open_next)
qed

text \<open>What the first member can do then.\<close>

lemma sample_member_does:
  assumes "abrupt_run tiny_asio (R 0) tiny_asio handle_request
    (member_view (accept_completed tiny_asio Success 7 listening_server) 0 sample_member) l"
  obtains N p where "open_run tiny_asio R tiny_asio listening_server N" and "0 < length (members N)"
    and "members N ! 0 = Some p" and "member_view (srv_open N) 0 p = l" and "came_in p = open_world 6"
    and "sent p = asked (net l)" and "peer_end p = client_end (net l)" and "client_runs p = client_up l"
proof -
  from member_does [OF _ sample_member_comes [of R] _ _ refl, of 0 sample_member l] assms obtain N p
    where N: "open_run tiny_asio R tiny_asio listening_server N" "0 < length (members N)"
      "members N ! 0 = Some p" "member_view (srv_open N) 0 p = l" "came_in p = came_in sample_member"
    by auto
  have "sent p = asked (net l)" "peer_end p = client_end (net l)" "client_runs p = client_up l"
    by (simp_all add: N(4) [symmetric], simp_all add: member_view_def)
  with N show thesis by (intro that) (simp_all add: sample_member_def new_member_def)
qed

text \<open>Its handshake completes.\<close>

lemma sample_member_handshake:
  fixes s :: "tiny server_st" and i :: nat
  defines "l0 \<equiv> member_view s i sample_member"
  obtains k where "abrupt_step tiny_asio V tiny_asio handle_request l0 (l0\<lparr>net := (net l0)\<lparr>client_end := k\<rparr>\<rparr>)"
    and "pending k = []" and "client_up l0" and "asked (net l0) = []" and "world k = open_world 6"
proof -
  have p: "pending (client_end (net l0)) = [Op_Handshake Handshake_Client]" "client_up l0" "asked (net l0) = []"
    "world (client_end (net l0)) = open_world 6"
    by (simp_all add: l0_def member_view_def sample_member_def new_member_def client_start_def do_defs new_session_def)
  obtain k where k: "deliver tiny_asio (client_session tiny_asio V) 0 Success [] (client_end (net l0)) = Inr k"
    "pending k = []" "world k = world (client_end (net l0))"
    using p(1) by (simp add: deliver_single client_completed_defs client_on_secure_handshake_def)
  have "abrupt_step tiny_asio V tiny_asio handle_request l0 (l0\<lparr>net := (net l0)\<lparr>client_end := k\<rparr>\<rparr>)"
    by (rule abrupt_client_handshakes [OF _ _ k(1)]) (simp_all add: p)
  with k p show thesis by (intro that) simp_all
qed

lemma open_network_at_most_once_witness:
  "\<exists>N p. open_run tiny_asio (\<lambda>i. handle_response []) tiny_asio listening_server N \<and>
    0 < length (members N) \<and> members N ! 0 = Some p \<and> sent p = [''hi''] \<and>
    pending (peer_end p) = [Op_Write_Header (header_buffer (message_of ''hi'')), Op_Shutdown] \<and>
    map fst (calls_made p) = take (length (calls_made p)) (sent p)"
proof -
  let ?R = "\<lambda>i::nat. handle_response [] :: tiny response_handler"
  let ?l = "member_view (accept_completed tiny_asio Success 7 listening_server) 0 sample_member"
  let ?step = "abrupt_step tiny_asio (handle_response []) tiny_asio handle_request"
  obtain k where s1: "?step ?l (?l\<lparr>net := (net ?l)\<lparr>client_end := k\<rparr>\<rparr>)"
    and k: "pending k = []" "client_up ?l" "asked (net ?l) = []"
    by (rule sample_member_handshake [of "handle_response []"])
  let ?l1 = "?l\<lparr>net := (net ?l)\<lparr>client_end := k\<rparr>\<rparr>"
  let ?l2 = "?l1\<lparr>net := link_send (message_of ''hi'') (net ?l1)\<rparr>"
  have s2: "?step ?l1 ?l2" by (rule abrupt_send) (use k in \<open>simp_all add: fits_def\<close>)
  let ?l3 = "?l2\<lparr>net := (net ?l2)\<lparr>client_end := stop tiny_asio (client_end (net ?l2))\<rparr>, client_up := False\<rparr>"
  have s3: "?step ?l2 ?l3" by (rule abrupt_stop)
  have "abrupt_run tiny_asio (?R 0) tiny_asio handle_request ?l ?l3"
    by (rule abrupt_next [OF abrupt_next [OF abrupt_next [OF abrupt_refl s1] s2] s3])
  then obtain N q where q: "open_run tiny_asio ?R tiny_asio listening_server N" "0 < length (members N)"
    "members N ! 0 = Some q" "sent q = asked (net ?l3)" "peer_end q = client_end (net ?l3)"
    by (rule sample_member_does)
  then have "sent q = [''hi'']" "pending (peer_end q) = [Op_Write_Header (header_buffer (message_of ''hi'')), Op_Shutdown]"
    using k by (simp_all add: link_send_def client_session_send_def do_defs Let_def header_prepare_write)
  moreover have "map fst (calls_made q) = take (length (calls_made q)) (sent q)"
    using open_network_at_most_once [OF _ q(1-3) tiny_keeps_files handle_response_sees]
    by (simp add: Let_def content_handle_request)
  ultimately show ?thesis using q(1-3) by blast
qed

text \<open>The example server echoes from its first connection on: whatever failures, stops and other peers there
  are, what a client that is quiet and has neither failed nor been stopped has been told since it came
  is exactly what it sent, in order and once; no client ever sees the bytes of another.\<close>

theorem open_network_echo:
  assumes "srv_handler s0 = handle_request" and "open_run A R B s0 N"
    and "i < length (members N)" and "members N ! i = Some p"
    and "client_runs p" and "pending (peer_end p) = []"
    and "socket_calls_keep A g" and "sees_only g (R i)"
  shows "g (world (peer_end p)) = g (told (R i) (sent p) (came_in p))"
proof -
  have "fitting_handler (srv_handler s0)" by unfold_locales (simp add: assms(1) content_handle_request)
  from member_told [OF this open_run_ok [OF assms(2)] assms(3,4,7,8)] assms(5,6) show ?thesis
    by (auto simp: assms(1) replies_echo)
qed

text \<open>The first member and its session shake hands, and one message is sent and answered.\<close>

lemma sample_member_exchange:
  fixes V :: "tiny response_handler" and s :: "tiny server_st" and i :: nat
  assumes s: "sessions s ! i = session.truncate (server_start (new_session h w))"
  defines "l0 \<equiv> member_view s i sample_member"
  obtains l where "abrupt_run tiny_asio V tiny_asio handle_request l0 l" and "client_up l"
    and "pending (client_end (net l)) = []" and "asked (net l) = [''hi'']"
proof -
  let ?step = "abrupt_step tiny_asio V tiny_asio handle_request"
  obtain k where s1: "?step l0 (l0\<lparr>net := (net l0)\<lparr>client_end := k\<rparr>\<rparr>)"
    and k: "pending k = []" "client_up l0" "asked (net l0) = []"
    unfolding l0_def by (rule sample_member_handshake [of V])
  let ?l1 = "l0\<lparr>net := (net l0)\<lparr>client_end := k\<rparr>\<rparr>"
  have l0: "pending (server_end (net l0)) = [Op_Handshake Handshake_Server]" "to_server (net l0) = []"
    "to_client (net l0) = []"
    by (simp_all add: l0_def member_view_def sample_member_def new_member_def s server_start_def new_session_def do_defs)
  then obtain t where t: "deliver tiny_asio (server_session tiny_asio handle_request) 0 Success [] (server_end (net l0)) = Inr t"
    "ready t"
    by (simp add: deliver_single completed_defs server_on_secure_handshake_def ready_def Let_def do_defs header_prepare_read)
  let ?l2 = "?l1\<lparr>net := (net ?l1)\<lparr>server_end := t\<rparr>\<rparr>"
  have s2: "?step ?l1 ?l2"
    by (rule abrupt_server_handshakes [where x = "Op_Handshake Handshake_Server"]) (use l0 t in simp_all)
  let ?l3 = "?l2\<lparr>net := link_send (message_of ''hi'') (net ?l2)\<rparr>"
  have s3: "?step ?l2 ?l3" by (rule abrupt_send) (use k in \<open>simp_all add: fits_def\<close>)
  have start: "link_start (net ?l2)" using k t(2) l0 by (simp add: link_start_def)
  have "link_run tiny_asio V tiny_asio handle_request (net ?l2) 0 (link_send (message_of ''hi'') (net ?l2))"
    by (rule link_sends [OF link_refl]) (use k in \<open>simp_all add: fits_def\<close>)
  from echo_handler.link_settles [OF this start] obtain m where m:
    "(link_completion tiny_asio V tiny_asio handle_request)\<^sup>*\<^sup>* (link_send (message_of ''hi'') (net ?l2)) m"
    "asked m = asked (link_send (message_of ''hi'') (net ?l2))" "pending (client_end m) = []"
    by blast
  have "abrupt_run tiny_asio V tiny_asio handle_request ?l3 (?l3\<lparr>net := m\<rparr>)"
    by (rule abrupt_completions) (use m(1) in simp)
  from abrupt_run_trans [OF this abrupt_next [OF abrupt_next [OF abrupt_next [OF abrupt_refl s1] s2] s3]]
  show thesis by (rule that) (use k m in \<open>simp_all add: link_send_def\<close>)
qed

lemma open_network_echo_witness:
  "\<exists>N p. open_run tiny_asio (\<lambda>i. handle_response []) tiny_asio listening_server N \<and>
    0 < length (members N) \<and> members N ! 0 = Some p \<and> sent p = [''hi''] \<and>
    screen (world (peer_end p)) = screen (handle_response [] (message_of ''hi'') (open_world 6))"
proof -
  let ?R = "\<lambda>i::nat. handle_response [] :: tiny response_handler"
  obtain l where run: "abrupt_run tiny_asio (?R 0) tiny_asio handle_request
      (member_view (accept_completed tiny_asio Success 7 listening_server) 0 sample_member) l"
    and l: "client_up l" "pending (client_end (net l)) = []" "asked (net l) = [''hi'']"
    by (rule sample_member_exchange [of "accept_completed tiny_asio Success 7 listening_server" 0 7])
      (simp_all add: accept_completed_fields)
  from run obtain N q where N: "open_run tiny_asio ?R tiny_asio listening_server N"
    "0 < length (members N)" "members N ! 0 = Some q"
    and "came_in q = open_world 6" "sent q = asked (net l)" "peer_end q = client_end (net l)" "client_runs q = client_up l"
    by (rule sample_member_does [where R = ?R])
  with l have q: "came_in q = open_world 6" "sent q = [''hi'']" "pending (peer_end q) = []" "client_runs q" by simp_all
  from open_network_echo [OF listening_handler N q(4,3) tiny_keeps_files handle_response_sees]
  have "screen (world (peer_end q)) = screen (handle_response [] (message_of ''hi'') (open_world 6))"
    by (simp add: q(1,2) told_def)
  with N q(2) show ?thesis by blast
qed

end
