(* ===== verification/Protocol_Properties.thy ===== *)
theory Protocol_Properties
  imports Framing Sample
begin

section \<open>Properties of the message format and the wire protocol\<close>

text \<open>
  The statements about \<open>message.hpp\<close>, \<open>message.cpp\<close> and \<open>files.hpp\<close>: the round trip of the wire
  format, the length field for every content, and what a receiver makes of headers no sender of
  this program emits.
\<close>

subsection \<open>The wire format\<close>

text \<open>C1: Whatever contents of less than ten to the tenth bytes a sender puts on the stream one after
  the other, a receiver takes exactly these contents off it, in order, and leaves the bytes of an
  incomplete header that follow where they are.\<close>

theorem framing_roundtrip:
  assumes "list_all fits cs" and "length rest < default_header_length"
  shows "receive_all (concat (map encode cs) @ rest) = (cs, rest)"
proof -
  have "receive_all rest = ([], rest)"
    using assms(2) by (intro receive_all_stop) (simp add: receive_content_def receive_short)
  then show ?thesis using assms(1) by (simp add: receive_all_concat)
qed

lemma framing_roundtrip_witness:
  "receive_all (concat (map encode [''GET'', [], ''PUT x'']) @ ''/broek'') = ([''GET'', [], ''PUT x''], ''/broek'')"
  by (rule framing_roundtrip) (simp_all add: fits_def)

text \<open>The wire format is uniquely decodable: two lists of contents that put the same bytes on the
  stream are the same list.\<close>

theorem framing_injective:
  assumes "list_all fits xs" and "list_all fits ys"
    and "concat (map encode xs) = concat (map encode ys)"
  shows "xs = ys"
  using assms by (rule content_code.concat_enc_inject)

lemma framing_injective_witness: "[''a'', ''b''] = [''a''] @ [''b'']"
  by (rule framing_injective) (simp_all add: fits_def)

text \<open>C12: On every sequence of bytes, well-formed or not, the two reads of a session and the string stream
  in between decode exactly what the format says: the length in the ten characters after the magic
  numbers, and as many bytes of content.\<close>

theorem receive_decodes_frame: "receive bs = decode_frame bs"
proof (cases "length bs < 28")
  case True
  then show ?thesis by (simp add: receive_short decode_frame_def)
next
  case False
  let ?m = "prepare_header_buffer_read empty_message\<lparr>header_buffer := take 28 bs\<rparr>"
  have field: "length_field ?m = take 10 (drop 18 bs)"
    using False by (simp add: length_field_update drop_take)
  have len: "length (header_buffer ?m) = 28" using False by simp
  show ?thesis
  proof (cases "read_size_t (take 10 (drop 18 bs))")
    case None
    with get_length_field [OF len] field have "prepare_content_buffer_read ?m = Inl Indeterminate_Value"
      by (simp add: prepare_content_buffer_read_def Let_def)
    with receive_long [OF False] None False show ?thesis by (simp add: decode_frame_def)
  next
    case (Some n)
    with get_length_field [OF len] field have n: "get_header_buffer_content_length ?m = Inr n" by simp
    show ?thesis
    proof (cases "vec_max_size < unat n")
      case True
      with n have "prepare_content_buffer_read ?m = Inl Length_Error"
        by (simp add: prepare_content_buffer_read_def Let_def vec_resize_def)
      with receive_long [OF False] Some True False show ?thesis by (simp add: decode_frame_def)
    next
      case small: False
      then have "prepare_content_buffer_read ?m = Inr (?m\<lparr>content_buffer := replicate (unat n) zero_byte\<rparr>)"
        by (intro prepare_content_read_length [OF n]) simp
      moreover have "?m\<lparr>content_buffer := c\<rparr> = \<lparr>header_buffer = take 28 bs, content_buffer = c\<rparr>" for c
        by simp
      ultimately show ?thesis using receive_long [OF False] Some small False
        by (auto simp: decode_frame_def add.commute)
    qed
  qed
qed

subsection \<open>The length field\<close>

text \<open>C27: Setting the content of any message makes its header declare exactly the number of bytes of
  the content, and preparing the content for a write then changes nothing, for every content whose
  length has at most ten digits.\<close>

theorem length_field_roundtrip:
  assumes "fits c"
  shows "\<exists>n. get_header_buffer_content_length (set_content_buffer c m) = Inr n \<and> unat n = length c \<and>
    length (header_buffer (set_content_buffer c m)) = default_header_length \<and>
    prepare_content_buffer_write (set_content_buffer c m) = Inr (set_content_buffer c m)"
proof (intro exI conjI)
  show "get_header_buffer_content_length (set_content_buffer c m) = Inr (of_nat (length c))"
    using assms get_length_framed [of "set_content_buffer c m"] by simp
  show "unat (of_nat (length c) :: size_t) = length c"
    using assms by (intro unat_of_nat_small) (simp add: fits_def)
qed (use assms in \<open>simp_all add: length_framed_header_iff prepare_content_write_framed\<close>)

lemma length_field_roundtrip_witness:
  "\<exists>n. get_header_buffer_content_length (set_content_buffer ''hello'' empty_message) = Inr n \<and>
    unat n = length ''hello'' \<and>
    length (header_buffer (set_content_buffer ''hello'' empty_message)) = default_header_length \<and>
    prepare_content_buffer_write (set_content_buffer ''hello'' empty_message) =
      Inr (set_content_buffer ''hello'' empty_message)"
  by (rule length_field_roundtrip) (simp add: fits_def)

text \<open>C26: Preparing the content buffer for a read, on a header of the right size, throws in exactly two
  ways: the uninitialised local variable is returned when the length field is blank, and
  \<open>std::length_error\<close> is thrown when the field reads as a negative number. In every other case
  the buffer gets less than ten to the tenth zero bytes and the header is kept.\<close>

theorem prepare_content_read_cases:
  assumes "length (header_buffer m) = default_header_length"
  shows "case prepare_content_buffer_read m of
      Inl e \<Rightarrow> (list_all is_space (length_field m) \<and> e = Indeterminate_Value \<or>
               reads_negative (length_field m) \<and> e = Length_Error)
    | Inr m' \<Rightarrow> \<not> list_all is_space (length_field m) \<and> \<not> reads_negative (length_field m) \<and>
        header_buffer m' = header_buffer m \<and>
        content_buffer m' = replicate (length (content_buffer m')) zero_byte \<and>
        length (content_buffer m') < 10 ^ 10"
proof (cases "prepare_content_buffer_read m")
  case (Inl e)
  then show ?thesis using assms prepare_content_read_Inl [of m e] by simp
next
  case (Inr m')
  have len: "length (header_buffer m) = 28" using assms by simp
  from Inr len have "\<not> list_all is_space (length_field m)" "\<not> reads_negative (length_field m)"
    using prepare_content_read_Inl [OF len] by auto
  moreover from Inr len obtain n where "unat n < 10 ^ 10"
    and "m' = m\<lparr>content_buffer := replicate (unat (n :: size_t)) zero_byte\<rparr>"
    by (rule prepare_content_read_Inr)
  ultimately show ?thesis by (simp add: Inr)
qed

lemma prepare_content_read_cases_witness:
  "case prepare_content_buffer_read (message_of ''ab'') of
      Inl e \<Rightarrow> (list_all is_space (length_field (message_of ''ab'')) \<and> e = Indeterminate_Value \<or>
               reads_negative (length_field (message_of ''ab'')) \<and> e = Length_Error)
    | Inr m' \<Rightarrow> \<not> list_all is_space (length_field (message_of ''ab'')) \<and>
        \<not> reads_negative (length_field (message_of ''ab'')) \<and>
        header_buffer m' = header_buffer (message_of ''ab'') \<and>
        content_buffer m' = replicate (length (content_buffer m')) zero_byte \<and>
        length (content_buffer m') < 10 ^ 10"
  by (rule prepare_content_read_cases) (simp add: length_framed_header_iff fits_def)

text \<open>C28: A content of ten to the tenth bytes or more does not survive: its length overflows the field,
  the sender emits a longer header, and a receiver takes a message whose content length is the
  declared length without its last digits, starting in the middle of the header.\<close>

theorem oversized_content_misread:
  assumes "\<not> fits c"
  shows "\<exists>m r'. receive (encode c @ r) = Got m r' \<and>
    length (content_buffer m) = length c div 10 ^ (length (decimal (length c)) - 10) \<and>
    content_buffer m \<noteq> c"
proof -
  let ?d = "decimal (length c)"
  let ?v = "length c div 10 ^ (length ?d - 10)"
  have long: "10 < length ?d" using assms by (simp add: fits_decimal)
  then have bs: "encode c @ r = magic_numbers @ take 10 ?d @ (drop 10 ?d @ c @ r)"
    by (simp add: encode_header put_field_def flip: append_assoc [of "take 10 ?d" "drop 10 ?d"])
  have digits: "list_all is_digit (take 10 ?d)"
    using decimal_digits [of "length c"] by (auto simp: list_all_iff dest: in_set_takeD)
  have field: "digits_value (take 10 ?d) = ?v" using long by (intro digits_value_take_decimal) simp
  have "(10::nat) ^ 1 \<le> 10 ^ (length ?d - 10)" using long by (intro power_increasing) auto
  moreover have "0 < length c" using assms by (cases c) (auto simp: fits_def)
  ultimately have less: "?v < length c" by (intro div_less_dividend) auto
  define body where "body = drop 10 ?d @ c @ r"
  have fit: "?v \<le> length body" using less by (simp add: body_def)
  obtain m where m: "receive (magic_numbers @ take 10 ?d @ body) = Got m (drop ?v body)"
    "content_buffer m = take ?v body"
    using receive_digits [OF digits, of body] long fit unfolding field by auto
  have "length (content_buffer m) = ?v" using fit by (simp add: m(2))
  with less m(1) bs show ?thesis by (intro exI conjI) (auto simp: body_def)
qed

lemma oversized_content_misread_witness:
  "\<exists>m r'. receive (encode (replicate (10 ^ content_length_digits10) blank) @ []) = Got m r' \<and>
    length (content_buffer m) =
      length (replicate (10 ^ content_length_digits10) blank) div
        10 ^ (length (decimal (length (replicate (10 ^ content_length_digits10) blank))) - 10) \<and>
    content_buffer m \<noteq> replicate (10 ^ content_length_digits10) blank"
  by (rule oversized_content_misread) (simp only: fits_def length_replicate less_irrefl not_False_eq_True)

text \<open>The magic numbers of a received header are never looked at: two messages whose headers have
  the right size and the same last ten characters are prepared alike, whatever the first eighteen
  characters are.\<close>

theorem magic_numbers_unchecked:
  assumes "length p = length magic_numbers" and "length f = content_length_digits10"
  shows "prepare_content_buffer_read (m\<lparr>header_buffer := p @ f\<rparr>) =
    map_sum id (\<lambda>m'. m'\<lparr>header_buffer := p @ f\<rparr>)
      (prepare_content_buffer_read (m\<lparr>header_buffer := magic_numbers @ f\<rparr>))"
proof -
  have "get_header_buffer_content_length (m\<lparr>header_buffer := p @ f, content_buffer := []\<rparr>) =
      get_header_buffer_content_length (m\<lparr>header_buffer := magic_numbers @ f, content_buffer := []\<rparr>)"
    using assms by (simp add: get_length_full)
  then show ?thesis
    by (cases "get_header_buffer_content_length
          (m\<lparr>header_buffer := magic_numbers @ f, content_buffer := []\<rparr>)")
      (simp_all add: prepare_content_buffer_read_def clear_content_buffer_def vec_resize_def Let_def)
qed

lemma magic_numbers_unchecked_witness:
  "prepare_content_buffer_read (empty_message\<lparr>header_buffer := ''HTTP/1.1 200 OK...'' @ ''         7''\<rparr>) =
    map_sum id (\<lambda>m'. m'\<lparr>header_buffer := ''HTTP/1.1 200 OK...'' @ ''         7''\<rparr>)
      (prepare_content_buffer_read (empty_message\<lparr>header_buffer := magic_numbers @ ''         7''\<rparr>))"
  by (rule magic_numbers_unchecked) simp_all

subsection \<open>Files\<close>

text \<open>A content written to a writable regular path is read back from it unchanged, into a message
  whose header is left alone, up to the largest size a buffer can have.\<close>

theorem file_roundtrip:
  assumes "writable w p" and "disk w p \<noteq> Some Unseekable"
    and "length (content_buffer m) \<le> vec_max_size"
  shows "\<exists>w'. write_file pf p m w = (True, w') \<and>
    read_file pf' p m' w' = Inr (True, m'\<lparr>content_buffer := content_buffer m\<rparr>, w') \<and>
    (\<forall>q. q \<noteq> p \<longrightarrow> disk w' q = disk w q)"
  using assms write_file_regular [OF assms(1,2), of pf m]
  by (simp add: read_file_regular)

lemma file_roundtrip_witness:
  "\<exists>w'. write_file [] ''test.out'' (message_of ''abc'') tiny_world = (True, w') \<and>
    read_file [] ''test.out'' new_message w' =
      Inr (True, new_message\<lparr>content_buffer := content_buffer (message_of ''abc'')\<rparr>, w') \<and>
    (\<forall>q. q \<noteq> ''test.out'' \<longrightarrow> disk w' q = disk tiny_world q)"
  by (rule file_roundtrip) (simp_all add: vec_max_size_def)

end
