(* ===== verification/Client.thy ===== *)
theory Client
  imports Client_Transaction
begin

section \<open>The client\<close>

text \<open>
  \<open>class client\<close> of \<open>client.hpp\<close> and \<open>client.cpp\<close>: resolving and connecting, the active session
  and the calls that go to it. A session the client no longer points to lives on while operations of
  its own are outstanding; those sessions are listed as \<open>detached\<close>. The lemmas show what each call
  does with and without a connection.
\<close>

subsection \<open>State\<close>

datatype connect_op =
    Op_Resolve string string
  | Op_Connect "endpoint list"

record 'w client_st =
  active_session :: "session option"
  detached :: "session list"
  connecting :: "connect_op list"
  cl_console :: "output_line list"
  cl_world :: 'w

definition new_client :: "'w \<Rightarrow> 'w client_st" where
  "new_client w =
     \<lparr>active_session = None, detached = [], connecting = [], cl_console = [], cl_world = w\<rparr>"

text \<open>The pointer is given another value; the session it was the last to own is destroyed.\<close>

definition set_active :: "session option \<Rightarrow> 'w client_st \<Rightarrow> 'w client_st" where
  "set_active v c =
     c\<lparr>active_session := v,
       detached := detached c @
         (case active_session c of
            None \<Rightarrow> []
          | Some x \<Rightarrow> if pending x = [] then [] else [x])\<rparr>"

subsection \<open>Operations\<close>

definition is_connected :: "'w asio \<Rightarrow> 'w client_st \<Rightarrow> bool" where
  "is_connected A c =
     (case active_session c of None \<Rightarrow> False | Some x \<Rightarrow> is_alive A (attach x (cl_world c)))"

definition connect :: "string \<Rightarrow> 16 word \<Rightarrow> 'w client_st \<Rightarrow> 'w client_st" where
  "connect remote_host remote_port c =
     c\<lparr>connecting := connecting c @ [Op_Resolve remote_host (decimal (unat remote_port))]\<rparr>"

text \<open>The completion handlers of \<open>async_resolve\<close> and \<open>async_connect\<close>.\<close>

definition resolve_completed ::
  "error_code \<Rightarrow> endpoint list \<Rightarrow> 'w client_st \<Rightarrow> 'w client_st"
where
  "resolve_completed ec result c =
     (if ec = Success then c\<lparr>connecting := connecting c @ [Op_Connect result]\<rparr> else c)"

definition connect_completed ::
  "'w asio \<Rightarrow> string \<Rightarrow> error_code \<Rightarrow> handle \<Rightarrow> 'w client_st \<Rightarrow> 'w client_st"
where
  "connect_completed A pf ec sock c =
     (if ec = Success then
        let t = client_start (new_session sock (cl_world c))
        in (set_active (Some (session.truncate t)) c)\<lparr>cl_world := world t\<rparr>
      else if ec \<noteq> Connection_Aborted then
        c\<lparr>cl_console := cl_console c @
            [(Std_Err, pf @ '' | '' @ ''Client connection failed''
               @ '' | Boost asio/system error message: '' @ ec_message A ec @ [CHR 0x0A])]\<rparr>
      else c)"

text \<open>Operation \<open>i\<close> of the connecting ones completes.\<close>

definition connecting_event ::
  "'w asio \<Rightarrow> string \<Rightarrow> nat \<Rightarrow> error_code \<Rightarrow> endpoint list \<Rightarrow> handle \<Rightarrow> 'w client_st \<Rightarrow> 'w client_st"
where
  "connecting_event A pf i ec result sock c =
     (if i < length (connecting c) then
        let c1 = c\<lparr>connecting := take i (connecting c) @ drop (Suc i) (connecting c)\<rparr>
        in case connecting c ! i of
             Op_Resolve _ _ \<Rightarrow> resolve_completed ec result c1
           | Op_Connect _ \<Rightarrow> connect_completed A pf ec sock c1
      else c)"

text \<open>A call on the active session.\<close>

definition call_active :: "('w session_st \<Rightarrow> 'w session_st) \<Rightarrow> 'w client_st \<Rightarrow> 'w client_st" where
  "call_active f c =
     (case active_session c of
        None \<Rightarrow> c
      | Some x \<Rightarrow>
          (let t = f (attach x (cl_world c))
           in c\<lparr>active_session := Some (session.truncate t), cl_world := world t\<rparr>))"

definition disconnect :: "'w asio \<Rightarrow> 'w client_st \<Rightarrow> 'w client_st" where
  "disconnect A c =
     (let c1 = (if is_connected A c then call_active (stop A) c else c)
      in set_active None c1)"

definition client_send :: "'w asio \<Rightarrow> message \<Rightarrow> 'w client_st \<Rightarrow> bool \<times> 'w client_st" where
  "client_send A m c =
     (if is_connected A c then (True, call_active (client_session_send m) c) else (False, c))"

definition send_file ::
  "'a host_scheme asio \<Rightarrow> string \<Rightarrow> string \<Rightarrow> 'a host_scheme client_st \<Rightarrow>
   (bool \<times> 'a host_scheme client_st) result"
where
  "send_file A pf file_path c =
     bind_result (read_file pf file_path new_message (cl_world c)) (\<lambda>(ok, file, w).
       let c1 = c\<lparr>cl_world := w\<rparr>
       in Inr (if ok then client_send A file c1 else (False, c1)))"

text \<open>A completion of operation \<open>j\<close> of the active session.\<close>

definition active_event ::
  "'w asio \<Rightarrow> 'w response_handler \<Rightarrow> nat \<Rightarrow> error_code \<Rightarrow> bytes \<Rightarrow> 'w client_st \<Rightarrow> 'w client_st result"
where
  "active_event A R j ec d c =
     (case active_session c of
        None \<Rightarrow> Inr c
      | Some x \<Rightarrow>
          bind_result (deliver A (client_session A R) j ec d (attach x (cl_world c))) (\<lambda>t.
            Inr (c\<lparr>active_session := Some (session.truncate t), cl_world := world t\<rparr>)))"

text \<open>The destructor gives up the active session, without stopping it.\<close>

definition client_destroy :: "'w client_st \<Rightarrow> 'w client_st" where
  "client_destroy c = set_active None c"

subsection \<open>Facts\<close>

lemma set_active_fields [simp]:
  "active_session (set_active v c) = v" "cl_world (set_active v c) = cl_world c"
  "connecting (set_active v c) = connecting c"
  by (simp_all add: set_active_def)

lemma call_active_Some:
  "active_session c = Some x \<Longrightarrow>
   call_active f c = c\<lparr>active_session := Some (session.truncate (f (attach x (cl_world c)))),
                       cl_world := world (f (attach x (cl_world c)))\<rparr>"
  by (simp add: call_active_def Let_def)

lemma is_connected_Some: "is_connected A c \<Longrightarrow> \<exists>x. active_session c = Some x"
  by (auto simp: is_connected_def split: option.splits)

lemma send_pending:
  "pending (client_session_send m s) =
   pending s @ [Op_Write_Header (header_buffer (message_of (content_buffer m)))]"
  by (simp add: client_session_send_def do_defs prepare_header_buffer_write_def message_of_def
      set_content_buffer_def Let_def)

lemma send_world [simp]: "world (client_session_send m s) = world s"
  by (simp add: client_session_send_def do_defs Let_def)

lemma client_send_connected:
  assumes "is_connected A c"
  obtains x y where "active_session c = Some x" and "active_session (snd (client_send A m c)) = Some y"
    and "fst (client_send A m c)"
    and "pending y = pending x @ [Op_Write_Header (header_buffer (message_of (content_buffer m)))]"
    and "cl_world (snd (client_send A m c)) = cl_world c"
proof -
  obtain x where x: "active_session c = Some x" using is_connected_Some [OF assms] by blast
  show thesis
    by (rule that [OF x, of "session.truncate (client_session_send m (attach x (cl_world c)))"])
      (simp_all add: client_send_def assms call_active_Some [OF x] send_pending)
qed

lemma disconnect_fields:
  assumes "active_session c = Some x" and "is_connected A c"
  shows "active_session (disconnect A c) = None"
    and "detached (disconnect A c) =
         detached c @ [session.truncate (stop A (attach x (cl_world c)))]"
    and "cl_world (disconnect A c) = snd (socket_cancel A (socket x) (cl_world c))"
  using assms by (simp_all add: disconnect_def call_active_Some set_active_def)

text \<open>
  \<open>is_connected\<close> asks only for an open socket, so a message sent as soon as the client is connected is
  written beside the handshake.
\<close>

lemma send_before_handshake:
  assumes "socket_is_open A sock (cl_world c)"
  shows "is_connected A (connect_completed A pf Success sock c)"
    and "fst (client_send A m (connect_completed A pf Success sock c))"
    and "map_option pending (active_session (snd (client_send A m (connect_completed A pf Success sock c)))) =
      Some [Op_Handshake Handshake_Client, Op_Write_Header (header_buffer (message_of (content_buffer m)))]"
proof -
  show up: "is_connected A (connect_completed A pf Success sock c)"
    using assms by (simp add: is_connected_def connect_completed_def is_alive_def client_start_def do_defs
        new_session_def Let_def)
  obtain x y where x: "active_session (connect_completed A pf Success sock c) = Some x"
    and y: "active_session (snd (client_send A m (connect_completed A pf Success sock c))) = Some y"
      "pending y = pending x @ [Op_Write_Header (header_buffer (message_of (content_buffer m)))]"
      "fst (client_send A m (connect_completed A pf Success sock c))"
    by (rule client_send_connected [OF up])
  from y(3) show "fst (client_send A m (connect_completed A pf Success sock c))" .
  have "pending x = [Op_Handshake Handshake_Client]"
    using x by (auto simp: connect_completed_def client_start_def do_defs new_session_def Let_def)
  with y show "map_option pending (active_session (snd (client_send A m (connect_completed A pf Success sock c)))) =
      Some [Op_Handshake Handshake_Client, Op_Write_Header (header_buffer (message_of (content_buffer m)))]"
    by simp
qed

end
