(* ===== verification/Io_Manager.thy ===== *)
theory Io_Manager
  imports Prelude
begin

section \<open>The I/O manager\<close>

text \<open>
  \<open>class io_manager\<close> of \<open>io_manager.hpp\<close> and \<open>io_manager.cpp\<close>: the flag, the work informer, the
  thread pool and, in order, the calls made on the \<open>io_service\<close> and on the threads. A thread object
  is joinable until it has been joined; destroying a joinable one calls \<open>std::terminate\<close>, joining
  one that is not joinable throws. The system may refuse to create a thread; the exception then leaves
  \<open>start\<close> in the middle of its loop. The lemmas show that nothing else goes wrong in any sequence of starts
  and stops, what a refused thread leads to, and that the service is never left stopped.
\<close>

subsection \<open>State\<close>

datatype thread = Joinable | Joined

datatype call = Service_Stop | Service_Reset | Service_Run | Work_Create | Work_Reset | Thread_Join

record io_manager =
  active :: bool
  work_informer :: bool
  thread_pool :: "thread list"
  calls :: "call list"

definition note_call :: "call \<Rightarrow> io_manager \<Rightarrow> io_manager" where
  "note_call c m = m\<lparr>calls := calls m @ [c]\<rparr>"

definition new_io_manager :: io_manager where
  "new_io_manager =
     note_call Service_Reset (note_call Service_Stop
       \<lparr>active = False, work_informer = False, thread_pool = [], calls = []\<rparr>)"

text \<open>
  The library documents that a service is stopped after \<open>stop\<close> until the next \<open>reset\<close>.
\<close>

fun service_stopped :: "call list \<Rightarrow> bool \<Rightarrow> bool" where
  "service_stopped [] b = b"
| "service_stopped (c # cs) b =
     service_stopped cs (if c = Service_Stop then True else if c = Service_Reset then False else b)"

subsection \<open>Operations\<close>

definition is_active :: "io_manager \<Rightarrow> bool" where
  "is_active m = active m"

text \<open>Destroying the elements of the vector.\<close>

definition clear_pool :: "io_manager \<Rightarrow> io_manager result" where
  "clear_pool m =
     (if Joinable \<in> set (thread_pool m) then Inl Terminate else Inr (m\<lparr>thread_pool := []\<rparr>))"

text \<open>
  The loop that creates the workers, from number \<open>worker\<close> on. \<open>created worker\<close> is what the system answers
  to the request for that thread; the constructor of \<open>std::thread\<close> throws when it refuses. (The
  \<open>reserve\<close> before the loop throws only when memory is exhausted.)
\<close>

fun emplace_workers :: "(nat \<Rightarrow> bool) \<Rightarrow> nat \<Rightarrow> nat \<Rightarrow> io_manager \<Rightarrow> cxx_fault option \<times> io_manager" where
  "emplace_workers created worker 0 m = (None, m)"
| "emplace_workers created worker (Suc n) m =
     (if created worker then
        emplace_workers created (Suc worker) n
          (note_call Service_Run (m\<lparr>thread_pool := thread_pool m @ [Joinable]\<rparr>))
      else (Some System_Error, m))"

definition default_num_threads :: "32 word \<Rightarrow> 32 word" where
  "default_num_threads hardware_concurrency = max hardware_concurrency 2 - 1"

text \<open>When a thread is refused the informer and the threads created before stay, and the flag is not set.\<close>

definition io_start :: "(nat \<Rightarrow> bool) \<Rightarrow> 32 word \<Rightarrow> io_manager \<Rightarrow> cxx_fault option \<times> io_manager" where
  "io_start created num_threads m =
     (if \<not> is_active m then
        (case clear_pool m of
           Inl e \<Rightarrow> (Some e, m)
         | Inr m1 \<Rightarrow>
             let m2 = note_call Work_Create (m1\<lparr>work_informer := True\<rparr>)
             in (case emplace_workers created 0 (unat num_threads) m2 of
                   (Some e, m3) \<Rightarrow> (Some e, m3)
                 | (None, m3) \<Rightarrow> (None, m3\<lparr>active := True\<rparr>)))
      else (None, m))"

text \<open>The loop over the pool: the threads already joined and those still to join.\<close>

fun join_workers :: "thread list \<Rightarrow> thread list \<Rightarrow> io_manager \<Rightarrow> io_manager result" where
  "join_workers joined [] m = Inr (m\<lparr>thread_pool := joined\<rparr>)"
| "join_workers joined (worker # rest) m =
     (case worker of
        Joinable \<Rightarrow> join_workers (joined @ [Joined]) rest (note_call Thread_Join m)
      | Joined \<Rightarrow> Inl System_Error)"

definition io_stop :: "io_manager \<Rightarrow> io_manager result" where
  "io_stop m =
     (if is_active m then
        let m1 = note_call Work_Reset (m\<lparr>work_informer := False\<rparr>);
            m2 = note_call Service_Stop m1
        in bind_result (join_workers [] (thread_pool m2) m2) (\<lambda>m3.
             let m4 = note_call Service_Reset m3
             in Inr (m4\<lparr>active := False\<rparr>))
      else Inr m)"

text \<open>
  The destructor: stop, then the members are destroyed. A destructor is \<open>noexcept\<close>: an exception
  that leaves it ends the process.
\<close>

definition io_destroy :: "io_manager \<Rightarrow> io_manager result" where
  "io_destroy m = bind_result (no_except (io_stop m)) clear_pool"

subsection \<open>The invariant\<close>

text \<open>
  An active manager holds the informer and only joinable threads, an inactive one holds no informer
  and only joined threads; the service is not stopped in either case.
\<close>

definition io_inv :: "io_manager \<Rightarrow> bool" where
  "io_inv m \<longleftrightarrow>
     (active m \<longleftrightarrow> work_informer m) \<and>
     list_all (\<lambda>t. t = (if active m then Joinable else Joined)) (thread_pool m) \<and>
     \<not> service_stopped (calls m) False"

lemma service_stopped_append:
  "service_stopped (xs @ ys) b = service_stopped ys (service_stopped xs b)"
  by (induction xs arbitrary: b) auto

lemma note_call_fields [simp]:
  "active (note_call c m) = active m" "work_informer (note_call c m) = work_informer m"
  "thread_pool (note_call c m) = thread_pool m" "calls (note_call c m) = calls m @ [c]"
  by (simp_all add: note_call_def)

lemma io_inv_new: "io_inv new_io_manager"
  by (simp add: io_inv_def new_io_manager_def note_call_def)

text \<open>All workers are created, or the first that is refused ends the loop.\<close>

lemma emplace_workers_granted:
  "list_all created [worker..<worker + n] \<Longrightarrow>
   emplace_workers created worker n m =
     (None, m\<lparr>thread_pool := thread_pool m @ replicate n Joinable, calls := calls m @ replicate n Service_Run\<rparr>)"
proof (induction n arbitrary: worker m)
  case (Suc n)
  from Suc.prems have "created worker" "list_all created [Suc worker..<Suc worker + n]"
    by (auto simp: list_all_iff)
  with Suc.IH [OF this(2)] show ?case by (simp add: note_call_def)
qed simp

lemma emplace_workers_refused:
  assumes "k < n" and "\<not> created (worker + k)" and "list_all created [worker..<worker + k]"
  shows "emplace_workers created worker n m = (Some System_Error,
     m\<lparr>thread_pool := thread_pool m @ replicate k Joinable, calls := calls m @ replicate k Service_Run\<rparr>)"
  using assms
proof (induction n arbitrary: worker k m)
  case (Suc n)
  show ?case
  proof (cases k)
    case 0
    with Suc.prems(2) show ?thesis by simp
  next
    case (Suc j)
    with Suc.prems have "created worker" "list_all created [Suc worker..<Suc worker + j]"
      by (auto simp: list_all_iff)
    with Suc.IH [of j "Suc worker"] Suc Suc.prems show ?thesis by (simp add: note_call_def)
  qed
qed simp

text \<open>The first thread that is refused, if one is.\<close>

lemma first_refused:
  assumes "\<not> list_all created [0..<n]"
  obtains k where "k < n" and "\<not> created k" and "list_all created [0..<k]"
proof -
  define k where "k = (LEAST k. \<not> created k)"
  from assms obtain j where j: "j < n" "\<not> created j" by (auto simp: list_all_iff)
  have "\<not> created k" unfolding k_def by (rule LeastI [of _ j]) (rule j(2))
  moreover have "k \<le> j" unfolding k_def by (rule Least_le) (rule j(2))
  moreover have "created i" if "i < k" for i using that not_less_Least unfolding k_def by blast
  ultimately show thesis using j(1) by (intro that [of k]) (auto simp: list_all_iff)
qed

lemma join_workers_joinable:
  "list_all (\<lambda>t. t = Joinable) rest \<Longrightarrow>
   join_workers joined rest m =
     Inr (m\<lparr>thread_pool := joined @ replicate (length rest) Joined,
            calls := calls m @ replicate (length rest) Thread_Join\<rparr>)"
  by (induction rest arbitrary: joined m) (simp_all add: note_call_def)

lemma service_stopped_no_change:
  "set cs \<inter> {Service_Stop, Service_Reset} = {} \<Longrightarrow> service_stopped cs b = b"
  by (induction cs) auto

lemma service_stopped_replicate:
  "c \<noteq> Service_Stop \<Longrightarrow> c \<noteq> Service_Reset \<Longrightarrow> service_stopped (replicate n c) b = b"
  by (rule service_stopped_no_change) auto

lemma clear_pool_joined:
  "list_all (\<lambda>t. t = Joined) (thread_pool m) \<Longrightarrow> clear_pool m = Inr (m\<lparr>thread_pool := []\<rparr>)"
  by (auto simp: clear_pool_def list_all_iff)

text \<open>A manager that has been started on a service that ran nothing.\<close>

definition started :: "nat \<Rightarrow> io_manager \<Rightarrow> io_manager" where
  "started n m = m\<lparr>active := True, work_informer := True, thread_pool := replicate n Joinable,
     calls := calls m @ Work_Create # replicate n Service_Run\<rparr>"

text \<open>What is left when the thread after \<open>k\<close> others has been refused.\<close>

definition half_started :: "nat \<Rightarrow> io_manager \<Rightarrow> io_manager" where
  "half_started k m = m\<lparr>work_informer := True, thread_pool := replicate k Joinable,
     calls := calls m @ Work_Create # replicate k Service_Run\<rparr>"

lemma io_start_granted:
  assumes "io_inv m" and "\<not> active m" and "list_all created [0..<unat n]"
  shows "io_start created n m = (None, started (unat n) m)"
proof -
  have "clear_pool m = Inr (m\<lparr>thread_pool := []\<rparr>)"
    using assms by (intro clear_pool_joined) (simp add: io_inv_def)
  with assms(2,3) show ?thesis
    by (simp add: io_start_def is_active_def Let_def emplace_workers_granted started_def note_call_def)
qed

lemma io_start_refused:
  assumes "io_inv m" and "\<not> active m" and "k < unat n" and "\<not> created k" and "list_all created [0..<k]"
  shows "io_start created n m = (Some System_Error, half_started k m)"
proof -
  have "clear_pool m = Inr (m\<lparr>thread_pool := []\<rparr>)"
    using assms by (intro clear_pool_joined) (simp add: io_inv_def)
  with assms(2) show ?thesis
    using emplace_workers_refused [of k "unat n" created 0] assms(3-5)
    by (simp add: io_start_def is_active_def Let_def half_started_def note_call_def)
qed

lemma io_inv_started: "io_inv m \<Longrightarrow> io_inv (started n m)"
  by (simp add: io_inv_def started_def service_stopped_append service_stopped_replicate list_all_iff)

lemma started_fields [simp]:
  "active (started n m)" "thread_pool (started n m) = replicate n Joinable"
  "calls (started n m) = calls m @ Work_Create # replicate n Service_Run"
  by (simp_all add: started_def)

lemma io_start_active: "active m \<Longrightarrow> io_start created n m = (None, m)"
  by (simp add: io_start_def is_active_def)

text \<open>A manager one of whose threads has been refused after another was created cannot be destroyed or started.\<close>

lemma half_started_ends:
  assumes "io_inv m" and "\<not> active m"
  shows "\<not> active (half_started k m)"
    and "k = 0 \<Longrightarrow> \<exists>m'. io_destroy (half_started k m) = Inr m' \<and> thread_pool m' = []"
    and "0 < k \<Longrightarrow> io_destroy (half_started k m) = Inl Terminate \<and>
      io_start created n (half_started k m) = (Some Terminate, half_started k m)"
  using assms by (simp_all add: half_started_def io_destroy_def io_stop_def io_start_def is_active_def clear_pool_def)

lemma io_stop_active:
  assumes "io_inv m" and "active m"
  obtains m' where "io_stop m = Inr m'" and "io_inv m'" and "\<not> active m'"
    and "thread_pool m' = replicate (length (thread_pool m)) Joined"
    and "calls m' = calls m @ Work_Reset # Service_Stop #
           replicate (length (thread_pool m)) Thread_Join @ [Service_Reset]"
proof -
  let ?n = "length (thread_pool m)"
  have "list_all (\<lambda>t. t = Joinable) (thread_pool m)" using assms by (simp add: io_inv_def)
  then have eq: "io_stop m = Inr (m\<lparr>active := False, work_informer := False,
      thread_pool := replicate ?n Joined,
      calls := calls m @ Work_Reset # Service_Stop # replicate ?n Thread_Join @ [Service_Reset]\<rparr>)"
    (is "_ = Inr ?m")
    using assms by (simp add: io_stop_def is_active_def join_workers_joinable note_call_def)
  show thesis
  proof (rule that [OF eq])
    show "io_inv ?m" using assms
      by (simp add: io_inv_def service_stopped_append list_all_iff)
  qed simp_all
qed

lemma io_stop_inactive: "\<not> active m \<Longrightarrow> io_stop m = Inr m"
  by (simp add: io_stop_def is_active_def)

subsection \<open>Sequences of starts and stops\<close>

text \<open>The owner stops at the first exception.\<close>

datatype io_op = Start "nat \<Rightarrow> bool" "32 word" | Stop

fun io_do :: "io_op \<Rightarrow> io_manager \<Rightarrow> cxx_fault option \<times> io_manager" where
  "io_do (Start created n) m = io_start created n m"
| "io_do Stop m = (case io_stop m of Inl e \<Rightarrow> (Some e, m) | Inr m' \<Rightarrow> (None, m'))"

fun io_run :: "io_op list \<Rightarrow> io_manager \<Rightarrow> cxx_fault option \<times> io_manager" where
  "io_run [] m = (None, m)"
| "io_run (x # xs) m = (case io_do x m of (None, m') \<Rightarrow> io_run xs m' | (Some e, m') \<Rightarrow> (Some e, m'))"

lemma io_stop_inv: "io_inv m \<Longrightarrow> \<exists>m'. io_stop m = Inr m' \<and> io_inv m' \<and> \<not> active m'"
  by (cases "active m") (auto simp: io_stop_inactive elim: io_stop_active)

lemma io_start_granted_iff:
  assumes "io_inv m"
  shows "fst (io_start created n m) = None \<longleftrightarrow> active m \<or> list_all created [0..<unat n]"
proof (cases "active m \<or> list_all created [0..<unat n]")
  case True
  with assms show ?thesis by (cases "active m") (simp_all add: io_start_active io_start_granted)
next
  case False
  then obtain k where "k < unat n" "\<not> created k" "list_all created [0..<k]" using first_refused by blast
  with False assms show ?thesis by (simp add: io_start_refused)
qed

lemma io_do_inv:
  assumes "io_inv m"
  shows "(\<exists>m'. io_do x m = (None, m') \<and> io_inv m') \<or>
    (\<exists>created n k. x = Start created n \<and> \<not> active m \<and> k < unat n \<and> \<not> created k \<and> list_all created [0..<k] \<and>
       io_do x m = (Some System_Error, half_started k m))"
proof (cases x)
  case (Start created n)
  show ?thesis
  proof (cases "active m \<or> list_all created [0..<unat n]")
    case True
    with assms Start show ?thesis
      by (cases "active m") (auto simp: io_start_active io_start_granted io_inv_started)
  next
    case False
    then obtain k where "k < unat n" "\<not> created k" "list_all created [0..<k]" using first_refused by blast
    with False assms Start show ?thesis by (auto simp: io_start_refused)
  qed
next
  case Stop
  with io_stop_inv [OF assms] show ?thesis by auto
qed

lemma io_run_cases:
  assumes "io_inv m"
  shows "(\<exists>m'. io_run xs m = (None, m') \<and> io_inv m') \<or>
    (\<exists>ys created n zs m1 k. xs = ys @ Start created n # zs \<and> io_run ys m = (None, m1) \<and> io_inv m1 \<and>
       \<not> active m1 \<and> k < unat n \<and> \<not> created k \<and> list_all created [0..<k] \<and>
       io_run xs m = (Some System_Error, half_started k m1))"
  using assms
proof (induction xs arbitrary: m)
  case (Cons x xs)
  from io_do_inv [OF Cons.prems, of x] show ?case
  proof (elim disjE exE conjE)
    fix m' assume m': "io_do x m = (None, m')" "io_inv m'"
    from Cons.IH [OF m'(2)] show ?thesis
    proof (elim disjE exE conjE)
      fix ys created n zs m1 k
      assume "xs = ys @ Start created n # zs" "io_run ys m' = (None, m1)" "io_inv m1" "\<not> active m1"
        "k < unat n" "\<not> created k" "list_all created [0..<k]" "io_run xs m' = (Some System_Error, half_started k m1)"
      with m'(1) show ?thesis
        by (intro disjI2 exI [of _ "x # ys"] exI [of _ created] exI [of _ n] exI [of _ zs] exI [of _ m1] exI [of _ k]) simp
    qed (use m' in simp)
  next
    fix created n k
    assume "x = Start created n" "\<not> active m" "k < unat n" "\<not> created k" "list_all created [0..<k]"
      "io_do x m = (Some System_Error, half_started k m)"
    with Cons.prems show ?thesis
      by (intro disjI2 exI [of _ "[]"] exI [of _ created] exI [of _ n] exI [of _ xs] exI [of _ m] exI [of _ k]) simp
  qed
qed simp

lemma io_destroy_inv: "io_inv m \<Longrightarrow> \<exists>m'. io_destroy m = Inr m' \<and> thread_pool m' = [] \<and> \<not> active m'"
proof -
  assume "io_inv m"
  then obtain m' where "io_stop m = Inr m'" "io_inv m'" "\<not> active m'"
    using io_stop_inv by blast
  moreover from this have "clear_pool m' = Inr (m'\<lparr>thread_pool := []\<rparr>)"
    by (intro clear_pool_joined) (simp add: io_inv_def)
  ultimately show ?thesis by (simp add: io_destroy_def)
qed

end
