(* ===== verification/Application.thy ===== *)
theory Application
  imports Server Client Io_Manager
begin

section \<open>The console application\<close>

text \<open>
  The \<open>main\<close> function of \<open>src/main.cpp\<close> from the construction of the objects on: the
  set-up of the objects, the command loop on the standard input, and the way
  out. The worker threads run between the commands and on the way out until they are joined; what they
  do, and the exception that leaves one of them and so ends the program, is a function \<open>background\<close> of
  the instant and the state. \<open>boost::lexical_cast\<close> is a parameter.
\<close>

subsection \<open>Standard input\<close>

text \<open>
  What is still to be read, and whether the stream is good. \<open>getline\<close> on a stream that is not good
  leaves the string alone; otherwise it replaces it by the characters up to the next newline, and
  the stream is no longer good when the end was reached first.
\<close>

record stdin =
  unread :: string
  good :: bool

definition newline :: char where
  "newline = CHR 0x0A"

definition getline :: "string \<Rightarrow> stdin \<Rightarrow> string \<times> stdin" where
  "getline line i =
     (if \<not> good i then (line, i)
      else (takeWhile (\<lambda>c. c \<noteq> newline) (unread i),
            \<lparr>unread = tl (dropWhile (\<lambda>c. c \<noteq> newline) (unread i)),
             good = (newline \<in> set (unread i))\<rparr>))"

subsection \<open>State\<close>

record 'w app =
  app_io :: io_manager
  app_server :: "'w server_st"
  app_client :: "'w client_st"
  app_in :: stdin
  app_out :: "output_line list"
  app_world :: 'w

text \<open>The server and the client as their calls see them.\<close>

abbreviation server_part :: "'w app \<Rightarrow> 'w server_st" where
  "server_part a \<equiv> (app_server a)\<lparr>srv_world := app_world a\<rparr>"

abbreviation client_part :: "'w app \<Rightarrow> 'w client_st" where
  "client_part a \<equiv> (app_client a)\<lparr>cl_world := app_world a\<rparr>"

text \<open>A call on the server or the client, which act on the world of the process.\<close>

definition on_server ::
  "('w server_st \<Rightarrow> 'b \<times> 'w server_st) \<Rightarrow> 'w app \<Rightarrow> 'b \<times> 'w app"
where
  "on_server f a =
     (case f ((app_server a)\<lparr>srv_world := app_world a\<rparr>) of
        (b, s) \<Rightarrow> (b, a\<lparr>app_server := s, app_world := srv_world s\<rparr>))"

definition on_client ::
  "('w client_st \<Rightarrow> 'b \<times> 'w client_st) \<Rightarrow> 'w app \<Rightarrow> 'b \<times> 'w app"
where
  "on_client f a =
     (case f ((app_client a)\<lparr>cl_world := app_world a\<rparr>) of
        (b, c) \<Rightarrow> (b, a\<lparr>app_client := c, app_world := cl_world c\<rparr>))"

text \<open>The same for a call that may throw.\<close>

definition try_server ::
  "('w server_st \<Rightarrow> ('b \<times> 'w server_st) result) \<Rightarrow> 'w app \<Rightarrow> ('b \<times> 'w app) result"
where
  "try_server f a =
     bind_result (f ((app_server a)\<lparr>srv_world := app_world a\<rparr>)) (\<lambda>(b, s).
       Inr (b, a\<lparr>app_server := s, app_world := srv_world s\<rparr>))"

definition try_client ::
  "('w client_st \<Rightarrow> ('b \<times> 'w client_st) result) \<Rightarrow> 'w app \<Rightarrow> ('b \<times> 'w app) result"
where
  "try_client f a =
     bind_result (f ((app_client a)\<lparr>cl_world := app_world a\<rparr>)) (\<lambda>(b, c).
       Inr (b, a\<lparr>app_client := c, app_world := cl_world c\<rparr>))"

definition say :: "string \<Rightarrow> 'w app \<Rightarrow> 'w app" where
  "say line a = a\<lparr>app_out := app_out a @ [(Std_Out, line @ [newline])]\<rparr>"

definition read_line :: "string \<Rightarrow> 'w app \<Rightarrow> string \<times> 'w app" where
  "read_line line a = (case getline line (app_in a) of (l, i) \<Rightarrow> (l, a\<lparr>app_in := i\<rparr>))"

subsection \<open>The commands\<close>

text \<open>
  The parameters of the program: the listening address and port of the configuration, the text of
  \<open>__PRETTY_FUNCTION__\<close> in \<open>read_file\<close>, and \<open>lexical_cast<unsigned short>\<close>.
\<close>

record config =
  listen_address :: string
  listen_port :: "16 word"
  pretty_read_file :: string
  lexical_cast_ushort :: "string \<Rightarrow> 16 word option"

definition boolalpha :: "bool \<Rightarrow> string" where
  "boolalpha b = (if b then ''true'' else ''false'')"

definition status_text :: "'w asio \<Rightarrow> 'w server_st \<Rightarrow> 'w client_st \<Rightarrow> string" where
  "status_text A s c =
     ''##################################'' @ [newline] @ ''<|Server|>'' @
     [newline] @ '' Address: '' @ get_address A s @
     [newline] @ '' Port: '' @ decimal (unat (get_port s)) @
     [newline] @ '' Listening: '' @ boolalpha (is_listening A s) @
     [newline] @ ''<|Client|>'' @
     [newline] @ '' Connected: '' @ boolalpha (is_connected A c) @
     (if is_connected A c then
        [newline] @ ''  *Host: '' @ ''x.x.x.x'' @ [newline] @ ''  *Port: '' @ ''00000''
      else []) @
     [newline] @ ''##################################''"

definition help_text :: string where
  "help_text =
     ''Invalid input! The following input is available:'' @ [newline] @
     ''- server_start'' @ [newline] @ ''- server_stop'' @ [newline] @
     ''- server_set_address'' @ [newline] @ ''- server_set_port'' @ [newline] @
     ''- client_connect'' @ [newline] @ ''- client_disconnect'' @ [newline] @
     ''- client_send'' @ [newline] @ ''- client_send_file'' @ [newline] @
     ''- status'' @ [newline] @ ''- quit''"

definition exec_command ::
  "'h host_scheme asio \<Rightarrow> config \<Rightarrow> string \<Rightarrow> 'h host_scheme app \<Rightarrow> 'h host_scheme app result"
where
  "exec_command A C input a =
     (if input = ''server_start'' then
        Inr (snd (on_server (\<lambda>s. ((), start_server A s)) a))
      else if input = ''server_stop'' then
        bind_result (try_server (\<lambda>s. bind_result (stop_server A s) (\<lambda>s'. Inr ((), s'))) a)
          (\<lambda>(_, a1). Inr a1)
      else if input = ''server_set_address'' then
        (case read_line input
                (say ''Enter an address in dotted decimal (IPv4) or hexadecimal (IPv6):'' a) of
           (l, a1) \<Rightarrow> Inr (snd (on_server (set_address A l) a1)))
      else if input = ''server_set_port'' then
        (case read_line input (say ''Enter a port (0-65535):'' a) of
           (l, a1) \<Rightarrow>
             (case lexical_cast_ushort C l of
                None \<Rightarrow> Inl Bad_Lexical_Cast
              | Some p \<Rightarrow> bind_result (try_server (set_port A p) a1) (\<lambda>(_, a2). Inr a2)))
      else if input = ''client_connect'' then
        Inr (snd (on_client (\<lambda>c. ((), connect (listen_address C) (listen_port C) c)) a))
      else if input = ''client_disconnect'' then
        Inr (snd (on_client (\<lambda>c. ((), disconnect A c)) a))
      else if input = ''client_send'' then
        (case read_line input (say ''Enter a message:'' a) of
           (l, a1) \<Rightarrow> Inr (snd (on_client (client_send A (message_of l)) a1)))
      else if input = ''client_send_file'' then
        (case read_line input (say ''Enter a file path:'' a) of
           (l, a1) \<Rightarrow>
             bind_result (try_client (send_file A (pretty_read_file C) l) a1) (\<lambda>(_, a2). Inr a2))
      else if input = ''status'' then
        Inr (say (status_text A ((app_server a)\<lparr>srv_world := app_world a\<rparr>)
                                ((app_client a)\<lparr>cl_world := app_world a\<rparr>)) a)
      else Inr (say help_text a))"

text \<open>
  The instants at which the main thread lets the others run: before it reads line \<open>i\<close>, and after each of
  the first two calls that follow the loop. (After the third they have been joined.)
\<close>

datatype instant = Before_Line nat | After_Disconnect | After_Stop

type_synonym 'w threads = "instant \<Rightarrow> 'w app \<Rightarrow> 'w app result"

text \<open>
  The loop. Each iteration declares its input string anew, so a read that fails leaves it empty.
  \<open>None\<close> is a loop that does not end.
\<close>

partial_function (option) main_loop ::
  "'h host_scheme asio \<Rightarrow> config \<Rightarrow> 'h host_scheme threads \<Rightarrow> nat \<Rightarrow>
   'h host_scheme app \<Rightarrow> 'h host_scheme app result option"
where
  "main_loop A C background i a =
     (case background (Before_Line i) a of
        Inl e \<Rightarrow> Some (Inl e)
      | Inr b \<Rightarrow>
          (case read_line [] b of (input, a1) \<Rightarrow>
             if input = ''quit'' then Some (Inr a1)
             else (case exec_command A C input a1 of
                     Inl e \<Rightarrow> Some (Inl e)
                   | Inr a2 \<Rightarrow> main_loop A C background (Suc i) a2)))"

text \<open>The states of the main thread at the beginning of its iterations.\<close>

inductive loop_reaches ::
  "'h host_scheme asio \<Rightarrow> config \<Rightarrow> 'h host_scheme threads \<Rightarrow> nat \<Rightarrow> 'h host_scheme app \<Rightarrow>
   nat \<Rightarrow> 'h host_scheme app \<Rightarrow> bool"
  for A C background n a0 where
  loop_starts: "loop_reaches A C background n a0 n a0"
| loop_goes_on: "loop_reaches A C background n a0 i a \<Longrightarrow> background (Before_Line i) a = Inr b \<Longrightarrow>
    read_line [] b = (input, a1) \<Longrightarrow> input \<noteq> ''quit'' \<Longrightarrow> exec_command A C input a1 = Inr a2 \<Longrightarrow>
    loop_reaches A C background n a0 (Suc i) a2"

subsection \<open>Before and after the loop\<close>

definition open_app :: "(nat \<Rightarrow> bool) \<Rightarrow> 32 word \<Rightarrow> string \<Rightarrow> 'w server_st \<Rightarrow> 'w app result" where
  "open_app created hardware_concurrency input s =
     bind_result (uncaught (io_start created (default_num_threads hardware_concurrency) new_io_manager)) (\<lambda>io.
       Inr \<lparr>app_io = io, app_server = s, app_client = new_client (srv_world s),
            app_in = \<lparr>unread = input, good = True\<rparr>, app_out = [], app_world = srv_world s\<rparr>)"

text \<open>The calls after the loop: the client is disconnected, the server and the I/O manager are stopped.\<close>

definition last_stop :: "'w asio \<Rightarrow> 'w app \<Rightarrow> 'w app result" where
  "last_stop A a =
     bind_result (try_server (\<lambda>s. bind_result (stop_server A s) (\<lambda>s'. Inr ((), s'))) a) (\<lambda>(_, a1). Inr a1)"

definition finish_app ::
  "'h host_scheme asio \<Rightarrow> 'h host_scheme threads \<Rightarrow> 'h host_scheme app \<Rightarrow> 'h host_scheme app result"
where
  "finish_app A background a =
     bind_result (background After_Disconnect (snd (on_client (\<lambda>c. ((), disconnect A c)) a))) (\<lambda>a1.
     bind_result (last_stop A a1) (\<lambda>a2.
     bind_result (background After_Stop a2) (\<lambda>a3.
     bind_result (io_stop (app_io a3)) (\<lambda>io. Inr (a3\<lparr>app_io := io\<rparr>)))))"

text \<open>The end of the scope of \<open>main\<close>: the client, the server and the I/O manager are destroyed.\<close>

definition leave_main :: "'h host_scheme asio \<Rightarrow> 'h host_scheme app \<Rightarrow> 'h host_scheme app result" where
  "leave_main A a =
     (let a1 = snd (on_client (\<lambda>c. ((), client_destroy c)) a)
      in bind_result (try_server (\<lambda>s. bind_result (server_destroy A s) (\<lambda>s'. Inr ((), s'))) a1)
           (\<lambda>(_, a2). bind_result (io_destroy (app_io a2)) (\<lambda>io. Inr (a2\<lparr>app_io := io\<rparr>))))"

text \<open>The loop and what follows it, to the end of \<open>main\<close>.\<close>

definition run_app ::
  "'h host_scheme asio \<Rightarrow> config \<Rightarrow> 'h host_scheme threads \<Rightarrow>
   'h host_scheme app \<Rightarrow> 'h host_scheme app result option"
where
  "run_app A C background a =
     (case main_loop A C background 0 a of
        None \<Rightarrow> None
      | Some (Inl e) \<Rightarrow> Some (Inl e)
      | Some (Inr a1) \<Rightarrow> Some (bind_result (finish_app A background a1) (leave_main A)))"

subsection \<open>Facts\<close>

lemma on_fields [simp]:
  "app_io (snd (on_server f a)) = app_io a" "app_in (snd (on_server f a)) = app_in a"
  "app_io (snd (on_client g a)) = app_io a" "app_in (snd (on_client g a)) = app_in a"
  by (simp_all add: on_server_def on_client_def split: prod.splits)

lemma try_fields:
  "try_server f a = Inr (b, a') \<Longrightarrow> app_io a' = app_io a \<and> app_in a' = app_in a"
  "try_client g a = Inr (c, a') \<Longrightarrow> app_io a' = app_io a \<and> app_in a' = app_in a"
  by (auto simp: try_server_def try_client_def bind_result_conv)

lemma say_fields [simp]: "app_io (say l a) = app_io a" "app_in (say l a) = app_in a"
  by (simp_all add: say_def)

lemma read_line_io: "read_line l a = (l', a') \<Longrightarrow> app_io a' = app_io a"
  by (auto simp: read_line_def split: prod.splits)

lemma exec_command_io: "exec_command A C input a = Inr a' \<Longrightarrow> app_io a' = app_io a"
  unfolding exec_command_def
  by (auto simp: bind_result_conv dest!: try_fields read_line_io split: if_splits prod.splits option.splits)

lemma exec_command_empty: "exec_command A C [] a = Inr (say help_text a)"
  by (simp add: exec_command_def)

text \<open>A loop that ends ends in one of its iterations.\<close>

definition iteration_ends ::
  "'h host_scheme asio \<Rightarrow> config \<Rightarrow> 'h host_scheme threads \<Rightarrow> nat \<Rightarrow> 'h host_scheme app \<Rightarrow>
   'h host_scheme app result \<Rightarrow> bool"
where
  "iteration_ends A C background i a r \<longleftrightarrow>
     (case background (Before_Line i) a of
        Inl e \<Rightarrow> r = Inl e
      | Inr b \<Rightarrow> (case read_line [] b of (input, a1) \<Rightarrow>
          if input = ''quit'' then r = Inr a1 else \<exists>e. exec_command A C input a1 = Inl e \<and> r = Inl e))"

lemma main_loop_ends:
  assumes "main_loop A C background i a = Some r" and "loop_reaches A C background n a0 i a"
  shows "\<exists>j b. loop_reaches A C background n a0 j b \<and> iteration_ends A C background j b r"
proof -
  have "\<forall>n a0. loop_reaches A C bg n a0 i a \<longrightarrow> (\<exists>j b. loop_reaches A C bg n a0 j b \<and> iteration_ends A C bg j b r)"
    if "main_loop A C bg i a = Some r" for A :: "'h host_scheme asio" and C bg i a r
    using that
  proof (rule main_loop.raw_induct [rotated, where P = "\<lambda>A C bg i a r. \<forall>n a0. loop_reaches A C bg n a0 i a \<longrightarrow>
        (\<exists>j b. loop_reaches A C bg n a0 j b \<and> iteration_ends A C bg j b r)"])
    fix loop and A :: "'h host_scheme asio" and C bg i a r
    assume IH: "\<And>A C bg i a r. loop A C bg i a = Some r \<Longrightarrow> \<forall>n a0. loop_reaches A C bg n a0 i a \<longrightarrow>
        (\<exists>j b. loop_reaches A C bg n a0 j b \<and> iteration_ends A C bg j b r)"
      and eq: "(case bg (Before_Line i) a of
          Inl e \<Rightarrow> Some (Inl e)
        | Inr b \<Rightarrow> case read_line [] b of (input, a1) \<Rightarrow>
            if input = ''quit'' then Some (Inr a1)
            else case exec_command A C input a1 of
                   Inl e \<Rightarrow> Some (Inl e)
                 | Inr a2 \<Rightarrow> loop A C bg (Suc i) a2) = Some r"
    show "\<forall>n a0. loop_reaches A C bg n a0 i a \<longrightarrow> (\<exists>j b. loop_reaches A C bg n a0 j b \<and> iteration_ends A C bg j b r)"
    proof (intro allI impI)
      fix n a0 assume at: "loop_reaches A C bg n a0 i a"
      show "\<exists>j b. loop_reaches A C bg n a0 j b \<and> iteration_ends A C bg j b r"
      proof (cases "iteration_ends A C bg i a r")
        case True
        with at show ?thesis by blast
      next
        case False
        obtain b where b: "bg (Before_Line i) a = Inr b"
          using False eq by (cases "bg (Before_Line i) a") (auto simp: iteration_ends_def)
        obtain input a1 where l: "read_line [] b = (input, a1)" by force
        have q: "input \<noteq> ''quit''" using False eq b l by (auto simp: iteration_ends_def)
        obtain a2 where c: "exec_command A C input a1 = Inr a2"
          using False eq b l q by (cases "exec_command A C input a1") (auto simp: iteration_ends_def)
        have "loop A C bg (Suc i) a2 = Some r" using eq b l q c by simp
        note this b l q c
        from IH [OF this(1)] loop_goes_on [OF at this(2-5)] show ?thesis by blast
      qed
    qed
  qed
  with assms show ?thesis by blast
qed

text \<open>What the threads and every command keep holds in every iteration.\<close>

lemma loop_reaches_io:
  assumes "loop_reaches A C background n a0 i a" and "\<And>j b b'. background j b = Inr b' \<Longrightarrow> app_io b' = app_io b"
  shows "app_io a = app_io a0"
  using assms(1)
proof (induction rule: loop_reaches.induct)
  case (loop_goes_on i a b input a1 a2)
  with assms(2) show ?case by (auto dest!: exec_command_io read_line_io)
qed simp

text \<open>A loop whose threads do not throw only ends from a state whose standard input is still good.\<close>

lemma loop_reaches_bad:
  assumes "loop_reaches A C background n a0 i a" and "\<not> good (app_in a0)"
    and "\<And>j b. \<exists>b'. background j b = Inr b' \<and> app_in b' = app_in b"
  shows "\<not> good (app_in a)"
  using assms(1)
proof (induction rule: loop_reaches.induct)
  case loop_starts
  show ?case by (rule assms(2))
next
  case (loop_goes_on i a b input a1 a2)
  have b: "\<not> good (app_in b)" using assms(3) [of "Before_Line i" a] loop_goes_on(2) loop_goes_on.IH by auto
  with loop_goes_on(3) have "input = []" "app_in a1 = app_in b"
    by (auto simp: read_line_def getline_def split: prod.splits)
  with loop_goes_on(5) b show ?case by (auto simp: exec_command_empty)
qed

lemma main_loop_bad:
  assumes "\<not> good (app_in a)" and "\<And>j b. \<exists>b'. background j b = Inr b' \<and> app_in b' = app_in b"
  shows "main_loop A C background n a = None"
proof (rule ccontr)
  assume "main_loop A C background n a \<noteq> None"
  then obtain r where "main_loop A C background n a = Some r" by blast
  from main_loop_ends [OF this loop_starts] obtain j b where
    reach: "loop_reaches A C background n a j b" and ends: "iteration_ends A C background j b r" by blast
  have "\<not> good (app_in b)" using reach assms by (rule loop_reaches_bad)
  with assms(2) [of "Before_Line j" b] ends show False
    by (auto simp: iteration_ends_def read_line_def getline_def exec_command_empty)
qed

subsection \<open>Input that ends the loop\<close>

text \<open>The commands that read a further line, and the lines that get the loop to a \<open>quit\<close>.\<close>

definition takes_argument :: "string \<Rightarrow> bool" where
  "takes_argument input \<longleftrightarrow>
     input \<in> set [''server_set_address'', ''server_set_port'', ''client_send'', ''client_send_file'']"

fun quits :: "string list \<Rightarrow> bool" where
  "quits [] = False"
| "quits [l] = (l = ''quit'')"
| "quits (l # l' # ls) =
     (l = ''quit'' \<or> (if takes_argument l then quits ls else quits (l' # ls)))"

definition lines_text :: "string list \<Rightarrow> string" where
  "lines_text ls = concat (map (\<lambda>l. l @ [newline]) ls)"

lemma lines_text_Cons [simp]: "lines_text (l # ls) = l @ newline # lines_text ls" "lines_text [] = []"
  by (simp_all add: lines_text_def)

lemma getline_line:
  "newline \<notin> set l \<Longrightarrow>
   getline x \<lparr>unread = l @ newline # rest, good = True\<rparr> = (l, \<lparr>unread = rest, good = True\<rparr>)"
  by (auto simp: getline_def takeWhile_append dropWhile_append)

lemma read_line_line:
  assumes "app_in b = \<lparr>unread = l @ newline # rest, good = True\<rparr>" and "newline \<notin> set l"
  shows "read_line x b = (l, b\<lparr>app_in := \<lparr>unread = rest, good = True\<rparr>\<rparr>)"
  using assms by (simp add: read_line_def getline_line)

lemma read_line_in: "read_line x a = (l, a') \<Longrightarrow> getline x (app_in a) = (l, app_in a')"
  by (auto simp: read_line_def split: prod.splits)

lemma exec_command_in:
  "exec_command A C input a = Inr a' \<Longrightarrow>
   app_in a' = (if takes_argument input then snd (getline input (app_in a)) else app_in a)"
  unfolding exec_command_def takes_argument_def
  by (auto simp: bind_result_conv dest!: try_fields read_line_in
      split: if_splits prod.splits option.splits)

lemma main_loop_unfold:
  assumes "background (Before_Line i) a = Inr b" and "read_line [] b = (input, a1)"
  shows "main_loop A C background i a =
    (if input = ''quit'' then Some (Inr a1)
     else case exec_command A C input a1 of Inl e \<Rightarrow> Some (Inl e) | Inr a2 \<Rightarrow> main_loop A C background (Suc i) a2)"
  using assms by (subst main_loop.simps) simp

lemma main_loop_thread_fault: "background (Before_Line i) a = Inl e \<Longrightarrow> main_loop A C background i a = Some (Inl e)"
  by (subst main_loop.simps) simp

lemma main_loop_quits:
  assumes "quits ls" and "list_all (\<lambda>l. newline \<notin> set l) ls"
    and "app_in a = \<lparr>unread = lines_text ls @ rest, good = True\<rparr>"
    and "\<And>j b b'. background j b = Inr b' \<Longrightarrow> app_in b' = app_in b"
  shows "\<exists>r. main_loop A C background i a = Some r"
  using assms(1-3)
proof (induction ls arbitrary: a i rule: quits.induct)
  case (2 l)
  show ?case
  proof (cases "background (Before_Line i) a")
    case (Inl e)
    then show ?thesis by (simp add: main_loop_thread_fault)
  next
    case (Inr b)
    with assms(4) "2.prems"(2,3) have "app_in b = \<lparr>unread = l @ newline # rest, good = True\<rparr>" "newline \<notin> set l"
      by simp_all
    note read = read_line_line [OF this, of "[]"]
    have "l = ''quit''" using "2.prems"(1) by simp
    with main_loop_unfold [where background = background and i = i and a = a, OF Inr read] show ?thesis by simp
  qed
next
  case (3 l l' ls)
  show ?case
  proof (cases "background (Before_Line i) a")
    case (Inl e)
    then show ?thesis by (simp add: main_loop_thread_fault)
  next
    case b: (Inr b)
    with assms(4) "3.prems"(2,3)
    have "app_in b = \<lparr>unread = l @ newline # lines_text (l' # ls) @ rest, good = True\<rparr>" "newline \<notin> set l"
      by simp_all
    from read_line_line [OF this, of "[]"] obtain a1 where
      read: "read_line [] b = (l, a1)" and a1: "app_in a1 = \<lparr>unread = lines_text (l' # ls) @ rest, good = True\<rparr>"
      by simp
    note unfold = main_loop_unfold [where background = background and i = i and a = a, OF b read]
    show ?thesis
    proof (cases "exec_command A C l a1")
      case (Inl e)
      with unfold show ?thesis by simp
    next
      case (Inr a2)
      show ?thesis
      proof (cases "l = ''quit''")
        case cmd: False
        have "\<exists>r. main_loop A C background (Suc i) a2 = Some r"
        proof (cases "takes_argument l")
          case True
          with exec_command_in [OF Inr] a1 "3.prems"(2)
          have "app_in a2 = \<lparr>unread = lines_text ls @ rest, good = True\<rparr>" by (simp add: getline_line)
          with "3.IH"(1) [OF True] True cmd "3.prems"(1,2) show ?thesis by simp
        next
          case False
          with exec_command_in [OF Inr] a1 have "app_in a2 = \<lparr>unread = lines_text (l' # ls) @ rest, good = True\<rparr>"
            by simp
          with "3.IH"(2) [OF False] False cmd "3.prems"(1,2) show ?thesis by simp
        qed
        with unfold Inr cmd show ?thesis by simp
      qed (use unfold in simp)
    qed
  qed
qed simp

subsection \<open>The states at start and end\<close>

lemma new_io_inactive [simp]: "\<not> active new_io_manager"
  by (simp add: new_io_manager_def)

text \<open>The manager of the program after its start, with \<open>n\<close> workers.\<close>

lemma open_app_iff:
  "open_app created hw input s = Inr a \<longleftrightarrow>
     list_all created [0..<unat (default_num_threads hw)] \<and>
     a = \<lparr>app_io = started (unat (default_num_threads hw)) new_io_manager, app_server = s,
          app_client = new_client (srv_world s), app_in = \<lparr>unread = input, good = True\<rparr>, app_out = [],
          app_world = srv_world s\<rparr>"
proof (cases "list_all created [0..<unat (default_num_threads hw)]")
  case True
  from io_start_granted [OF io_inv_new new_io_inactive this] True show ?thesis by (auto simp: open_app_def)
next
  case False
  with io_start_granted_iff [OF io_inv_new, of created "default_num_threads hw"]
  show ?thesis by (auto simp: open_app_def bind_result_conv uncaught_conv)
qed

lemma open_app_Inr:
  assumes "open_app created hw input s = Inr a"
  shows "io_inv (app_io a) \<and> active (app_io a) \<and>
    thread_pool (app_io a) = replicate (unat (default_num_threads hw)) Joinable \<and>
    app_in a = \<lparr>unread = input, good = True\<rparr> \<and> app_client a = new_client (srv_world s) \<and>
    app_server a = s \<and> app_world a = srv_world s"
  using assms io_inv_started [OF io_inv_new] by (simp add: open_app_iff)

text \<open>
  What the code the threads run cannot do: it neither starts nor stops the manager, and it does not open
  the acceptor of the server.
\<close>

definition threads_only_handle :: "'w asio \<Rightarrow> 'w threads \<Rightarrow> bool" where
  "threads_only_handle A background \<longleftrightarrow>
     (\<forall>j b b'. background j b = Inr b' \<longrightarrow> app_io b' = app_io b \<and>
        (is_listening A (server_part b') \<longrightarrow> is_listening A (server_part b)))"

lemma threads_only_handleD:
  assumes "threads_only_handle A background" and "background j b = Inr b'"
  shows "app_io b' = app_io b" and "is_listening A (server_part b') \<Longrightarrow> is_listening A (server_part b)"
  using assms unfolding threads_only_handle_def by blast+

lemma last_stop_Inr:
  assumes "last_stop A a = Inr b" and "acceptor_laws A"
  shows "app_io b = app_io a" and "\<not> is_listening A (server_part b)"
proof -
  from assms(1) obtain s where s: "stop_server A (server_part a) = Inr s"
    and b: "b = a\<lparr>app_server := s, app_world := srv_world s\<rparr>"
    by (auto simp: last_stop_def try_server_def bind_result_conv)
  show "app_io b = app_io a" by (simp add: b)
  show "\<not> is_listening A (server_part b)" using stop_not_listening [OF assms(2) s] by (simp add: b)
qed

lemma last_stop_Inl:
  "last_stop A a = Inl e \<longleftrightarrow>
     e = System_Error \<and> fst (acceptor_close A (srv_acceptor (app_server a)) (app_world a)) \<noteq> Success"
  by (auto simp: last_stop_def try_server_def stop_server_def bind_result_conv split: prod.splits if_splits)

lemma finish_app_Inr:
  assumes "finish_app A background a = Inr a'" and "io_inv (app_io a)" and "acceptor_laws A"
    and "threads_only_handle A background"
  shows "io_inv (app_io a') \<and> \<not> active (app_io a') \<and> \<not> is_listening A (server_part a')"
proof -
  let ?a0 = "snd (on_client (\<lambda>c. ((), disconnect A c)) a)"
  from assms(1) obtain a1 a2 a3 io where
    a1: "background After_Disconnect ?a0 = Inr a1" and a2: "last_stop A a1 = Inr a2"
    and a3: "background After_Stop a2 = Inr a3"
    and io: "io_stop (app_io a3) = Inr io" and a': "a' = a3\<lparr>app_io := io\<rparr>"
    by (auto simp: finish_app_def bind_result_conv)
  note keep = threads_only_handleD [OF assms(4)]
  have "app_io a3 = app_io a" using keep(1) [OF a3] last_stop_Inr(1) [OF a2 assms(3)] keep(1) [OF a1] by simp
  with io_stop_inv [OF assms(2)] io have "io_inv io" "\<not> active io" by auto
  moreover have "\<not> is_listening A (server_part a3)" using keep(2) [OF a3] last_stop_Inr(2) [OF a2 assms(3)] by blast
  ultimately show ?thesis by (simp add: a')
qed

lemma conj_absorb_right: "(P \<Longrightarrow> Q) \<Longrightarrow> (P \<and> Q) = P"
  by blast

text \<open>What can go wrong on the way out: a thread throws, or the acceptor cannot be closed.\<close>

lemma finish_app_Inl:
  assumes "finish_app A background a = Inl e" and "io_inv (app_io a)" and "acceptor_laws A"
    and "threads_only_handle A background"
  shows "background After_Disconnect (snd (on_client (\<lambda>c. ((), disconnect A c)) a)) = Inl e \<or>
    (\<exists>a1. background After_Disconnect (snd (on_client (\<lambda>c. ((), disconnect A c)) a)) = Inr a1 \<and>
       (last_stop A a1 = Inl e \<or> (\<exists>a2. last_stop A a1 = Inr a2 \<and> background After_Stop a2 = Inl e)))"
proof -
  note keep = threads_only_handleD [OF assms(4)]
  have "False" if "background After_Disconnect (snd (on_client (\<lambda>c. ((), disconnect A c)) a)) = Inr a1"
    "last_stop A a1 = Inr a2" "background After_Stop a2 = Inr a3" "io_stop (app_io a3) = Inl e" for a1 a2 a3
  proof -
    have "app_io a3 = app_io a" using keep(1) [OF that(3)] last_stop_Inr(1) [OF that(2) assms(3)] keep(1) [OF that(1)] by simp
    with io_stop_inv [OF assms(2)] that(4) show False by auto
  qed
  moreover from assms(1) obtain x where "background After_Disconnect (snd (on_client (\<lambda>c. ((), disconnect A c)) a)) = Inl e \<or>
      background After_Disconnect (snd (on_client (\<lambda>c. ((), disconnect A c)) a)) = Inr x \<and>
      (last_stop A x = Inl e \<or> (\<exists>y. last_stop A x = Inr y \<and> (background After_Stop y = Inl e \<or>
        (\<exists>z. background After_Stop y = Inr z \<and> io_stop (app_io z) = Inl e))))"
    by (auto simp: finish_app_def bind_result_conv)
  ultimately show ?thesis by blast
qed

text \<open>Stopping what has been stopped: no destructor throws.\<close>

lemma server_destroy_closed:
  assumes "acceptor_laws A" and "close_again A" and "\<not> is_listening A s"
  obtains s' where "server_destroy A s = Inr s'" and "\<not> is_listening A s'"
proof -
  from assms(2,3) have "fst (acceptor_close A (srv_acceptor s) (srv_world s)) = Success"
    by (simp add: close_again_def is_listening_def)
  then obtain s' where s': "stop_server A s = Inr s'"
    by (cases "acceptor_close A (srv_acceptor s) (srv_world s)") (simp add: stop_server_def)
  show thesis
    by (rule that [of s']) (use s' stop_not_listening [OF assms(1) s'] in \<open>simp_all add: server_destroy_def\<close>)
qed

lemma leave_main_Inr:
  assumes "io_inv (app_io a)" and "\<not> is_listening A (server_part a)"
    and "acceptor_laws A" and "close_again A"
  obtains a' where "leave_main A a = Inr a'" and "\<not> active (app_io a')" and "thread_pool (app_io a') = []"
    and "active_session (app_client a') = None" and "\<not> is_listening A (server_part a')"
proof -
  let ?a1 = "snd (on_client (\<lambda>c. ((), client_destroy c)) a)"
  have "server_part ?a1 = server_part a"
    by (simp add: on_client_def client_destroy_def set_active_def)
  moreover obtain s where s: "server_destroy A (server_part a) = Inr s" "\<not> is_listening A s"
    using assms(3,4,2) by (rule server_destroy_closed)
  moreover obtain io where io: "io_destroy (app_io a) = Inr io" "\<not> active io" "thread_pool io = []"
    using io_destroy_inv [OF assms(1)] by blast
  ultimately have "leave_main A a = Inr (?a1\<lparr>app_server := s, app_world := srv_world s, app_io := io\<rparr>)"
    by (simp add: leave_main_def Let_def try_server_def)
  then show thesis
    by (rule that) (simp_all add: s io on_client_def client_destroy_def)
qed

text \<open>The exceptions a command can end in, and when; \<open>?x\<close> is the line after the command.\<close>

lemma exec_command_fault:
  assumes "exec_command A C input a = Inl e"
  shows "let x = fst (getline input (app_in a)) in
    input = ''server_stop'' \<and> e = System_Error \<and>
      fst (acceptor_close A (srv_acceptor (app_server a)) (app_world a)) \<noteq> Success \<or>
    input = ''server_set_port'' \<and> lexical_cast_ushort C x = None \<and> e = Bad_Lexical_Cast \<or>
    input = ''server_set_port'' \<and> lexical_cast_ushort C x \<noteq> None \<and> \<not> is_listening A (server_part a) \<and>
      e = System_Error \<or>
    input = ''client_send_file'' \<and> e = Length_Error \<and>
      (\<exists>file. disk (app_world a) x = Some file \<and> vec_max_size < unat (end_position file))"
  using assms
  by (auto simp: exec_command_def bind_result_conv try_server_def try_client_def stop_server_def
      set_port_def port_in_use_def send_file_def read_file_def vec_resize_def Let_def read_line_def say_def
      split: if_splits prod.splits option.splits)

text \<open>How the program ends after its start: cleanly, or by the exception of a thread, a command or the last stop.\<close>

lemma run_app_end:
  assumes "run_app A C background a = Some r" and "io_inv (app_io a)" and "acceptor_laws A" and "close_again A"
    and keep: "threads_only_handle A background"
  shows "case r of
      Inr a' \<Rightarrow> \<not> active (app_io a') \<and> thread_pool (app_io a') = [] \<and>
        active_session (app_client a') = None \<and> \<not> is_listening A (server_part a')
    | Inl e \<Rightarrow>
        (\<exists>i b. loop_reaches A C background 0 a i b \<and>
           (background (Before_Line i) b = Inl e \<or>
            (\<exists>b' input b1. background (Before_Line i) b = Inr b' \<and> read_line [] b' = (input, b1) \<and>
               exec_command A C input b1 = Inl e))) \<or>
        (\<exists>a1. main_loop A C background 0 a = Some (Inr a1) \<and>
           (background After_Disconnect (snd (on_client (\<lambda>c. ((), disconnect A c)) a1)) = Inl e \<or>
            (\<exists>a2. background After_Disconnect (snd (on_client (\<lambda>c. ((), disconnect A c)) a1)) = Inr a2 \<and>
               (last_stop A a2 = Inl e \<or> (\<exists>a3. last_stop A a2 = Inr a3 \<and> background After_Stop a3 = Inl e)))))"
proof -
  from assms(1) consider e where "r = Inl e" "main_loop A C background 0 a = Some (Inl e)"
    | a1 where "main_loop A C background 0 a = Some (Inr a1)" "r = bind_result (finish_app A background a1) (leave_main A)"
    by (auto simp: run_app_def split: sum.splits option.splits)
  then show ?thesis
  proof cases
    case 1
    from main_loop_ends [OF 1(2) loop_starts] obtain i b where
      "loop_reaches A C background 0 a i b" "iteration_ends A C background i b (Inl e)" by blast
    with 1(1) show ?thesis
      by (auto simp: iteration_ends_def split: sum.splits prod.splits if_splits; blast)
  next
    case 2
    from main_loop_ends [OF 2(1) loop_starts] obtain i b where
      reach: "loop_reaches A C background 0 a i b" and ends: "iteration_ends A C background i b (Inr a1)" by blast
    have "app_io b = app_io a" using reach threads_only_handleD(1) [OF keep] by (rule loop_reaches_io)
    moreover obtain b' where "background (Before_Line i) b = Inr b'" "read_line [] b' = (''quit'', a1)"
      using ends by (auto simp: iteration_ends_def split: sum.splits prod.splits if_splits)
    ultimately have inv: "io_inv (app_io a1)"
      using assms(2) threads_only_handleD(1) [OF keep] read_line_io by metis
    show ?thesis
    proof (cases "finish_app A background a1")
      case (Inl e)
      with 2 finish_app_Inl [OF Inl inv assms(3) keep] show ?thesis by auto
    next
      case (Inr a2)
      note fin = finish_app_Inr [OF Inr inv assms(3) keep]
      obtain a' where "leave_main A a2 = Inr a'" "\<not> active (app_io a')" "thread_pool (app_io a') = []"
        "active_session (app_client a') = None" "\<not> is_listening A (server_part a')"
        using fin assms(3,4) by (blast intro: leave_main_Inr [of a2 A])
      with 2 Inr show ?thesis by simp
    qed
  qed
qed

end
