(* ===== verification/Client_Steps.thy ===== *)
theory Client_Steps
  imports Client Client_Invariant
begin

section \<open>Everything that can happen to a client\<close>

text \<open>
  The steps of a client: the completions of its resolving and connecting operations, those of its active
  session and of the sessions it has let go, and the calls of its owner at any time, who need not wait
  for anything. The lemmas show what holds of all its sessions even so, and the only completion on
  which one of them can fault.
\<close>

subsection \<open>Any use of a session\<close>

text \<open>
  What the operations of a client session are, and that the length in the header of the write buffer
  can be read, however many sends overlap.
\<close>

fun client_op :: "async_op \<Rightarrow> bool" where
  "client_op (Op_Handshake t) \<longleftrightarrow> t = Handshake_Client"
| "client_op Op_Write_Null \<longleftrightarrow> False"
| "client_op Op_Wait \<longleftrightarrow> False"
| "client_op _ \<longleftrightarrow> True"

definition readable_length :: "message \<Rightarrow> bool" where
  "readable_length m \<longleftrightarrow> (\<exists>n. get_header_buffer_content_length m = Inr n)"

definition client_any :: "'a session_scheme \<Rightarrow> bool" where
  "client_any x \<longleftrightarrow> list_all client_op (pending x) \<and> readable_length (write_buffer x)"

lemma readable_framed: "framed m \<Longrightarrow> readable_length m"
  by (simp add: readable_length_def get_length_framed_never_faults)

lemma readable_clear [simp]: "readable_length (clear m)"
  by (simp add: readable_length_def get_length_short)

lemma readable_new [simp]: "readable_length new_message"
proof -
  have "\<not> list_all is_space (length_field new_message)"
    by (simp add: new_message_def length_field_def is_space_def zero_byte_def numeral_eq_Suc)
  then have "get_header_buffer_content_length new_message \<noteq> Inl e" for e
    by (simp add: get_length_Inl)
  then show ?thesis unfolding readable_length_def by (metis sum.exhaust)
qed

lemma prepare_write_readable:
  assumes "readable_length m"
  shows "\<exists>m'. prepare_content_buffer_write m = Inr m' \<and> readable_length m'"
proof -
  from assms obtain n where n: "get_header_buffer_content_length m = Inr n" by (auto simp: readable_length_def)
  then show ?thesis
    using assms by (auto simp: prepare_content_buffer_write_def readable_framed)
qed

lemma client_any_new: "client_any (new_session k w)"
  by (simp add: client_any_def new_session_def)

lemma client_any_start [simp]: "client_any (client_start s) = client_any s"
  by (simp add: client_any_def client_start_def do_defs)

lemma client_any_send: "client_any s \<Longrightarrow> client_any (client_session_send m s)"
  by (simp add: client_any_def client_session_send_def do_defs Let_def readable_framed)

lemma client_any_stop [simp]: "client_any (stop A s) = client_any s"
  by (simp add: client_any_def)

lemma client_any_debug [simp]: "client_any (debug A m e s) = client_any s"
  by (simp add: client_any_def)

lemma client_any_attach [simp]: "client_any (attach x w) = client_any x"
  by (simp add: client_any_def)

lemma client_any_truncate [simp]: "client_any (session.truncate s) = client_any s"
  by (simp add: client_any_def)

lemma client_any_close:
  "do_close_socket A (client_on_close_socket A) s = Inr s' \<Longrightarrow> client_any s \<Longrightarrow> client_any s'"
  by (rule client_close.closes [of A s]) (auto simp: client_any_def)

lemma client_any_complete:
  assumes "complete A (client_session A R) x ec s = Inr s'" and "client_op x" and "client_any s"
  shows "client_any s'"
proof (cases "x = Op_Shutdown \<or> (\<exists>t. x = Op_Handshake t)")
  case True
  with assms show ?thesis
    by (auto simp: client_completed_defs client_on_secure_handshake_def
        client_on_shutdown_secure_stream_def dest!: client_any_close split: if_splits)
next
  case False
  with assms(2) have tr: "is_transfer x" by (cases x) simp_all
  consider "ec = Success" | "ec = Operation_Aborted" | "ec \<noteq> Success" "ec \<noteq> Operation_Aborted" by blast
  then show ?thesis
  proof cases
    case 1
    obtain m where "prepare_content_buffer_write (write_buffer s) = Inr m" "readable_length m"
      using prepare_write_readable assms(3) unfolding client_any_def by blast
    with 1 tr assms show ?thesis
      by (cases x) (auto simp: client_completed_defs client_on_write_header_def client_on_write_content_def
          client_on_read_header_def client_on_read_content_def do_defs Let_def bind_result_conv client_any_def)
  next
    case 2
    with tr assms show ?thesis by (simp add: complete_aborted)
  next
    case 3
    obtain s1 where "complete A (client_session A R) x ec s = Inr (stop A s1)" "pending s1 = pending s"
      "write_buffer s1 = write_buffer s"
      by (rule complete_failed [OF tr 3, of A "client_session A R" s]) 
    with assms(1,3) show ?thesis by (auto simp: client_any_def)
  qed
qed

lemma client_any_deliver:
  assumes "deliver A (client_session A R) i ec d s = Inr s'" and "client_any s"
  shows "client_any s'"
proof (cases "i < length (pending s)")
  case True
  let ?s = "store_read (pending s ! i) d (s\<lparr>pending := take i (pending s) @ drop (Suc i) (pending s)\<rparr>)"
  have "complete A (client_session A R) (pending s ! i) ec ?s = Inr s'"
    using assms(1) True by (simp add: deliver_def Let_def)
  moreover have "client_op (pending s ! i)" "client_any ?s"
    using assms(2) True
    by (auto simp: client_any_def list_all_iff dest: in_set_takeD in_set_dropD)
  ultimately show ?thesis by (rule client_any_complete)
next
  case False
  with assms show ?thesis by (simp add: deliver_def)
qed

text \<open>The only fault of a client session, whatever its owner does.\<close>

lemma client_any_fault:
  assumes "deliver A (client_session A R) i ec d s = Inl e" and "client_any s"
  shows "ec = Success \<and> i < length (pending s) \<and> (\<exists>n. pending s ! i = Op_Read_Header n) \<and>
    prepare_content_buffer_read
      (read_buffer s\<lparr>header_buffer := overlay d (header_buffer (read_buffer s))\<rparr>) = Inl e"
proof -
  have i: "i < length (pending s)" using assms(1) by (auto simp: deliver_def split: if_splits)
  obtain m where "prepare_content_buffer_write (write_buffer s) = Inr m"
    using prepare_write_readable assms(2) unfolding client_any_def by blast
  moreover have "client_op (pending s ! i)" using assms(2) i by (simp add: client_any_def list_all_length)
  ultimately show ?thesis
    using assms(1) i
    by (cases "pending s ! i") (auto simp: deliver_def Let_def client_completed_defs
        client_on_secure_handshake_def client_on_shutdown_secure_stream_def client_on_write_header_def
        client_on_write_content_def client_on_read_header_def client_on_read_content_def bind_result_conv
        split: if_splits)
qed

subsection \<open>The steps of a client\<close>

text \<open>
  A completion of operation \<open>j\<close> of session \<open>i\<close> the client has let go; the session is destroyed when
  nothing is outstanding any more.
\<close>

definition detached_event ::
  "'w asio \<Rightarrow> 'w response_handler \<Rightarrow> nat \<Rightarrow> nat \<Rightarrow> error_code \<Rightarrow> bytes \<Rightarrow> 'w client_st \<Rightarrow> 'w client_st result"
where
  "detached_event A R i j ec d c =
     bind_result (deliver A (client_session A R) j ec d (attach (detached c ! i) (cl_world c))) (\<lambda>t.
       Inr (c\<lparr>detached :=
               (if pending t = [] then take i (detached c) @ drop (Suc i) (detached c)
                else (detached c)[i := session.truncate t]),
              cl_world := world t\<rparr>))"

inductive client_event ::
  "'w asio \<Rightarrow> string \<Rightarrow> 'w response_handler \<Rightarrow> 'w client_st \<Rightarrow> 'w client_st \<Rightarrow> bool"
  for A pf R where
  event_connecting: "client_event A pf R c (connecting_event A pf i ec result sock c)"
| event_active: "active_session c = Some x \<Longrightarrow> j < length (pending x) \<Longrightarrow> admissible (pending x ! j) ec d \<Longrightarrow>
    active_event A R j ec d c = Inr c' \<Longrightarrow> client_event A pf R c c'"
| event_detached: "i < length (detached c) \<Longrightarrow> j < length (pending (detached c ! i)) \<Longrightarrow>
    admissible (pending (detached c ! i) ! j) ec d \<Longrightarrow> detached_event A R i j ec d c = Inr c' \<Longrightarrow>
    client_event A pf R c c'"

inductive client_step ::
  "'h host_scheme asio \<Rightarrow> string \<Rightarrow> 'h host_scheme response_handler \<Rightarrow>
   'h host_scheme client_st \<Rightarrow> 'h host_scheme client_st \<Rightarrow> bool"
  for A pf R where
  step_event: "client_event A pf R c c' \<Longrightarrow> client_step A pf R c c'"
| step_connect: "client_step A pf R c (connect host port c)"
| step_disconnect: "client_step A pf R c (disconnect A c)"
| step_send: "client_send A m c = (b, c') \<Longrightarrow> client_step A pf R c c'"
| step_send_file: "send_file A pf' path c = Inr (b, c') \<Longrightarrow> client_step A pf R c c'"
| step_world: "client_step A pf R c (c\<lparr>cl_world := w\<rparr>)"

inductive client_run ::
  "'h host_scheme asio \<Rightarrow> string \<Rightarrow> 'h host_scheme response_handler \<Rightarrow>
   'h host_scheme client_st \<Rightarrow> 'h host_scheme client_st \<Rightarrow> bool"
  for A pf R c0 where
  client_run_refl: "client_run A pf R c0 c0"
| client_run_step: "client_run A pf R c0 c \<Longrightarrow> client_step A pf R c c' \<Longrightarrow> client_run A pf R c0 c'"

text \<open>What holds of a client at any time: of its sessions, and that a session it let go has work to do.\<close>

definition client_ok :: "'w client_st \<Rightarrow> bool" where
  "client_ok c \<longleftrightarrow> (\<forall>x. active_session c = Some x \<longrightarrow> client_any x) \<and>
     list_all (\<lambda>x. client_any x \<and> pending x \<noteq> []) (detached c)"

lemma client_ok_new: "client_ok (new_client w)"
  by (simp add: client_ok_def new_client_def)

lemma client_ok_world [simp]: "client_ok (c\<lparr>cl_world := w\<rparr>) = client_ok c"
  by (simp add: client_ok_def)

lemma client_ok_set_active:
  "client_ok c \<Longrightarrow> (\<And>x. v = Some x \<Longrightarrow> client_any x) \<Longrightarrow> client_ok (set_active v c)"
  by (auto simp: client_ok_def set_active_def split: option.splits)

lemma client_ok_call:
  "client_ok c \<Longrightarrow> (\<And>s :: 'w session_st. client_any s \<Longrightarrow> client_any (f s)) \<Longrightarrow> client_ok (call_active f c)"
  by (auto simp: client_ok_def call_active_def Let_def split: option.splits)

lemma client_ok_connecting: "client_ok c \<Longrightarrow> client_ok (connecting_event A pf i ec result sock c)"
  by (auto simp: connecting_event_def resolve_completed_def connect_completed_def Let_def client_any_new
      intro!: client_ok_set_active split: connect_op.splits)
    (auto simp: client_ok_def)

lemma list_all_drop_one: "list_all P xs \<Longrightarrow> list_all P (take i xs @ drop (Suc i) xs)"
  by (auto simp: list_all_iff dest: in_set_takeD in_set_dropD)

lemma list_all_update: "list_all P xs \<Longrightarrow> P x \<Longrightarrow> list_all P (xs[i := x])"
  by (auto simp: list_all_iff dest!: set_update_subset_insert [THEN subsetD])

lemma client_event_ok:
  assumes "client_event A pf R c c'" and "client_ok c"
  shows "client_ok c'"
  using assms(1)
proof cases
  case event_connecting
  with assms(2) show ?thesis by (simp add: client_ok_connecting)
next
  case (event_active x j ec d)
  then obtain t where t: "deliver A (client_session A R) j ec d (attach x (cl_world c)) = Inr t"
    and c': "c' = c\<lparr>active_session := Some (session.truncate t), cl_world := world t\<rparr>"
    by (auto simp: active_event_def bind_result_conv)
  have "client_any t"
    using assms(2) event_active(1) by (intro client_any_deliver [OF t]) (simp add: client_ok_def)
  with assms(2) show ?thesis by (simp add: c' client_ok_def)
next
  case (event_detached i j ec d)
  then obtain t where t: "deliver A (client_session A R) j ec d (attach (detached c ! i) (cl_world c)) = Inr t"
    and c': "c' = c\<lparr>detached := (if pending t = [] then take i (detached c) @ drop (Suc i) (detached c)
        else (detached c)[i := session.truncate t]), cl_world := world t\<rparr>"
    by (auto simp: detached_event_def bind_result_conv)
  have "client_any t"
    using assms(2) event_detached(1) by (intro client_any_deliver [OF t]) (simp add: client_ok_def list_all_length)
  with assms(2) show ?thesis
    by (auto simp: c' client_ok_def intro: list_all_drop_one list_all_update simp del: list_all_append)
qed

lemma client_step_ok:
  assumes "client_step A pf R c c'" and "client_ok c"
  shows "client_ok c'"
  using assms(1)
proof cases
  case step_event
  then show ?thesis using assms(2) by (rule client_event_ok)
next
  case step_connect
  with assms(2) show ?thesis by (simp add: connect_def client_ok_def)
next
  case step_disconnect
  with assms(2) show ?thesis
    by (auto simp: disconnect_def Let_def intro!: client_ok_set_active client_ok_call)
next
  case (step_send m b)
  with assms(2) show ?thesis
    by (auto simp: client_send_def intro!: client_ok_call client_any_send split: if_splits)
next
  case (step_send_file pf' path b)
  with assms(2) show ?thesis
    by (auto simp: send_file_def client_send_def Let_def bind_result_conv
        intro!: client_ok_call client_any_send split: if_splits)
next
  case step_world
  with assms(2) show ?thesis by simp
qed

lemma client_run_ok: "client_run A pf R c0 c \<Longrightarrow> client_ok c0 \<Longrightarrow> client_ok c"
  by (induction rule: client_run.induct) (auto intro: client_step_ok)

end
