(* ===== verification/Running.thy ===== *)
theory Running
  imports Application Client_Steps
begin

section \<open>The running program\<close>

text \<open>
  The program between its start and its end: the worker threads complete operations of the server, of
  its sessions, of the client and of the client's sessions, the files of the host change, and the console
  executes commands, in any order. The lemmas give what holds at every such moment, and what can end the
  program by an exception.
\<close>

subsection \<open>The moments of a run\<close>

text \<open>What the worker threads and the rest of the host do; \<open>pf\<close> and \<open>pw\<close> are function names in messages.\<close>

inductive app_event ::
  "'h host_scheme asio \<Rightarrow> string \<Rightarrow> string \<Rightarrow> 'h host_scheme app \<Rightarrow> 'h host_scheme app \<Rightarrow> bool"
  for A pf pw where
  run_accept: "0 < accepts (app_server a) \<Longrightarrow> accept_completed A ec sock (server_part a) = s \<Longrightarrow>
    app_event A pf pw a (a\<lparr>app_server := s, app_world := srv_world s\<rparr>)"
| run_session: "i < length (sessions (app_server a)) \<Longrightarrow> j < length (pending (sessions (app_server a) ! i)) \<Longrightarrow>
    admissible (pending (sessions (app_server a) ! i) ! j) ec d \<Longrightarrow>
    session_event A i j ec d (server_part a) = Inr s \<Longrightarrow>
    app_event A pf pw a (a\<lparr>app_server := s, app_world := srv_world s\<rparr>)"
| run_client: "client_event A pf (handle_response pw) (client_part a) c \<Longrightarrow>
    app_event A pf pw a (a\<lparr>app_client := c, app_world := cl_world c\<rparr>)"
| run_host: "app_event A pf pw a (a\<lparr>app_world := w\<rparr>)"

inductive moment ::
  "'h host_scheme asio \<Rightarrow> config \<Rightarrow> string \<Rightarrow> string \<Rightarrow> 'h host_scheme app \<Rightarrow> 'h host_scheme app \<Rightarrow> bool"
  for A C pf pw a0 where
  moment_start: "moment A C pf pw a0 a0"
| moment_event: "moment A C pf pw a0 a \<Longrightarrow> app_event A pf pw a b \<Longrightarrow> moment A C pf pw a0 b"
| moment_command: "moment A C pf pw a0 a \<Longrightarrow> read_line [] a = (input, a1) \<Longrightarrow> input \<noteq> ''quit'' \<Longrightarrow>
    exec_command A C input a1 = Inr b \<Longrightarrow> moment A C pf pw a0 b"

text \<open>
  After the loop the client has been disconnected and, once \<open>stopped\<close>, the server has been stopped; the
  threads go on until they are joined.
\<close>

inductive leaving ::
  "'h host_scheme asio \<Rightarrow> config \<Rightarrow> string \<Rightarrow> string \<Rightarrow> 'h host_scheme app \<Rightarrow> bool \<Rightarrow> 'h host_scheme app \<Rightarrow> bool"
  for A C pf pw a0 where
  leaving_quit: "moment A C pf pw a0 a \<Longrightarrow> read_line [] a = (''quit'', b) \<Longrightarrow>
    leaving A C pf pw a0 False (snd (on_client (\<lambda>c. ((), disconnect A c)) b))"
| leaving_event: "leaving A C pf pw a0 stopped a \<Longrightarrow> app_event A pf pw a b \<Longrightarrow> leaving A C pf pw a0 stopped b"
| leaving_stop: "leaving A C pf pw a0 False a \<Longrightarrow> last_stop A a = Inr b \<Longrightarrow> leaving A C pf pw a0 True b"

text \<open>The states of the loop and of the way out are such when the threads do only what is said above.\<close>

lemma moment_events: "(app_event A pf pw)\<^sup>*\<^sup>* a b \<Longrightarrow> moment A C pf pw a0 a \<Longrightarrow> moment A C pf pw a0 b"
  by (induction rule: rtranclp_induct) (auto intro: moment_event)

lemma loop_reaches_moment:
  assumes "loop_reaches A C background n a0 i a"
    and "\<And>j b b'. background j b = Inr b' \<Longrightarrow> (app_event A pf pw)\<^sup>*\<^sup>* b b'"
  shows "moment A C pf pw a0 a"
  using assms(1)
proof (induction rule: loop_reaches.induct)
  case (loop_goes_on i a b input a1 a2)
  have "moment A C pf pw a0 b" using assms(2) [OF loop_goes_on(2)] loop_goes_on.IH by (rule moment_events)
  then show ?case using loop_goes_on(3-5) by (rule moment_command)
qed (rule moment_start)

lemma finish_app_leaving:
  assumes "main_loop A C background 0 a0 = Some (Inr a)"
    and "\<And>j b b'. background j b = Inr b' \<Longrightarrow> (app_event A pf pw)\<^sup>*\<^sup>* b b'"
    and "background After_Disconnect (snd (on_client (\<lambda>c. ((), disconnect A c)) a)) = Inr b"
  shows "leaving A C pf pw a0 False b"
proof -
  from main_loop_ends [OF assms(1) loop_starts] obtain i c where
    reach: "loop_reaches A C background 0 a0 i c" and it: "iteration_ends A C background i c (Inr a)" by blast
  from it obtain c' where ends: "background (Before_Line i) c = Inr c'" "read_line [] c' = (''quit'', a)"
    by (auto simp: iteration_ends_def split: sum.splits prod.splits if_splits)
  have "moment A C pf pw a0 c'"
    by (rule moment_events [OF assms(2) [OF ends(1)] loop_reaches_moment [OF reach assms(2)]])
  from leaving_quit [OF this ends(2)] have "leaving A C pf pw a0 False (snd (on_client (\<lambda>c. ((), disconnect A c)) a))" .
  with assms(2) [OF assms(3)] show ?thesis by (induction rule: rtranclp_induct) (auto intro: leaving_event)
qed

subsection \<open>What holds at every moment\<close>

definition app_ok :: "'w app \<Rightarrow> bool" where
  "app_ok a \<longleftrightarrow> io_inv (app_io a) \<and> active (app_io a) \<and> srv_handler (app_server a) = handle_request \<and>
     list_all (session_ok (app_world a)) (sessions (app_server a)) \<and> client_ok (app_client a)"

lemma app_ok_server:
  assumes "app_ok a" and "server_run A (server_part a) s"
  shows "app_ok (a\<lparr>app_server := s, app_world := srv_world s\<rparr>)"
  using assms(1) server_run_sessions [OF assms(2)] server_run_handler [OF assms(2)]
  by (simp add: app_ok_def)

lemma app_ok_world:
  assumes "app_ok a"
  shows "app_ok (a\<lparr>app_world := w\<rparr>)"
proof -
  from assms have "list_all (session_ok w) (sessions (app_server a))"
    unfolding app_ok_def by (blast intro: list_all_session_ok_world)
  with assms show ?thesis by (simp add: app_ok_def)
qed

lemma app_ok_client:
  assumes "app_ok a" and "client_ok c"
  shows "app_ok (a\<lparr>app_client := c, app_world := w\<rparr>)"
  using app_ok_world [OF assms(1), of w] assms(2) by (simp add: app_ok_def)

lemma server_run_one: "server_step A s s' \<Longrightarrow> server_run A s s'"
  by (rule server_run_step [OF server_run_refl])

lemma app_event_ok:
  assumes "app_event A pf pw a b" and "app_ok a"
  shows "app_ok b"
  using assms(1)
proof cases
  case (run_accept ec sock s)
  have "server_step A (server_part a) (accept_completed A ec sock (server_part a))"
    using run_accept(2) by (intro step_accept) simp
  from app_ok_server [OF assms(2) server_run_one [OF this]] show ?thesis
    by (simp add: run_accept(1) flip: run_accept(3))
next
  case (run_session i j ec d s)
  have "server_step A (server_part a) s"
    using run_session(2-5) by (intro step_session [of i _ j ec d]) simp_all
  from app_ok_server [OF assms(2) server_run_one [OF this]] show ?thesis by (simp add: run_session(1))
next
  case (run_client c)
  have "client_ok (client_part a)" using assms(2) by (simp add: app_ok_def)
  with run_client(2) have "client_ok c" by (rule client_event_ok)
  with assms(2) show ?thesis by (simp add: run_client(1) app_ok_client)
next
  case run_host
  with assms(2) show ?thesis by (simp add: app_ok_world)
qed

text \<open>Commands act on the server and on the client by steps of theirs.\<close>

lemma app_ok_cong:
  assumes "app_ok a" and "app_io b = app_io a" and "app_server b = app_server a"
    and "app_client b = app_client a" and "app_world b = app_world a"
  shows "app_ok b"
  using assms by (simp add: app_ok_def)

lemma app_ok_say: "app_ok a \<Longrightarrow> app_ok (say l a)"
  by (rule app_ok_cong) (simp_all add: say_def)

lemma app_ok_read_line: "read_line x a = (l, a1) \<Longrightarrow> app_ok a \<Longrightarrow> app_ok a1"
  by (rule app_ok_cong [of a]) (auto simp: read_line_def split: prod.splits)

lemma app_ok_on_server:
  assumes "app_ok a" and "\<And>b s. f (server_part a) = (b, s) \<Longrightarrow> server_step A (server_part a) s"
  shows "app_ok (snd (on_server f a))"
  using assms by (auto simp: on_server_def intro!: app_ok_server server_run_one split: prod.splits)

lemma app_ok_try_server:
  assumes "try_server f a = Inr (b, a1)" and "app_ok a"
    and "\<And>b s. f (server_part a) = Inr (b, s) \<Longrightarrow> server_step A (server_part a) s"
  shows "app_ok a1"
  using assms by (auto simp: try_server_def bind_result_conv intro!: app_ok_server server_run_one)

lemma app_ok_client_step:
  assumes "app_ok a" and "client_step A pf R (client_part a) c"
  shows "app_ok (a\<lparr>app_client := c, app_world := w\<rparr>)"
proof -
  have "client_ok (client_part a)" using assms(1) by (simp add: app_ok_def)
  with assms(2) have "client_ok c" by (rule client_step_ok)
  with assms(1) show ?thesis by (rule app_ok_client)
qed

lemma app_ok_on_client:
  assumes "app_ok a" and "\<And>b c. f (client_part a) = (b, c) \<Longrightarrow> client_step A pf R (client_part a) c"
  shows "app_ok (snd (on_client f a))"
  using assms by (auto simp: on_client_def intro: app_ok_client_step split: prod.splits)

lemma app_ok_try_client:
  assumes "try_client f a = Inr (b, a1)" and "app_ok a"
    and "\<And>b c. f (client_part a) = Inr (b, c) \<Longrightarrow> client_step A pf R (client_part a) c"
  shows "app_ok a1"
  using assms by (auto simp: try_client_def bind_result_conv intro: app_ok_client_step)

lemma prompt_ok: "read_line x (say l a) = (y, a1) \<Longrightarrow> app_ok a \<Longrightarrow> app_ok a1"
  by (erule app_ok_read_line) (rule app_ok_say)

lemma server_calls_ok:
  "app_ok a \<Longrightarrow> app_ok (snd (on_server (\<lambda>s. ((), start_server A s)) a))"
  "app_ok a \<Longrightarrow> app_ok (snd (on_server (set_address A l) a))"
  "try_server (\<lambda>s. bind_result (stop_server A s) (\<lambda>s'. Inr ((), s'))) a = Inr (u, a1) \<Longrightarrow> app_ok a \<Longrightarrow> app_ok a1"
  "try_server (set_port A p) a = Inr (b, a1) \<Longrightarrow> app_ok a \<Longrightarrow> app_ok a1"
  by (erule app_ok_on_server app_ok_try_server, (assumption)?,
      auto simp: bind_result_conv intro: step_start step_address step_stop step_port)+

lemma client_calls_ok:
  fixes A :: "'h host_scheme asio"
  shows "app_ok a \<Longrightarrow> app_ok (snd (on_client (\<lambda>c. ((), connect host port c)) a))"
  "app_ok a \<Longrightarrow> app_ok (snd (on_client (\<lambda>c. ((), disconnect A c)) a))"
  "app_ok a \<Longrightarrow> app_ok (snd (on_client (client_send A m) a))"
  by (erule app_ok_on_client [where A = A and pf = "[]" and R = "\<lambda>_ w. w"],
      auto intro: step_connect step_disconnect step_send)+

lemma send_file_ok: "try_client (send_file A pf l) a = Inr (b, a1) \<Longrightarrow> app_ok a \<Longrightarrow> app_ok a1"
  by (erule app_ok_try_client [where A = A and pf = "[]" and R = "\<lambda>_ w. w"])
    (auto intro: step_send_file)

lemma exec_command_ok:
  assumes "exec_command A C input a = Inr b" and "app_ok a"
  shows "app_ok b"
  using assms unfolding exec_command_def
  by (auto simp: bind_result_conv app_ok_say server_calls_ok(1,2) client_calls_ok
      dest: prompt_ok server_calls_ok(3,4) send_file_ok split: if_splits prod.splits option.splits)

lemma moment_ok: "moment A C pf pw a0 a \<Longrightarrow> app_ok a0 \<Longrightarrow> app_ok a"
  by (induction rule: moment.induct) (auto intro: app_event_ok app_ok_read_line exec_command_ok)

lemma new_server_fields:
  "new_server A address port H cs w = Inr s \<Longrightarrow> sessions s = [] \<and> srv_handler s = H \<and> accepts s = 0"
  by (auto simp: new_server_def new_server_at_def split: prod.splits if_splits)

lemma open_app_ok: "open_app created hw input s = Inr a \<Longrightarrow> sessions s = [] \<Longrightarrow> srv_handler s = handle_request \<Longrightarrow> app_ok a"
  by (auto simp: app_ok_def client_ok_new dest!: open_app_Inr)

lemma last_stop_ok: "last_stop A a = Inr b \<Longrightarrow> app_ok a \<Longrightarrow> app_ok b"
  by (auto simp: last_stop_def bind_result_conv dest: server_calls_ok(3))

lemma leaving_ok: "leaving A C pf pw a0 stopped a \<Longrightarrow> app_ok a0 \<Longrightarrow> app_ok a"
  by (induction rule: leaving.induct)
    (auto intro: app_event_ok last_stop_ok client_calls_ok(2) app_ok_read_line moment_ok)

subsection \<open>What can end the program\<close>

text \<open>
  The happenings of a run that run code of the program which may throw, as one operation on the
  program: the completion of operation \<open>j\<close> of a session of the server, of the active session of the
  client or of one it let go, an iteration of the command loop, and the two stops that follow the loop.
\<close>

datatype happening =
    Session_Completes nat nat error_code bytes
  | Active_Completes nat error_code bytes
  | Detached_Completes nat nat error_code bytes
  | Command_Read
  | Last_Stop
  | Threads_Joined

fun possible :: "happening \<Rightarrow> 'w app \<Rightarrow> bool" where
  "possible (Session_Completes i j ec d) a \<longleftrightarrow> i < length (sessions (app_server a)) \<and>
     j < length (pending (sessions (app_server a) ! i)) \<and>
     admissible (pending (sessions (app_server a) ! i) ! j) ec d"
| "possible (Active_Completes j ec d) a \<longleftrightarrow> (case active_session (app_client a) of None \<Rightarrow> False
     | Some x \<Rightarrow> j < length (pending x) \<and> admissible (pending x ! j) ec d)"
| "possible (Detached_Completes i j ec d) a \<longleftrightarrow> i < length (detached (app_client a)) \<and>
     j < length (pending (detached (app_client a) ! i)) \<and>
     admissible (pending (detached (app_client a) ! i) ! j) ec d"
| "possible Command_Read a \<longleftrightarrow> True"
| "possible Last_Stop a \<longleftrightarrow> True"
| "possible Threads_Joined a \<longleftrightarrow> True"

fun happen ::
  "'h host_scheme asio \<Rightarrow> config \<Rightarrow> string \<Rightarrow> happening \<Rightarrow> 'h host_scheme app \<Rightarrow> 'h host_scheme app result"
where
  "happen A C pw (Session_Completes i j ec d) a =
     bind_result (session_event A i j ec d (server_part a)) (\<lambda>s. Inr (a\<lparr>app_server := s, app_world := srv_world s\<rparr>))"
| "happen A C pw (Active_Completes j ec d) a =
     bind_result (active_event A (handle_response pw) j ec d (client_part a))
       (\<lambda>c. Inr (a\<lparr>app_client := c, app_world := cl_world c\<rparr>))"
| "happen A C pw (Detached_Completes i j ec d) a =
     bind_result (detached_event A (handle_response pw) i j ec d (client_part a))
       (\<lambda>c. Inr (a\<lparr>app_client := c, app_world := cl_world c\<rparr>))"
| "happen A C pw Command_Read a =
     (case read_line [] a of (input, a1) \<Rightarrow> if input = ''quit'' then Inr a1 else exec_command A C input a1)"
| "happen A C pw Last_Stop a = last_stop A a"
| "happen A C pw Threads_Joined a = bind_result (io_stop (app_io a)) (\<lambda>io. Inr (a\<lparr>app_io := io\<rparr>))"

text \<open>A completion or a command that ends normally leads to a further moment of the run.\<close>

lemma happen_moment:
  assumes "moment A C pf pw a0 a" and "possible h a" and "happen A C pw h a = Inr b"
    and "h = Command_Read \<longrightarrow> fst (read_line [] a) \<noteq> ''quit''" and "h \<notin> {Last_Stop, Threads_Joined}"
  shows "moment A C pf pw a0 b"
proof (cases h)
  case (Session_Completes i j ec d)
  with assms(2,3) show ?thesis
    by (auto simp: bind_result_conv intro!: moment_event [OF assms(1)] run_session [of i _ j ec d])
next
  case (Active_Completes j ec d)
  with assms(2,3) show ?thesis
    by (auto simp: bind_result_conv split: option.splits
        intro!: moment_event [OF assms(1)] run_client event_active [of _ _ j ec d])
next
  case (Detached_Completes i j ec d)
  with assms(2,3) show ?thesis
    by (auto simp: bind_result_conv intro!: moment_event [OF assms(1)] run_client event_detached [of i _ j ec d])
next
  case Command_Read
  with assms(3,4) show ?thesis
    by (auto intro!: moment_command [OF assms(1)] split: prod.splits)
qed (use assms(5) in simp_all)

text \<open>The headers the receiving side faults on: their length field is blank or negative.\<close>

definition bad_length :: "bytes \<Rightarrow> cxx_fault \<Rightarrow> bool" where
  "bad_length h e \<longleftrightarrow> length h = 28 \<and>
     (list_all is_space (drop 18 h) \<and> e = Indeterminate_Value \<or> reads_negative (drop 18 h) \<and> e = Length_Error)"

lemma prepare_content_fault:
  assumes "prepare_content_buffer_read m = Inl e"
  shows "bad_length (header_buffer m) e"
proof (cases "length (header_buffer m) = 28")
  case True
  with assms show ?thesis by (simp add: bad_length_def prepare_content_read_Inl length_field_def)
next
  case False
  with assms show ?thesis
    by (simp add: prepare_content_buffer_read_def get_length_short clear_content_buffer_def vec_resize_def Let_def)
qed

lemma client_any_bad_length:
  assumes "deliver A (client_session A R) j ec d (attach x w) = Inl e" and "client_any x"
  shows "ec = Success \<and> (\<exists>n. pending x ! j = Op_Read_Header n) \<and>
    bad_length (overlay d (header_buffer (read_buffer x))) e"
  using client_any_fault [OF assms(1)] assms(2) by (auto dest: prepare_content_fault)

lemma happen_fault:
  assumes "app_ok a" and "possible h a" and "happen A C pw h a = Inl e"
  shows "case h of
      Session_Completes i j ec d \<Rightarrow>
        ec = Success \<and> pending (sessions (app_server a) ! i) = [Op_Read_Header 28] \<and> bad_length d e
    | Active_Completes j ec d \<Rightarrow> ec = Success \<and>
        (\<exists>x n. active_session (app_client a) = Some x \<and> pending x ! j = Op_Read_Header n \<and>
           bad_length (overlay d (header_buffer (read_buffer x))) e)
    | Detached_Completes i j ec d \<Rightarrow> ec = Success \<and>
        (let x = detached (app_client a) ! i
         in (\<exists>n. pending x ! j = Op_Read_Header n) \<and> bad_length (overlay d (header_buffer (read_buffer x))) e)
    | Command_Read \<Rightarrow> (case read_line [] a of (line, a1) \<Rightarrow> let x = fst (getline line (app_in a1)) in
        line = ''server_stop'' \<and> e = System_Error \<and>
          fst (acceptor_close A (srv_acceptor (app_server a)) (app_world a)) \<noteq> Success \<or>
        line = ''server_set_port'' \<and> lexical_cast_ushort C x = None \<and> e = Bad_Lexical_Cast \<or>
        line = ''server_set_port'' \<and> lexical_cast_ushort C x \<noteq> None \<and> \<not> is_listening A (server_part a) \<and>
          e = System_Error \<or>
        line = ''client_send_file'' \<and> e = Length_Error \<and>
          (\<exists>file. disk (app_world a) x = Some file \<and> vec_max_size < unat (end_position file)))
    | Last_Stop \<Rightarrow> e = System_Error \<and>
        fst (acceptor_close A (srv_acceptor (app_server a)) (app_world a)) \<noteq> Success
    | Threads_Joined \<Rightarrow> False"
proof (cases h)
  case (Session_Completes i j ec d)
  with assms(3) have f: "deliver A (server_session A (srv_handler (app_server a))) j ec d
      (attach (sessions (app_server a) ! i) (app_world a)) = Inl e"
    by (simp add: session_event_def bind_result_conv)
  have "server_inv (attach (sessions (app_server a) ! i) (app_world a))"
    using assms(1,2) Session_Completes by (simp add: app_ok_def session_ok_def list_all_length)
  from server_fault_header [OF f this] assms(2) Session_Completes show ?thesis
    by (auto dest: prepare_content_fault)
next
  case (Active_Completes j ec d)
  with assms obtain x where x: "active_session (app_client a) = Some x" "client_any x"
    and f: "deliver A (client_session A (handle_response pw)) j ec d (attach x (app_world a)) = Inl e"
    by (auto simp: active_event_def bind_result_conv app_ok_def client_ok_def split: option.splits)
  from client_any_bad_length [OF f x(2)] x(1) Active_Completes show ?thesis by auto
next
  case (Detached_Completes i j ec d)
  with assms have x: "client_any (detached (app_client a) ! i)"
    and f: "deliver A (client_session A (handle_response pw)) j ec d
      (attach (detached (app_client a) ! i) (app_world a)) = Inl e"
    by (auto simp: detached_event_def bind_result_conv app_ok_def client_ok_def list_all_length)
  from client_any_bad_length [OF f x] Detached_Completes show ?thesis by (simp add: Let_def)
next
  case Command_Read
  obtain line a1 where rd: "read_line [] a = (line, a1)" by force
  then have same: "app_server a1 = app_server a" "app_world a1 = app_world a"
    by (auto simp: read_line_def split: prod.splits)
  from assms(3) Command_Read rd have "exec_command A C line a1 = Inl e" by (auto split: if_splits)
  from exec_command_fault [OF this] Command_Read rd show ?thesis by (simp add: same)
next
  case Last_Stop
  with assms(3) show ?thesis by (simp add: last_stop_Inl)
next
  case Threads_Joined
  with assms(1,3) show ?thesis using io_stop_inv [of "app_io a"] by (auto simp: app_ok_def)
qed

end
