(* ===== verification/Serving.thy ===== *)
theory Serving
  imports Running Open_Network
begin

section \<open>The running program and the clients it serves\<close>

text \<open>
  The program of \<open>Running\<close> with clients elsewhere that come to its server as in \<open>Open_Network\<close>. Each has
  a host and a handler of its own. Beside their connections everything goes on that goes on in a run of the
  program: other peers, its own client, the files of its host and the commands of its console, some
  of which start, stop and reconfigure the server. The lemmas show that the program is at a moment of
  a run, and that the connection of each client is one of \<open>Flaky_Link\<close>.
\<close>

subsection \<open>The system\<close>

record ('v, 'h) serving =
  program :: "'h host_scheme app"
  guests :: "('v, 'h host_scheme) member option list"

text \<open>The program after one of its sessions, or none, has moved.\<close>

definition with_server :: "'w server_st \<Rightarrow> 'w app \<Rightarrow> 'w app" where
  "with_server s a = (if s = server_part a then a else a\<lparr>app_server := s, app_world := srv_world s\<rparr>)"

inductive serving_step ::
  "'h host_scheme asio \<Rightarrow> config \<Rightarrow> string \<Rightarrow> string \<Rightarrow> 'v asio \<Rightarrow> (nat \<Rightarrow> 'v response_handler) \<Rightarrow>
   ('v, 'h) serving \<Rightarrow> ('v, 'h) serving \<Rightarrow> bool"
  for A C pf pw G R where
  guest_comes: "program N = a \<Longrightarrow> 0 < accepts (app_server a) \<Longrightarrow> is_listening A (server_part a) \<Longrightarrow>
    accept_completed A Success sock (server_part a) = s \<Longrightarrow>
    serving_step A C pf pw G R N
      \<lparr>program = a\<lparr>app_server := s, app_world := srv_world s\<rparr>, guests = guests N @ [Some (new_member h v)]\<rparr>"
| guest_moves: "program N = a \<Longrightarrow> i < length (guests N) \<Longrightarrow> guests N ! i = Some p \<Longrightarrow>
    abrupt_step G (R i) A (srv_handler (app_server a)) (member_view (server_part a) i p) l \<Longrightarrow>
    serving_step A C pf pw G R N
      \<lparr>program = with_server (server_moved_to i (server_end (net l)) (server_part a)) a,
       guests = (guests N)[i := Some (member_moved (server_part a) i l p)]\<rparr>"
| program_event: "app_event A pf pw (program N) b \<Longrightarrow>
    leaves_members (guests N) (server_part (program N)) (server_part b) \<Longrightarrow>
    serving_step A C pf pw G R N \<lparr>program = b, guests = with_others (guests N) (server_part b)\<rparr>"
| program_command: "read_line [] (program N) = (input, a1) \<Longrightarrow> input \<noteq> ''quit'' \<Longrightarrow>
    exec_command A C input a1 = Inr b \<Longrightarrow> serving_step A C pf pw G R N (N\<lparr>program := b\<rparr>)"

inductive serving_run ::
  "'h host_scheme asio \<Rightarrow> config \<Rightarrow> string \<Rightarrow> string \<Rightarrow> 'v asio \<Rightarrow> (nat \<Rightarrow> 'v response_handler) \<Rightarrow>
   'h host_scheme app \<Rightarrow> ('v, 'h) serving \<Rightarrow> bool"
  for A C pf pw G R a0 where
  serving_refl: "serving_run A C pf pw G R a0 \<lparr>program = a0, guests = []\<rparr>"
| serving_next: "serving_run A C pf pw G R a0 N \<Longrightarrow> serving_step A C pf pw G R N N' \<Longrightarrow>
    serving_run A C pf pw G R a0 N'"

subsection \<open>What leaves the connections alone\<close>

text \<open>The commands of the console do not touch the sessions of the server.\<close>

lemma on_server_sessions:
  assumes "\<And>s b t. f s = (b, t) \<Longrightarrow> sessions t = sessions s"
  shows "sessions (app_server (snd (on_server f a))) = sessions (app_server a)"
  using assms by (auto simp: on_server_def split: prod.splits)

lemma try_server_sessions:
  assumes "try_server f a = Inr (u, b)" and "\<And>s v t. f s = Inr (v, t) \<Longrightarrow> sessions t = sessions s"
  shows "sessions (app_server b) = sessions (app_server a)"
  using assms(1) by (auto simp: try_server_def bind_result_conv dest: assms(2))

lemma client_calls_sessions [simp]: "app_server (snd (on_client f a)) = app_server a"
  "app_server (say l a) = app_server a"
  by (simp_all add: on_client_def say_def split: prod.splits)

lemma try_client_sessions: "try_client f a = Inr (u, b) \<Longrightarrow> app_server b = app_server a"
  by (auto simp: try_client_def bind_result_conv)

lemma read_line_server: "read_line x a = (l, b) \<Longrightarrow> app_server b = app_server a"
  by (auto simp: read_line_def split: prod.splits)

lemma exec_command_sessions:
  assumes "exec_command A C input a = Inr b"
  shows "sessions (app_server b) = sessions (app_server a)"
proof -
  have calls: "sessions (app_server (snd (on_server (\<lambda>s. ((), start_server A s)) c))) = sessions (app_server c)"
    "sessions (app_server (snd (on_server (set_address A l) c))) = sessions (app_server c)" for l c
    by (rule on_server_sessions; auto dest: setters_keep_sessions)+
  have throws: "try_server (\<lambda>s. bind_result (stop_server A s) (\<lambda>s'. Inr ((), s'))) c = Inr (u, d) \<Longrightarrow>
      sessions (app_server d) = sessions (app_server c)"
    "try_server (set_port A p) c = Inr (v, d) \<Longrightarrow> sessions (app_server d) = sessions (app_server c)" for p c d u v
    by (erule try_server_sessions; auto simp: bind_result_conv dest: stop_server_fields setters_keep_sessions)+
  show ?thesis
    using assms unfolding exec_command_def
    by (auto simp: bind_result_conv calls dest!: read_line_server throws try_client_sessions
        split: if_splits prod.splits option.splits)
qed

text \<open>What the threads do leaves all connections alone but those of the sessions an operation of which completes.\<close>

lemma app_event_leaves:
  assumes "app_event A pf pw a b" and "length ms = length (sessions (app_server a))"
  shows "leaves_members ms (server_part a) (server_part b) \<or>
    (\<exists>i j ec d s p. ms ! i = Some p \<and> session_event A i j ec d (server_part a) = Inr s \<and> server_part b = s)"
  using assms(1)
proof cases
  case (run_session i j ec d s)
  show ?thesis
  proof (cases "ms ! i")
    case None
    with run_session assms(2) show ?thesis
      by (auto simp: leaves_members_def nth_list_update elim!: session_event_Inr)
  next
    case (Some p)
    with run_session(5) have "ms ! i = Some p \<and> session_event A i j ec d (server_part a) = Inr s \<and> server_part b = s"
      by (simp add: run_session(1))
    then show ?thesis by blast
  qed
qed (use assms(2) in \<open>auto simp: leaves_members_def accept_completed_fields nth_append\<close>)

subsection \<open>The program is at a moment of a run\<close>

lemma guest_moves_moment:
  assumes "moment A C pf pw a0 a" and "i < length (sessions (app_server a))"
    and "abrupt_step G V A (srv_handler (app_server a)) (member_view (server_part a) i p) l"
  shows "moment A C pf pw a0 (with_server (server_moved_to i (server_end (net l)) (server_part a)) a)"
proof -
  let ?t = "server_end (net (member_view (server_part a) i p))" and ?s = "server_moved_to i (server_end (net l)) (server_part a)"
  have t: "?t = attach (sessions (app_server a) ! i) (app_world a)" by (simp add: member_view_def)
  from abrupt_step_server [OF assms(3)] show ?thesis
  proof (elim disjE exE conjE)
    assume "server_end (net l) = ?t"
    then have "?s = server_part a" by (simp add: server_moved_to_def t)
    with assms(1) show ?thesis by (simp add: with_server_def)
  next
    fix x ec d assume x: "pending ?t = [x]" "admissible x ec d"
      and step: "deliver A (server_session A (srv_handler (app_server a))) 0 ec d ?t = Inr (server_end (net l))"
    have "session_event A i 0 ec d (server_part a) = Inr ?s"
      using step by (simp add: session_event_def server_moved_to_def t)
    then have "app_event A pf pw a (a\<lparr>app_server := ?s, app_world := srv_world ?s\<rparr>)"
      using assms(2) x by (intro run_session [of i _ 0 ec d]) (simp_all add: t)
    with assms(1) show ?thesis unfolding with_server_def by (auto intro: moment_event)
  qed
qed

lemma server_part_with [simp]: "server_part (with_server s a) = s"
  by (simp add: with_server_def)

subsection \<open>The connections of the clients\<close>

definition serving_ok ::
  "'h host_scheme asio \<Rightarrow> config \<Rightarrow> string \<Rightarrow> string \<Rightarrow> 'v asio \<Rightarrow> (nat \<Rightarrow> 'v response_handler) \<Rightarrow>
   'h host_scheme app \<Rightarrow> ('v, 'h) serving \<Rightarrow> bool"
where
  "serving_ok A C pf pw G R a0 N \<longleftrightarrow> moment A C pf pw a0 (program N) \<and>
     members_ok G R A handle_request (server_part (program N)) (guests N)"

lemma members_program_ok:
  assumes "app_ok a" and "app_ok b" and "members_ok G R A handle_request (server_part a) ms"
    and "leaves_members ms (server_part a) (server_part b)"
  shows "members_ok G R A handle_request (server_part b) (with_others ms (server_part b))"
  using assms(1,2) by (intro members_rest_ok [OF assms(3,4)]) (simp add: app_ok_def)

lemma members_same_ok:
  assumes "members_ok G R A H s ms" and "sessions t = sessions s" and "srv_handler t = H"
  shows "members_ok G R A H t ms"
  using assms by (auto simp: members_ok_def intro: member_ok_other [of _ _ _ _ s])

lemma serving_step_ok:
  assumes "serving_step A C pf pw G R N N'" and ok: "serving_ok A C pf pw G R a0 N" and a0: "app_ok a0"
  shows "serving_ok A C pf pw G R a0 N'"
proof -
  have m: "moment A C pf pw a0 (program N)" and ms: "members_ok G R A handle_request (server_part (program N)) (guests N)"
    using ok by (simp_all add: serving_ok_def)
  have H: "srv_handler (app_server (program N)) = handle_request" using moment_ok [OF m a0] by (simp add: app_ok_def)
  note leave = members_program_ok [OF moment_ok [OF m a0] _ ms]
  from assms(1) show ?thesis
  proof cases
    case (guest_comes a sock s h v)
    note m = m [unfolded guest_comes(2)] and ms = ms [unfolded guest_comes(2)]
    have "moment A C pf pw a0 (a\<lparr>app_server := s, app_world := srv_world s\<rparr>)"
      using m run_accept [OF guest_comes(3,5)] by (rule moment_event)
    moreover have "members_ok G R A handle_request s (guests N @ [Some (new_member h v)])"
      unfolding guest_comes(5) [symmetric] by (rule member_comes_ok [OF ms guest_comes(4)])
    ultimately show ?thesis by (simp add: serving_ok_def guest_comes(1))
  next
    case (guest_moves a i p l)
    note m = m [unfolded guest_moves(2)] and ms = ms [unfolded guest_moves(2)] and H = H [unfolded guest_moves(2)]
    have "i < length (sessions (app_server a))" using ms guest_moves(3) by (simp add: members_ok_def)
    with m have "moment A C pf pw a0 (with_server (server_moved_to i (server_end (net l)) (server_part a)) a)"
      using guest_moves(5) by (rule guest_moves_moment)
    moreover have "members_ok G R A handle_request (server_moved_to i (server_end (net l)) (server_part a))
        ((guests N)[i := Some (member_moved (server_part a) i l p)])"
      using member_moves_ok [OF ms guest_moves(3,4)] guest_moves(5) H by simp
    ultimately show ?thesis by (simp only: serving_ok_def guest_moves(1) serving.simps server_part_with)
  next
    case (program_event b)
    have "moment A C pf pw a0 b" using m program_event(2) by (rule moment_event)
    with leave [OF moment_ok [OF this a0] program_event(3)] show ?thesis
      by (simp add: serving_ok_def program_event(1))
  next
    case (program_command input a1 b)
    have "moment A C pf pw a0 b" using m program_command(2-4) by (rule moment_command)
    moreover have "members_ok G R A handle_request (server_part b) (guests N)"
      using members_same_ok [OF ms] exec_command_sessions [OF program_command(4)] read_line_server [OF program_command(2)]
        moment_ok [OF \<open>moment A C pf pw a0 b\<close> a0]
      by (simp add: app_ok_def)
    ultimately show ?thesis by (simp add: serving_ok_def program_command(1))
  qed
qed

lemma serving_run_ok:
  assumes "serving_run A C pf pw G R a0 N" and "app_ok a0" and "sessions (app_server a0) = []"
  shows "serving_ok A C pf pw G R a0 N"
  using assms(1)
proof (induction rule: serving_run.induct)
  case serving_refl
  from assms(2,3) show ?case by (simp add: serving_ok_def members_ok_def moment_start app_ok_def)
next
  case (serving_next N N')
  from serving_step_ok [OF serving_next.hyps(2) serving_next.IH assms(2)] show ?case .
qed

subsection \<open>Every run of the program, and every connection\<close>

lemma app_event_more_sessions:
  assumes "app_event A pf pw a b"
  shows "length (sessions (app_server a)) \<le> length (sessions (app_server b))"
  using assms by cases (auto simp: accept_completed_fields elim!: session_event_Inr)

text \<open>A run of the program is one with no clients that are modelled.\<close>

lemma moment_serves:
  fixes G :: "'v asio" and A :: "'h host_scheme asio"
  assumes "moment A C pf pw a0 a" and "sessions (app_server a0) = []"
  shows "serving_run A C pf pw G R a0 \<lparr>program = a, guests = replicate (length (sessions (app_server a))) None\<rparr>"
  using assms(1)
proof (induction rule: moment.induct)
  case moment_start
  from assms(2) show ?case by (simp add: serving_refl)
next
  case (moment_event a b)
  let ?ms = "replicate (length (sessions (app_server a))) None :: ('v, 'h host_scheme) member option list"
  have more: "length (sessions (app_server a)) \<le> length (sessions (app_server b))"
    using moment_event.hyps(2) by (rule app_event_more_sessions)
  then have "leaves_members ?ms (server_part a) (server_part b)" by (simp add: leaves_members_def)
  with moment_event.hyps(2) have
    "serving_step A C pf pw G R \<lparr>program = a, guests = ?ms\<rparr> \<lparr>program = b, guests = with_others ?ms (server_part b)\<rparr>"
    using program_event [of A pf pw "\<lparr>program = a, guests = ?ms\<rparr>"] by simp
  moreover have "with_others ?ms (server_part b) = replicate (length (sessions (app_server b))) None"
    using more by (simp add: with_others_def flip: replicate_add)
  ultimately show ?case using serving_next [OF moment_event.IH] by simp
next
  case (moment_command a input a1 b)
  have "sessions (app_server b) = sessions (app_server a)"
    using exec_command_sessions [OF moment_command.hyps(4)] read_line_server [OF moment_command.hyps(2)] by simp
  with serving_next [OF moment_command.IH program_command [OF _ moment_command.hyps(3,4)]] moment_command.hyps(2)
  show ?case by simp
qed

text \<open>A client can do whatever a failing connection can, while the others stay as they are.\<close>

definition guest_moved ::
  "('v, 'h) serving \<Rightarrow> nat \<Rightarrow> ('v, 'h host_scheme) member \<Rightarrow> ('v, 'h host_scheme) lossy \<Rightarrow> ('v, 'h) serving"
where
  "guest_moved N i p l =
     \<lparr>program = with_server (server_moved_to i (server_end (net l)) (server_part (program N))) (program N),
      guests = (guests N)[i := Some (member_moved (server_part (program N)) i l p)]\<rparr>"

text \<open>\<open>guest_at N i p l\<close>: client \<open>i\<close> is \<open>p\<close>, and \<open>l\<close> is its connection.\<close>

definition guest_at ::
  "('v, 'h) serving \<Rightarrow> nat \<Rightarrow> ('v, 'h host_scheme) member \<Rightarrow> ('v, 'h host_scheme) lossy \<Rightarrow> bool"
where
  "guest_at N i p l \<longleftrightarrow>
     i < length (guests N) \<and> guests N ! i = Some p \<and> member_view (server_part (program N)) i p = l"

lemma guest_step:
  assumes "serving_ok A C pf pw G R a0 N" and a0: "app_ok a0" and at: "guest_at N i p l"
    and step: "abrupt_step G (R i) A handle_request l k"
  shows "serving_step A C pf pw G R N (guest_moved N i p k) \<and>
    guest_at (guest_moved N i p k) i (member_moved (server_part (program N)) i k p) k"
proof -
  have H: "srv_handler (app_server (program N)) = handle_request"
    and n: "i < length (sessions (server_part (program N)))"
    using assms(1) at by (simp_all add: serving_ok_def members_ok_def guest_at_def)
  have "abrupt_step G (R i) A (srv_handler (app_server (program N))) (member_view (server_part (program N)) i p) k"
    using step at H by (simp add: guest_at_def)
  with at have "serving_step A C pf pw G R N (guest_moved N i p k)"
    unfolding guest_moved_def guest_at_def by (intro guest_moves) simp_all
  moreover have "member_view (server_part (program (guest_moved N i p k))) i (member_moved (server_part (program N)) i k p) = k"
    unfolding guest_moved_def using member_view_moved [OF n] by (simp only: serving.simps server_part_with)
  ultimately show ?thesis using at by (simp add: guest_at_def) (simp add: guest_moved_def)
qed

lemma guest_does:
  assumes "abrupt_run G (R i) A handle_request l0 l" and "serving_run A C pf pw G R a0 N0"
    and "app_ok a0" and "sessions (app_server a0) = []" and "guest_at N0 i p0 l0"
  shows "\<exists>N p. serving_run A C pf pw G R a0 N \<and> guest_at N i p l \<and> came_in p = came_in p0"
  using assms(1,5)
proof (induction rule: abrupt_run.induct)
  case (abrupt_refl l0)
  with assms(2) show ?case by blast
next
  case (abrupt_next l0 l k)
  then obtain N p where N: "serving_run A C pf pw G R a0 N" "guest_at N i p l" "came_in p = came_in p0" by blast
  from guest_step [OF serving_run_ok [OF N(1) assms(3,4)] assms(3) N(2) abrupt_next.hyps(2)]
  have "serving_run A C pf pw G R a0 (guest_moved N i p k)"
    "guest_at (guest_moved N i p k) i (member_moved (server_part (program N)) i k p) k"
    using serving_next [OF N(1)] by blast+
  moreover have "came_in (member_moved (server_part (program N)) i k p) = came_in p0"
    using N(3) by (simp add: member_moved_def)
  ultimately show ?case by blast
qed

text \<open>A step of the program that is nothing but a successful completion at an end of the connection of client \<open>i\<close>.\<close>

inductive guest_completes ::
  "'h host_scheme asio \<Rightarrow> 'v asio \<Rightarrow> (nat \<Rightarrow> 'v response_handler) \<Rightarrow> nat \<Rightarrow>
   ('v, 'h) serving \<Rightarrow> ('v, 'h) serving \<Rightarrow> bool"
  for A G R i where
  guest_completion: "guest_at N i p l \<Longrightarrow> completes G (R i) A (srv_handler (app_server (program N))) l k \<Longrightarrow>
    guest_completes A G R i N (guest_moved N i p k)"

lemma guest_completes_step:
  assumes "guest_completes A G R i N N'" and "serving_ok A C pf pw G R a0 N" and "app_ok a0"
  shows "serving_step A C pf pw G R N N'"
  using assms(1)
proof cases
  case (guest_completion p l k)
  have "srv_handler (app_server (program N)) = handle_request"
    using assms(2) by (simp add: serving_ok_def members_ok_def)
  with guest_completion(3) have "abrupt_step G (R i) A handle_request l k" by (simp add: completes_abrupt)
  from guest_step [OF assms(2,3) guest_completion(2) this] show ?thesis by (simp add: guest_completion(1))
qed

lemma guest_can_complete:
  assumes "(completes G (R i) A handle_request)\<^sup>*\<^sup>* l0 l" and "serving_run A C pf pw G R a0 N0"
    and "app_ok a0" and "sessions (app_server a0) = []" and at: "guest_at N0 i p0 l0"
  shows "\<exists>N p. (guest_completes A G R i)\<^sup>*\<^sup>* N0 N \<and> serving_run A C pf pw G R a0 N \<and> guest_at N i p l \<and>
    guests N = (guests N0)[i := Some p] \<and> came_in p = came_in p0"
  using assms(1)
proof (induction rule: rtranclp_induct)
  case base
  have "guests N0 = (guests N0)[i := Some p0]" using at list_update_id [of "guests N0" i] by (simp add: guest_at_def)
  with at assms(2) show ?case by blast
next
  case (step l k)
  then obtain N p where steps: "(guest_completes A G R i)\<^sup>*\<^sup>* N0 N" and N: "serving_run A C pf pw G R a0 N"
    and p: "guest_at N i p l" "guests N = (guests N0)[i := Some p]" "came_in p = came_in p0" by blast
  note ok = serving_run_ok [OF N assms(3,4)]
  then have "srv_handler (app_server (program N)) = handle_request" by (simp add: serving_ok_def members_ok_def)
  with step.hyps(2) have "guest_completes A G R i N (guest_moved N i p k)"
    by (intro guest_completion [OF p(1)]) simp
  moreover from this have "serving_run A C pf pw G R a0 (guest_moved N i p k)"
    using guest_completes_step [OF _ ok assms(3)] serving_next [OF N] by blast
  moreover have "guest_at (guest_moved N i p k) i (member_moved (server_part (program N)) i k p) k"
    using guest_step [OF ok assms(3) p(1) completes_abrupt [OF step.hyps(2)]] by blast
  moreover have "guests (guest_moved N i p k) = (guests N0)[i := Some (member_moved (server_part (program N)) i k p)]"
    by (simp add: guest_moved_def p(2))
  ultimately show ?case
    using rtranclp.rtrancl_into_rtrancl [OF steps] p(3)
    by (intro exI [of _ "guest_moved N i p k"] exI [of _ "member_moved (server_part (program N)) i k p"])
      (simp add: member_moved_def)
qed

end
