(* ===== verification/Configuration.thy ===== *)
theory Configuration
  imports Application
begin

section \<open>Command line, configuration file and TLS contexts\<close>

text \<open>
  \<open>secure_data.hpp\<close> and the first half of the \<open>main\<close> function of \<open>src/main.cpp\<close>: the program options,
  the configuration file, the two TLS contexts, and the order in which all this precedes the objects
  of \<open>Application\<close>. Boost.Program_options, Boost.Property_tree, OpenSSL and the creation of threads by the
  system are the fields of a record the definitions take; every call that may throw returns a result.
\<close>

subsection \<open>Secure data\<close>

record secure_data =
  certificate_file :: string
  certificate_chain_file :: string
  temp_diffie_hellman_parameters_file :: string
  rsa_private_key_file :: string
  rsa_private_key_passphrase :: string

definition new_secure_data :: "string \<Rightarrow> string \<Rightarrow> string \<Rightarrow> string \<Rightarrow> string \<Rightarrow> secure_data" where
  "new_secure_data certificate chain diffie_hellman private_key passphrase =
     \<lparr>certificate_file = certificate, certificate_chain_file = chain,
      temp_diffie_hellman_parameters_file = diffie_hellman, rsa_private_key_file = private_key,
      rsa_private_key_passphrase = passphrase\<rparr>"

text \<open>The callback captures \<open>this\<close>, so it returns the passphrase the object has when it is called.\<close>

definition passphrase_callback :: "secure_data \<Rightarrow> string" where
  "passphrase_callback d = rsa_private_key_passphrase d"

subsection \<open>The TLS contexts\<close>

datatype context_option =
    Default_Workarounds | No_Tlsv1 | No_Tlsv1_1 | No_Sslv2 | No_Sslv3 | Single_Dh_Use

datatype context_call =
    Construct_Tlsv12
  | Set_Options "context_option list"
  | Set_Password string
  | Use_Certificate_Chain_File string
  | Use_Certificate_File string
  | Use_Rsa_Private_Key_File string
  | Use_Tmp_Dh_File string
  | Set_Verify_None

definition server_context_calls :: "secure_data \<Rightarrow> context_call list" where
  "server_context_calls d =
     [Set_Options [Default_Workarounds, No_Tlsv1, No_Tlsv1_1, No_Sslv2, No_Sslv3, Single_Dh_Use]] @
     (if rsa_private_key_passphrase d \<noteq> [] then [Set_Password (passphrase_callback d)] else []) @
     [Use_Certificate_Chain_File (certificate_chain_file d),
      Use_Certificate_File (certificate_file d),
      Use_Rsa_Private_Key_File (rsa_private_key_file d),
      Use_Tmp_Dh_File (temp_diffie_hellman_parameters_file d)]"

definition client_context_calls :: "context_call list" where
  "client_context_calls = [Construct_Tlsv12, Set_Verify_None]"

subsection \<open>The libraries\<close>

text \<open>
  An option has its long and short name in one string, a semantic and a description. The map of the
  options is from long names to the text of their values; \<open>notify_options\<close> returns what it stores in
  \<open>config_path\<close>. \<open>thread_created i\<close> is whether the system creates worker number \<open>i\<close>. The type \<open>'o\<close> stands for parsed options, \<open>'t\<close> for property trees.
\<close>

datatype option_semantic = Untyped | Required_String

record option_description =
  option_name :: string
  semantic :: option_semantic
  description :: string

record ('o, 't, 'w) libraries =
  parse_command_line :: "option_description list \<Rightarrow> string list \<Rightarrow> 'o result"
  store_options :: "'o \<Rightarrow> (string \<rightharpoonup> string) result"
  notify_options :: "option_description list \<Rightarrow> (string \<rightharpoonup> string) \<Rightarrow> string result"
  read_xml :: "string \<Rightarrow> 'w \<Rightarrow> 't result"
  get_child :: "string \<Rightarrow> 't \<Rightarrow> 't result"
  get_string :: "string \<Rightarrow> 't \<Rightarrow> string result"
  get_ushort :: "string \<Rightarrow> 't \<Rightarrow> 16 word result"
  context_call :: "context_call \<Rightarrow> 'w \<Rightarrow> unit result"
  thread_created :: "nat \<Rightarrow> bool"
  read_file_name :: string
  cast_ushort :: "string \<Rightarrow> 16 word option"

definition long_name :: "option_description \<Rightarrow> string" where
  "long_name d = takeWhile (\<lambda>c. c \<noteq> CHR '','') (option_name d)"

text \<open>
  What the documentation says of \<open>notify\<close>: it throws when an option that is \<open>required()\<close> does not
  occur.
\<close>

definition notify_checks_required :: "('o, 't, 'w) libraries \<Rightarrow> bool" where
  "notify_checks_required L \<longleftrightarrow>
     (\<forall>ds vm. list_ex (\<lambda>d. semantic d = Required_String \<and> vm (long_name d) = None) ds \<longrightarrow>
        (\<exists>e. notify_options L ds vm = Inl e))"

text \<open>The settings of \<open>example/config.xml\<close> below its element \<open>Config\<close>, by their full names.\<close>

definition example_config :: "(string \<times> string) list" where
  "example_config =
     [(''Server.listen_address'', ''127.0.0.1''), (''Server.listen_port'', ''54321''),
      (''Server.certificate_chain_file'', ''secure/certificate-chain.cert.pem''),
      (''Server.certificate_file'', ''secure/certificate.cert.pem''),
      (''Server.rsa_private_key_file'', ''secure/private.key.pem''),
      (''Server.rsa_private_key_password'', ''default_password''),
      (''Server.diffie_hellman_parameter_file'', ''secure/dh2048.pem'')]"

subsection \<open>The start of the program\<close>

definition program_options :: "option_description list" where
  "program_options =
     [\<lparr>option_name = ''help,h'', semantic = Untyped, description = ''Prints this help message''\<rparr>,
      \<lparr>option_name = ''config,c'', semantic = Required_String,
       description = ''Specifies a configuration file. See the provided example: \"config.xml\"''\<rparr>]"

definition help_output :: "(string \<rightharpoonup> string) \<Rightarrow> output_line list" where
  "help_output vm =
     (if vm ''help'' \<noteq> None then [(Std_Out, ''This prints a help message!'' @ [newline])] else [])"

text \<open>The lines printed while the options are read, and the path of the configuration file.\<close>

definition read_arguments ::
  "('o, 't, 'w) libraries \<Rightarrow> string list \<Rightarrow> output_line list \<times> string result"
where
  "read_arguments L argv =
     (case bind_result (parse_command_line L program_options argv) (store_options L) of
        Inl e \<Rightarrow> ([], Inl e)
      | Inr vm \<Rightarrow> (help_output vm, notify_options L program_options vm))"

definition read_config :: "('o, 't, 'w) libraries \<Rightarrow> string \<Rightarrow> 'w \<Rightarrow> 't result" where
  "read_config L config_path w = bind_result (read_xml L config_path w) (get_child L ''Config'')"

text \<open>
  The arguments of a call are evaluated in an order C++ leaves open; they only read the tree, so the
  order decides nothing but which of several exceptions is thrown.
\<close>

definition load_secure_data :: "('o, 't, 'w) libraries \<Rightarrow> 't \<Rightarrow> secure_data result" where
  "load_secure_data L cfg =
     bind_result (get_string L ''Server.certificate_file'' cfg) (\<lambda>certificate.
     bind_result (get_string L ''Server.certificate_chain_file'' cfg) (\<lambda>chain.
     bind_result (get_string L ''Server.diffie_hellman_parameter_file'' cfg) (\<lambda>diffie_hellman.
     bind_result (get_string L ''Server.rsa_private_key_file'' cfg) (\<lambda>private_key.
     bind_result (get_string L ''Server.rsa_private_key_password'' cfg) (\<lambda>passphrase.
     Inr (new_secure_data certificate chain diffie_hellman private_key passphrase))))))"

fun run_context_calls ::
  "('o, 't, 'w) libraries \<Rightarrow> context_call list \<Rightarrow> 'w \<Rightarrow> unit result"
where
  "run_context_calls L [] w = Inr ()"
| "run_context_calls L (c # cs) w = bind_result (context_call L c w) (\<lambda>_. run_context_calls L cs w)"

definition load_settings ::
  "('o, 't, 'w) libraries \<Rightarrow> 't \<Rightarrow> 'w \<Rightarrow> (string \<times> 16 word) result"
where
  "load_settings L cfg w =
     bind_result (get_string L ''Server.listen_address'' cfg) (\<lambda>address.
     bind_result (get_ushort L ''Server.listen_port'' cfg) (\<lambda>port.
     bind_result (context_call L Construct_Tlsv12 w) (\<lambda>_.
     bind_result (load_secure_data L cfg) (\<lambda>ssl_data.
     bind_result (run_context_calls L (server_context_calls ssl_data) w) (\<lambda>_.
     Inr (address, port))))))"

definition program_config :: "('o, 't, 'w) libraries \<Rightarrow> string \<Rightarrow> 16 word \<Rightarrow> config" where
  "program_config L address port =
     \<lparr>listen_address = address, listen_port = port, pretty_read_file = read_file_name L,
      lexical_cast_ushort = cast_ushort L\<rparr>"

text \<open>Everything before the command loop: what was printed, and the exception or the started program.\<close>

definition launch ::
  "('o, 't, 'h host_scheme) libraries \<Rightarrow> 'h host_scheme asio \<Rightarrow> string list \<Rightarrow> 32 word \<Rightarrow> string \<Rightarrow>
   'h host_scheme \<Rightarrow> output_line list \<times> (config \<times> 'h host_scheme app) result"
where
  "launch L A argv hardware_concurrency input w =
     (case read_arguments L argv of (out, r) \<Rightarrow>
        (out,
         bind_result r (\<lambda>config_path.
         bind_result (read_config L config_path w) (\<lambda>cfg.
         bind_result (load_settings L cfg w) (\<lambda>(address, port).
         bind_result (new_server A address port handle_request default_cipher_suite w) (\<lambda>s.
         bind_result (run_context_calls L client_context_calls (srv_world s)) (\<lambda>_.
         bind_result (open_app (thread_created L) hardware_concurrency input s) (\<lambda>a.
         Inr (program_config L address port, a\<lparr>app_out := out\<rparr>)))))))))"

text \<open>The whole function: what was printed before the loop, and how it ends, if it does.\<close>

definition main_function ::
  "('o, 't, 'h host_scheme) libraries \<Rightarrow> 'h host_scheme asio \<Rightarrow> string list \<Rightarrow> 32 word \<Rightarrow>
   'h host_scheme threads \<Rightarrow> string \<Rightarrow> 'h host_scheme \<Rightarrow>
   output_line list \<times> 'h host_scheme app result option"
where
  "main_function L A argv hardware_concurrency background input w =
     (case launch L A argv hardware_concurrency input w of
        (out, Inl e) \<Rightarrow> (out, Some (Inl e))
      | (out, Inr (C, a)) \<Rightarrow> (out, run_app A C background a))"

subsection \<open>Facts\<close>

lemma run_context_calls_Inr:
  "run_context_calls L cs w = Inr u \<longleftrightarrow> (\<forall>c\<in>set cs. context_call L c w = Inr ())"
  by (induction cs) (auto simp: bind_result_conv)

lemma load_secure_data_Inr:
  "load_secure_data L cfg = Inr d \<longleftrightarrow>
     get_string L ''Server.certificate_file'' cfg = Inr (certificate_file d) \<and>
     get_string L ''Server.certificate_chain_file'' cfg = Inr (certificate_chain_file d) \<and>
     get_string L ''Server.diffie_hellman_parameter_file'' cfg = Inr (temp_diffie_hellman_parameters_file d) \<and>
     get_string L ''Server.rsa_private_key_file'' cfg = Inr (rsa_private_key_file d) \<and>
     get_string L ''Server.rsa_private_key_password'' cfg = Inr (rsa_private_key_passphrase d)"
  by (cases d) (auto simp: load_secure_data_def new_secure_data_def bind_result_conv)

lemma load_settings_Inr:
  "load_settings L cfg w = Inr (address, port) \<longleftrightarrow>
     get_string L ''Server.listen_address'' cfg = Inr address \<and>
     get_ushort L ''Server.listen_port'' cfg = Inr port \<and>
     (\<exists>d. load_secure_data L cfg = Inr d \<and>
       (\<forall>c\<in>set (Construct_Tlsv12 # server_context_calls d). context_call L c w = Inr ()))"
  unfolding load_settings_def by (simp add: bind_result_conv run_context_calls_Inr) blast

lemma read_arguments_Inr:
  "read_arguments L argv = (out, Inr config_path) \<longleftrightarrow>
     (\<exists>o' vm. parse_command_line L program_options argv = Inr o' \<and> store_options L o' = Inr vm \<and>
       notify_options L program_options vm = Inr config_path \<and> out = help_output vm)"
  by (auto simp: read_arguments_def bind_result_conv split: sum.splits)

lemma long_names: "map long_name program_options = [''help'', ''config'']"
  by (simp add: program_options_def long_name_def)

lemma notify_without_config:
  assumes "notify_checks_required L" and "vm ''config'' = None"
  obtains e where "notify_options L program_options vm = Inl e"
proof -
  have "list_ex (\<lambda>d. semantic d = Required_String \<and> vm (long_name d) = None) program_options"
    using assms(2) by (simp add: program_options_def long_name_def)
  with assms(1) that show thesis unfolding notify_checks_required_def by blast
qed

text \<open>What the stages of the start come to, and their composition.\<close>

lemma read_config_Inr:
  "read_config L p w = Inr cfg \<longleftrightarrow> (\<exists>t. read_xml L p w = Inr t \<and> get_child L ''Config'' t = Inr cfg)"
  by (auto simp: read_config_def bind_result_conv)

lemma new_server_Inr:
  "new_server A address port H cs w = Inr s \<longleftrightarrow>
     (\<exists>addr h w1. address_from_string A address = (Success, addr) \<and> acceptor_create A w = (h, w1) \<and>
        s = \<lparr>srv_acceptor = h, srv_endpoint = \<lparr>ep_address = addr, ep_port = port\<rparr>, srv_handler = H,
             accepts = 0, sessions = [], ciphers = cs, srv_console = [], srv_world = w1\<rparr>)"
  by (auto simp: new_server_def new_server_at_def split: prod.splits)

lemma launch_iff:
  "launch L A argv hw input w = (out, Inr (C, a)) \<longleftrightarrow>
     (\<exists>path cfg address port s a'. read_arguments L argv = (out, Inr path) \<and>
        read_config L path w = Inr cfg \<and> load_settings L cfg w = Inr (address, port) \<and>
        new_server A address port handle_request default_cipher_suite w = Inr s \<and>
        run_context_calls L client_context_calls (srv_world s) = Inr () \<and>
        open_app (thread_created L) hw input s = Inr a' \<and> a = a'\<lparr>app_out := out\<rparr> \<and>
        C = program_config L address port)"
  by (auto simp: launch_def bind_result_conv split: prod.splits)

lemma launch_Inr:
  assumes "launch L A argv hw input w = (out, Inr (C, a))"
  obtains config_path cfg s where "read_arguments L argv = (out, Inr config_path)"
    and "read_config L config_path w = Inr cfg"
    and "load_settings L cfg w = Inr (listen_address C, listen_port C)"
    and "new_server A (listen_address C) (listen_port C) handle_request default_cipher_suite w = Inr s"
    and "run_context_calls L client_context_calls (srv_world s) = Inr ()"
    and "\<exists>a'. open_app (thread_created L) hw input s = Inr a' \<and> a = a'\<lparr>app_out := out\<rparr>"
    and "C = program_config L (listen_address C) (listen_port C)"
  using assms
  by (auto simp: launch_def bind_result_conv program_config_def split: prod.splits)

end
