(* ===== verification/Script.thy ===== *)
theory Script
  imports Application
begin

section \<open>The command loop as an interpreter of scripts\<close>

text \<open>
  A reference for the command loop: the lines of the standard input are first parsed to a list of
  commands with their arguments, up to the line \<open>quit\<close>, and the commands are then executed one after
  the other, by recursion over the list and without the standard input. The lemmas show that the loop
  of \<open>main\<close>, which takes a line at a time off the stream, compares it with the names of the commands
  and lets some of them take a further line, does the same.
\<close>

subsection \<open>Commands\<close>

datatype command =
    Start_Server | Stop_Server | Set_Server_Address string | Set_Server_Port string
  | Connect_Client | Disconnect_Client | Send_Message string | Send_File string | Show_Status | Unknown

definition plain_command :: "string \<Rightarrow> command" where
  "plain_command l =
     (case map_of [(''server_start'', Start_Server), (''server_stop'', Stop_Server),
                   (''client_connect'', Connect_Client), (''client_disconnect'', Disconnect_Client),
                   (''status'', Show_Status)] l of
        Some c \<Rightarrow> c | None \<Rightarrow> Unknown)"

definition argument_command :: "string \<Rightarrow> (string \<Rightarrow> command) option" where
  "argument_command =
     map_of [(''server_set_address'', Set_Server_Address), (''server_set_port'', Set_Server_Port),
             (''client_send'', Send_Message), (''client_send_file'', Send_File)]"

text \<open>\<open>None\<close> when no line is taken for \<open>quit\<close>.\<close>

fun parse_script :: "string list \<Rightarrow> command list option" where
  "parse_script [] = None"
| "parse_script [l] = (if l = ''quit'' then Some [] else None)"
| "parse_script (l # x # ls) =
     (if l = ''quit'' then Some []
      else case argument_command l of
             Some f \<Rightarrow> map_option ((#) (f x)) (parse_script ls)
           | None \<Rightarrow> map_option ((#) (plain_command l)) (parse_script (x # ls)))"

subsection \<open>Execution\<close>

fun perform ::
  "'h host_scheme asio \<Rightarrow> config \<Rightarrow> command \<Rightarrow> 'h host_scheme app \<Rightarrow> 'h host_scheme app result"
where
  "perform A C Start_Server a = Inr (snd (on_server (\<lambda>s. ((), start_server A s)) a))"
| "perform A C Stop_Server a =
     bind_result (try_server (\<lambda>s. bind_result (stop_server A s) (\<lambda>s'. Inr ((), s'))) a) (\<lambda>(_, b). Inr b)"
| "perform A C (Set_Server_Address x) a =
     Inr (snd (on_server (set_address A x)
       (say ''Enter an address in dotted decimal (IPv4) or hexadecimal (IPv6):'' a)))"
| "perform A C (Set_Server_Port x) a =
     (case lexical_cast_ushort C x of
        None \<Rightarrow> Inl Bad_Lexical_Cast
      | Some p \<Rightarrow> bind_result (try_server (set_port A p) (say ''Enter a port (0-65535):'' a)) (\<lambda>(_, b). Inr b))"
| "perform A C Connect_Client a =
     Inr (snd (on_client (\<lambda>c. ((), connect (listen_address C) (listen_port C) c)) a))"
| "perform A C Disconnect_Client a = Inr (snd (on_client (\<lambda>c. ((), disconnect A c)) a))"
| "perform A C (Send_Message x) a =
     Inr (snd (on_client (client_send A (message_of x)) (say ''Enter a message:'' a)))"
| "perform A C (Send_File x) a =
     bind_result (try_client (send_file A (pretty_read_file C) x) (say ''Enter a file path:'' a)) (\<lambda>(_, b). Inr b)"
| "perform A C Show_Status a =
     Inr (say (status_text A ((app_server a)\<lparr>srv_world := app_world a\<rparr>)
                             ((app_client a)\<lparr>cl_world := app_world a\<rparr>)) a)"
| "perform A C Unknown a = Inr (say help_text a)"

text \<open>
  The worker threads run before each command and before the \<open>quit\<close>; an exception of theirs ends the script
  as one of a command does.
\<close>

fun run_script ::
  "'h host_scheme asio \<Rightarrow> config \<Rightarrow> 'h host_scheme threads \<Rightarrow> nat \<Rightarrow>
   command list \<Rightarrow> 'h host_scheme app \<Rightarrow> 'h host_scheme app result"
where
  "run_script A C background i [] a = background (Before_Line i) a"
| "run_script A C background i (c # cs) a =
     bind_result (background (Before_Line i) a) (\<lambda>b.
     bind_result (perform A C c b) (run_script A C background (Suc i) cs))"

subsection \<open>The standard input plays no part in a command\<close>

definition with_in :: "stdin \<Rightarrow> 'w app \<Rightarrow> 'w app" where
  "with_in i a = a\<lparr>app_in := i\<rparr>"

lemma with_in_eq: "with_in i = (\<lambda>a. a\<lparr>app_in := i\<rparr>)"
  by (simp add: with_in_def fun_eq_iff)

lemma with_in_fields [simp]:
  "app_in (with_in i a) = i" "app_server (with_in i a) = app_server a" "app_client (with_in i a) = app_client a"
  "app_world (with_in i a) = app_world a" "with_in i (with_in j a) = with_in i a"
  "say l (with_in i a) = with_in i (say l a)"
  by (simp_all add: with_in_def say_def)

lemma map_result_bind:
  "map_sum id h (bind_result r f) = bind_result r (\<lambda>x. map_sum id h (f x))"
  by (cases r) simp_all

lemma bind_map_result: "bind_result (map_sum id h r) f = bind_result r (\<lambda>x. f (h x))"
  by (cases r) simp_all

lemma on_with_in [simp]:
  "snd (on_server f (with_in i a)) = with_in i (snd (on_server f a))"
  "snd (on_client g (with_in i a)) = with_in i (snd (on_client g a))"
  by (simp_all add: on_server_def on_client_def with_in_def split: prod.splits)

lemma try_with_in [simp]:
  "try_server f (with_in i a) = bind_result (try_server f a) (\<lambda>(b, a1). Inr (b, with_in i a1))"
  "try_client g (with_in i a) = bind_result (try_client g a) (\<lambda>(b, a1). Inr (b, with_in i a1))"
  by (cases "f ((app_server a)\<lparr>srv_world := app_world a\<rparr>)", auto simp: try_server_def with_in_def)
    (cases "g ((app_client a)\<lparr>cl_world := app_world a\<rparr>)", auto simp: try_client_def with_in_def)

lemma perform_with_in: "perform A C c (with_in i a) = map_sum id (with_in i) (perform A C c a)"
  by (cases c) (simp_all add: map_result_bind bind_result_assoc split_def split: option.split)

lemma run_script_with_in:
  assumes "\<And>j i b. background j (with_in i b) = map_sum id (with_in i) (background j b)"
  shows "run_script A C background n cs (with_in i a) = map_sum id (with_in i) (run_script A C background n cs a)"
  using assms
  by (induction cs arbitrary: n a) (simp_all add: perform_with_in map_result_bind bind_map_result)

subsection \<open>A command of the loop\<close>

lemma takes_argument_command: "takes_argument l \<longleftrightarrow> argument_command l \<noteq> None"
  by (simp add: argument_command_def takes_argument_def)

lemma exec_plain:
  assumes "argument_command l = None"
  shows "exec_command A C l a = perform A C (plain_command l) a"
  using assms by (simp add: argument_command_def exec_command_def plain_command_def split: if_splits)

lemma exec_argument:
  assumes "argument_command l = Some f" and "newline \<notin> set x"
    and "app_in a = \<lparr>unread = x @ newline # rest, good = True\<rparr>"
  shows "exec_command A C l a = map_sum id (with_in \<lparr>unread = rest, good = True\<rparr>) (perform A C (f x) a)"
proof -
  have "read_line l (say p a) = (x, with_in \<lparr>unread = rest, good = True\<rparr> (say p a))" for p
    unfolding with_in_def by (rule read_line_line) (simp_all add: assms(2,3))
  with assms(1) show ?thesis
    by (auto simp: argument_command_def exec_command_def map_result_bind bind_result_assoc split_def
        split: if_splits option.split)
qed

lemma parse_script_quits: "quits ls \<longleftrightarrow> (\<exists>cs. parse_script ls = Some cs)"
  by (induction ls rule: parse_script.induct)
    (auto simp: takes_argument_command split: option.splits)

lemma main_loop_runs:
  assumes "parse_script ls = Some cs" and "list_all (\<lambda>l. newline \<notin> set l) ls"
    and in_free: "\<And>j i b. background j (with_in i b) = map_sum id (with_in i) (background j b)"
  shows "\<exists>i. main_loop A C background n (with_in \<lparr>unread = lines_text ls @ rest, good = True\<rparr> a) =
    Some (map_sum id (with_in i) (run_script A C background n cs a))"
  using assms(1,2)
proof (induction ls arbitrary: n a cs rule: parse_script.induct)
  case (2 l)
  let ?i = "\<lparr>unread = l @ newline # rest, good = True\<rparr>"
  from "2.prems" have l: "l = ''quit''" "cs = []" "newline \<notin> set l" by (auto split: if_splits)
  show ?case
  proof (cases "background (Before_Line n) a")
    case (Inl e)
    then have "background (Before_Line n) (with_in ?i a) = Inl e" by (simp add: in_free)
    from main_loop_thread_fault [where background = background, OF this] Inl l(2) show ?thesis by simp
  next
    case (Inr b)
    have rd: "read_line [] (with_in ?i b) = (l, with_in \<lparr>unread = rest, good = True\<rparr> b)"
      unfolding with_in_def by (subst read_line_line [OF _ l(3)]) simp_all
    from Inr have "background (Before_Line n) (with_in ?i a) = Inr (with_in ?i b)" by (simp add: in_free)
    from main_loop_unfold [where background = background and i = n and a = "with_in ?i a", OF this rd] Inr l
    show ?thesis by auto
  qed
next
  case (3 l x ls)
  let ?i = "\<lparr>unread = lines_text (l # x # ls) @ rest, good = True\<rparr>"
    and ?i1 = "\<lparr>unread = lines_text (x # ls) @ rest, good = True\<rparr>"
    and ?i2 = "\<lparr>unread = lines_text ls @ rest, good = True\<rparr>"
  have nl: "newline \<notin> set l" "newline \<notin> set x" using "3.prems"(2) by simp_all
  show ?case
  proof (cases "background (Before_Line n) a")
    case (Inl e)
    then have "background (Before_Line n) (with_in ?i a) = Inl e" by (simp add: in_free)
    from main_loop_thread_fault [where background = background, OF this] Inl show ?thesis by (cases cs) simp_all
  next
    case b: (Inr b)
    have rd: "read_line [] (with_in ?i b) = (l, with_in ?i1 b)"
      unfolding with_in_def by (subst read_line_line [OF _ nl(1)]) simp_all
    from b have "background (Before_Line n) (with_in ?i a) = Inr (with_in ?i b)" by (simp add: in_free)
    note step = main_loop_unfold [where background = background and i = n and a = "with_in ?i a", OF this rd]
    show ?thesis
    proof (cases "l = ''quit''")
      case True
      with "3.prems"(1) step b show ?thesis by auto
    next
      case cmd: False
      show ?thesis
      proof (cases "argument_command l")
        case None
        then obtain cs' where cs: "parse_script (x # ls) = Some cs'" "cs = plain_command l # cs'"
          using "3.prems"(1) cmd by auto
        have "exec_command A C l (with_in ?i1 b) = map_sum id (with_in ?i1) (perform A C (plain_command l) b)"
          by (simp add: exec_plain [OF None] perform_with_in)
        with step b cmd cs "3.IH"(1) [OF cmd None cs(1)] "3.prems"(2) show ?thesis
          by (cases "perform A C (plain_command l) b") simp_all
      next
        case (Some f)
        then obtain cs' where cs: "parse_script ls = Some cs'" "cs = f x # cs'"
          using "3.prems"(1) cmd by auto
        have "exec_command A C l (with_in ?i1 b) = map_sum id (with_in ?i2) (perform A C (f x) (with_in ?i1 b))"
          by (rule exec_argument [OF Some nl(2)]) simp
        then have "exec_command A C l (with_in ?i1 b) = map_sum id (with_in ?i2) (perform A C (f x) b)"
          by (simp add: perform_with_in sum.map_comp comp_def id_def)
        with step b cmd cs "3.IH"(2) [OF cmd Some cs(1)] "3.prems"(2) show ?thesis
          by (cases "perform A C (f x) b") simp_all
      qed
    qed
  qed
qed simp

end
