(* ===== verification/Application_Properties.thy ===== *)
theory Application_Properties
  imports Script Sample_Session
begin

section \<open>Properties of the client, the I/O manager and the application\<close>

text \<open>
  The statements about \<open>class client\<close>, \<open>class io_manager\<close> and the console application: what reaches the
  active session, what becomes of a session the client lets go, the life cycle of the worker threads,
  and when and how the program ends.
\<close>

text \<open>A client whose active session is quiet, on a host where its socket is open.\<close>

definition sample_client :: "tiny client_st" where
  "sample_client =
     (new_client (open_world 5))\<lparr>active_session := Some (session.truncate (new_session 5 (open_world 5)))\<rparr>"

lemma sample_client_fields [simp]:
  "active_session sample_client = Some (session.truncate (new_session 5 (open_world 5)))"
  "cl_world sample_client = open_world 5" "detached sample_client = []"
  by (simp_all add: sample_client_def new_client_def)

lemma new_session_fields [simp]:
  "pending (new_session k w) = []" "socket (new_session k w) = k" "world (new_session k w) = w"
  by (simp_all add: new_session_def)

lemma open_world_fields [simp]:
  "opened (open_world h) = [h]" "disk (open_world h) = disk tiny_world"
  by (simp_all add: open_world_def)

lemma sample_connected [simp]: "is_connected tiny_asio sample_client"
  by (simp add: is_connected_def is_alive_def)

subsection \<open>The client\<close>

text \<open>C38: Sending a regular file on a connected client hands the active session a message with exactly the
  bytes of the file, whose header write is issued after whatever was outstanding, and changes
  nothing else in the world.\<close>

theorem send_file_sends:
  assumes "is_connected A c" and "disk (cl_world c) p = Some (Regular bs)"
    and "length bs \<le> vec_max_size"
  shows "\<exists>c' x y. send_file A pf p c = Inr (True, c') \<and> active_session c = Some x \<and>
    active_session c' = Some y \<and> content_buffer (write_buffer y) = bs \<and>
    pending y = pending x @ [Op_Write_Header (header_buffer (message_of bs))] \<and>
    cl_world c' = cl_world c"
proof -
  let ?m = "new_message\<lparr>content_buffer := bs\<rparr>"
  obtain x where x: "active_session c = Some x" using is_connected_Some [OF assms(1)] by blast
  have "read_file pf p new_message (cl_world c) = Inr (True, ?m, cl_world c)"
    using assms(2,3) by (rule read_file_regular)
  then have send: "send_file A pf p c = Inr (client_send A ?m c)"
    by (simp add: send_file_def)
  have "content_buffer (write_buffer (client_session_send ?m s)) = bs" for s :: "'a host_scheme session_st"
    by (simp add: client_session_send_def do_defs Let_def)
  with send x assms(1) show ?thesis
    by (simp add: client_send_def call_active_Some send_pending)
qed

lemma send_file_sends_witness:
  "\<exists>c' x y. send_file tiny_asio [] ''a.txt'' sample_client = Inr (True, c') \<and>
    active_session sample_client = Some x \<and>
    active_session c' = Some y \<and> content_buffer (write_buffer y) = ''hello'' \<and>
    pending y = pending x @ [Op_Write_Header (header_buffer (message_of ''hello''))] \<and>
    cl_world c' = cl_world sample_client"
  by (rule send_file_sends) (simp_all add: vec_max_size_def)

text \<open>\<open>send_file\<close> on a path that can be opened but not positioned in, such as a pipe or a terminal,
  ends in \<open>std::length_error\<close>, whether or not the client is connected, because the position -1 is
  taken for a size.\<close>

theorem send_file_unseekable:
  assumes "disk (cl_world c) p = Some Unseekable"
  shows "send_file A pf p c = Inl Length_Error"
  using assms by (simp add: send_file_def read_file_unseekable)

lemma send_file_unseekable_witness:
  "send_file tiny_asio [] ''/dev/tty'' sample_client = Inl Length_Error"
  by (rule send_file_unseekable) simp

text \<open>\<open>disconnect\<close> on a connected client lets go of the session after issuing its shutdown: the session
  lives on until that completes, the client is not connected any more, and a further \<open>send\<close> answers
  false and does nothing.\<close>

theorem disconnect_lets_go:
  assumes "is_connected A c" and "active_session c = Some x"
  shows "\<not> is_connected A (disconnect A c) \<and> client_send A m (disconnect A c) = (False, disconnect A c) \<and>
    (\<exists>y. detached (disconnect A c) = detached c @ [y] \<and> socket y = socket x \<and>
         pending y = pending x @ [Op_Shutdown]) \<and>
    cl_world (disconnect A c) = snd (socket_cancel A (socket x) (cl_world c))"
proof -
  have gone: "\<not> is_connected A (disconnect A c)"
    using disconnect_fields(1) [OF assms(2,1)] by (simp add: is_connected_def)
  then have "client_send A m (disconnect A c) = (False, disconnect A c)"
    by (simp add: client_send_def)
  moreover have "socket (session.truncate (stop A (attach x (cl_world c)))) = socket x"
    "pending (session.truncate (stop A (attach x (cl_world c)))) = pending x @ [Op_Shutdown]"
    by simp_all
  ultimately show ?thesis
    using gone disconnect_fields(2,3) [OF assms(2,1)] by blast
qed

lemma disconnect_lets_go_witness:
  "let x = session.truncate (new_session 5 (open_world 5))
   in \<not> is_connected tiny_asio (disconnect tiny_asio sample_client) \<and>
    client_send tiny_asio (message_of ''hi'') (disconnect tiny_asio sample_client) =
      (False, disconnect tiny_asio sample_client) \<and>
    (\<exists>y. detached (disconnect tiny_asio sample_client) = detached sample_client @ [y] \<and> socket y = socket x \<and>
         pending y = pending x @ [Op_Shutdown]) \<and>
    cl_world (disconnect tiny_asio sample_client) = snd (socket_cancel tiny_asio (socket x) (cl_world sample_client))"
  unfolding Let_def by (rule disconnect_lets_go) simp_all

text \<open>Connecting a client that already has a session replaces the session without stopping it: no
  call is made on its socket, a quiet one is destroyed without a shutdown of its secure stream, and
  one with an operation outstanding goes on, out of reach of the client.\<close>

theorem reconnect_abandons_session:
  assumes "active_session c = Some x"
  shows "\<exists>y. active_session (connect_completed A pf Success k c) = Some y \<and>
    socket y = k \<and> pending y = [Op_Handshake Handshake_Client] \<and>
    detached (connect_completed A pf Success k c) = detached c @ (if pending x = [] then [] else [x]) \<and>
    cl_world (connect_completed A pf Success k c) = cl_world c"
  using assms
  by (simp add: connect_completed_def Let_def client_start_def do_defs set_active_def)

lemma reconnect_abandons_session_witness:
  "\<exists>y. active_session (connect_completed tiny_asio [] Success 8 sample_client) = Some y \<and>
    socket y = 8 \<and> pending y = [Op_Handshake Handshake_Client] \<and>
    detached (connect_completed tiny_asio [] Success 8 sample_client) = detached sample_client @
      (if pending (session.truncate (new_session 5 (open_world 5))) = [] then []
       else [session.truncate (new_session 5 (open_world 5))]) \<and>
    cl_world (connect_completed tiny_asio [] Success 8 sample_client) = cl_world sample_client"
  by (rule reconnect_abandons_session) simp

subsection \<open>The I/O manager\<close>

text \<open>C33: A sequence of starts, with any numbers of threads, and stops of an I/O manager ends in an exception
  only when an inactive one is started and the system refuses to create one of its threads. While that
  has not happened, an active manager holds the work informer and only threads that can be joined, an
  inactive one no informer and no joinable thread, the service is not left stopped, the destruction of the
  manager ends normally and without threads, and the next start succeeds exactly if the manager is
  active or all its threads are granted. When it has happened, the threads created before the one
  refused are left joinable in a manager that is not active: its destruction, and another start, end
  normally if there are none of them and terminate the process if there are any.\<close>

theorem io_manager_faults_only_when_refused:
  "case io_run xs new_io_manager of
     (None, m) \<Rightarrow> (active m \<longleftrightarrow> work_informer m) \<and>
       list_all (\<lambda>t. t = (if active m then Joinable else Joined)) (thread_pool m) \<and>
       \<not> service_stopped (calls m) False \<and> (\<exists>m'. io_destroy m = Inr m' \<and> thread_pool m' = []) \<and>
       (\<forall>g n. fst (io_start g n m) = None \<longleftrightarrow> active m \<or> list_all g [0..<unat n])
   | (Some e, m) \<Rightarrow> e = System_Error \<and> \<not> active m \<and>
       (\<exists>ys g n zs m1 k. xs = ys @ Start g n # zs \<and> io_run ys new_io_manager = (None, m1) \<and> \<not> active m1 \<and>
          k < unat n \<and> \<not> g k \<and> list_all g [0..<k] \<and> thread_pool m = replicate k Joinable \<and>
          (if k = 0 then \<exists>m'. io_destroy m = Inr m' \<and> thread_pool m' = []
           else io_destroy m = Inl Terminate \<and> (\<forall>g' n'. fst (io_start g' n' m) = Some Terminate)))"
  using io_run_cases [OF io_inv_new, of xs]
proof (elim disjE exE conjE)
  fix m assume m: "io_run xs new_io_manager = (None, m)" "io_inv m"
  have "\<exists>m'. io_destroy m = Inr m' \<and> thread_pool m' = []" using io_destroy_inv [OF m(2)] by blast
  with m(2) io_start_granted_iff [OF m(2)] show ?thesis unfolding m(1) prod.case option.case io_inv_def by blast
next
  fix ys g n zs m1 k
  assume run: "xs = ys @ Start g n # zs" "io_run ys new_io_manager = (None, m1)"
    and m1: "io_inv m1" "\<not> active m1" and k: "k < unat n" "\<not> g k" "list_all g [0..<k]"
    and m: "io_run xs new_io_manager = (Some System_Error, half_started k m1)"
  have "thread_pool (half_started k m1) = replicate k Joinable" by (simp add: half_started_def)
  moreover have "if k = 0 then \<exists>m'. io_destroy (half_started k m1) = Inr m' \<and> thread_pool m' = []
      else io_destroy (half_started k m1) = Inl Terminate \<and>
        (\<forall>g' n'. fst (io_start g' n' (half_started k m1)) = Some Terminate)"
    using half_started_ends(2,3) [OF m1] by simp
  ultimately show ?thesis
    using run m1(2) k half_started_ends(1) [OF m1] unfolding m prod.case option.case by blast
qed

text \<open>\<open>stop\<close> on an active manager with \<open>n\<close> workers resets the informer, stops the service before any
  handler could finish because of that, joins every worker exactly once, and only then resets the
  service.\<close>

theorem io_stop_order:
  assumes "io_inv m" and "active m"
  shows "\<exists>m'. io_stop m = Inr m' \<and> \<not> active m' \<and>
    thread_pool m' = replicate (length (thread_pool m)) Joined \<and>
    calls m' = calls m @ [Work_Reset, Service_Stop] @
      replicate (length (thread_pool m)) Thread_Join @ [Service_Reset]"
  by (rule io_stop_active [OF assms]) simp

lemma io_stop_order_witness:
  "\<exists>m m'. io_start (\<lambda>i. True) 2 new_io_manager = (None, m) \<and> io_stop m = Inr m' \<and> \<not> active m' \<and>
    thread_pool m' = replicate (length (thread_pool m)) Joined \<and>
    calls m' = calls m @ [Work_Reset, Service_Stop] @
      replicate (length (thread_pool m)) Thread_Join @ [Service_Reset]"
proof -
  have start: "io_start (\<lambda>i. True) 2 new_io_manager = (None, started 2 new_io_manager)"
    using io_start_granted [OF io_inv_new new_io_inactive, of "\<lambda>i. True" 2] by (simp add: list_all_iff)
  from io_stop_order [OF io_inv_started [OF io_inv_new, of 2]] start show ?thesis by auto
qed

text \<open>The default number of worker threads is at least one, and one less than the number of hardware
  threads whenever that is at least two, without wrapping around when it is unknown (zero).\<close>

theorem default_threads_positive:
  "1 \<le> unat (default_num_threads hw) \<and>
   unat (default_num_threads hw) = (if unat hw < 2 then 1 else unat hw - 1)"
proof (cases "unat hw < 2")
  case True
  then have "hw \<le> 2" by (simp add: word_le_nat_alt)
  then have "default_num_threads hw = 1" by (simp add: default_num_threads_def max_absorb2)
  with True show ?thesis by simp
next
  case False
  then have "2 \<le> hw" by (simp add: word_le_nat_alt)
  then have "default_num_threads hw = hw - 1" by (simp add: default_num_threads_def max_absorb1)
  moreover have "unat (hw - 1) = unat hw - 1"
    using False by (intro unat_minus_one) auto
  ultimately show ?thesis using False by simp
qed

subsection \<open>The application\<close>

text \<open>C31: The command loop ends, normally or by an exception, on every input whose lines lead to a \<open>quit\<close>,
  where the line after a command that asks for one is not a command, whatever follows these lines
  and whatever the worker threads do or throw, as long as they leave the standard input alone.\<close>

theorem quit_ends_loop:
  assumes "quits ls" and "list_all (\<lambda>l. newline \<notin> set l) ls"
    and "app_in a = \<lparr>unread = lines_text ls @ rest, good = True\<rparr>"
    and "\<And>j b b'. background j b = Inr b' \<Longrightarrow> app_in b' = app_in b"
  shows "\<exists>r. main_loop A C background i a = Some r"
  using assms by (rule main_loop_quits)

text \<open>An application that has started, with a given text on its standard input.\<close>

definition sample_config :: config where
  "sample_config =
     \<lparr>listen_address = ''127.0.0.1'', listen_port = 8443, pretty_read_file = ''read_file'',
      lexical_cast_ushort = (\<lambda>l. None)\<rparr>"

definition sample_app :: "string \<Rightarrow> bool \<Rightarrow> tiny app" where
  "sample_app input ok =
     \<lparr>app_io = new_io_manager,
      app_server = new_server_at tiny_asio (local_endpoint 8443) handle_request default_cipher_suite tiny_world,
      app_client = new_client tiny_world, app_in = \<lparr>unread = input, good = ok\<rparr>, app_out = [],
      app_world = tiny_world\<rparr>"

lemma sample_app_in [simp]: "app_in (sample_app input ok) = \<lparr>unread = input, good = ok\<rparr>"
  by (simp add: sample_app_def)

lemma quit_ends_loop_witness:
  "\<exists>r. main_loop tiny_asio sample_config (\<lambda>j b. Inr b) 0
     (sample_app (lines_text [''client_send'', ''quit'', ''status'', ''quit''] @ ''rest'') True) = Some r"
  by (rule quit_ends_loop [where ls = "[''client_send'', ''quit'', ''status'', ''quit'']" and rest = "''rest''"])
    (simp_all add: takes_argument_def newline_def)

text \<open>C32: The command loop is the interpreter of the script on its standard input: it executes exactly the
  commands the lines up to \<open>quit\<close> are parsed to, each with its argument line, in order and with the
  worker threads running in between, ends as the first command or thread that throws or else normally, and
  leaves nothing but the stream different.\<close>

theorem command_loop_runs_script:
  assumes "parse_script ls = Some cs" and "list_all (\<lambda>l. newline \<notin> set l) ls"
    and "app_in a = \<lparr>unread = lines_text ls @ rest, good = True\<rparr>"
    and "\<And>j i b. background j (b\<lparr>app_in := i\<rparr>) = map_sum id (\<lambda>b. b\<lparr>app_in := i\<rparr>) (background j b)"
  shows "\<exists>i. main_loop A C background n a =
    Some (map_sum id (\<lambda>b. b\<lparr>app_in := i\<rparr>) (run_script A C background n cs a))"
proof -
  have a: "with_in \<lparr>unread = lines_text ls @ rest, good = True\<rparr> a = a"
    using assms(3) by (simp add: with_in_def flip: assms(3))
  show ?thesis
    using main_loop_runs [OF assms(1,2), of background A C n rest a] assms(4) a by (simp add: with_in_eq)
qed

lemma command_loop_runs_script_witness:
  "\<exists>i. main_loop tiny_asio sample_config (\<lambda>j b. Inr b) 0
      (sample_app (lines_text [''client_send'', ''quit'', ''start'', ''quit'', ''status''] @ []) True) =
    Some (map_sum id (\<lambda>b. b\<lparr>app_in := i\<rparr>)
      (run_script tiny_asio sample_config (\<lambda>j b. Inr b) 0 [Send_Message ''quit'', Unknown]
        (sample_app (lines_text [''client_send'', ''quit'', ''start'', ''quit'', ''status''] @ []) True)))"
  by (rule command_loop_runs_script [where ls = "[''client_send'', ''quit'', ''start'', ''quit'', ''status'']"
        and rest = "[]"])
    (simp_all add: argument_command_def plain_command_def newline_def)

text \<open>C39: Once the standard input is exhausted the command loop never ends: each further read leaves the
  line empty, which is taken for an unknown command. (The threads throw nothing and do not read the input.)\<close>

theorem end_of_input_never_ends:
  assumes "\<not> good (app_in a)" and "\<And>j b. \<exists>b'. background j b = Inr b' \<and> app_in b' = app_in b"
  shows "main_loop A C background i a = None"
  using assms by (rule main_loop_bad)

lemma end_of_input_never_ends_witness:
  "main_loop tiny_asio sample_config (\<lambda>j b. Inr b) 0 (sample_app [] False) = None"
  by (rule end_of_input_never_ends) simp_all

text \<open>A port that does not parse ends the program with an uncaught \<open>boost::bad_lexical_cast\<close> in the
  middle of the command loop, without the disconnect and the stops that follow the loop.\<close>

theorem bad_port_ends_program:
  assumes "newline \<notin> set l" and "lexical_cast_ushort C l = None"
    and "app_in a = \<lparr>unread = lines_text [''server_set_port'', l] @ rest, good = True\<rparr>"
    and "background (Before_Line i) a = Inr b" and "app_in b = app_in a"
  shows "main_loop A C background i a = Some (Inl Bad_Lexical_Cast)"
proof -
  have "app_in b = \<lparr>unread = ''server_set_port'' @ newline # l @ newline # rest, good = True\<rparr>"
    using assms(3,5) by simp
  from read_line_line [OF this, of "[]"] obtain a1 where
    read: "read_line [] b = (''server_set_port'', a1)"
    and a1: "app_in a1 = \<lparr>unread = l @ newline # rest, good = True\<rparr>"
    by (simp add: newline_def)
  have "app_in (say ''Enter a port (0-65535):'' a1) = \<lparr>unread = l @ newline # rest, good = True\<rparr>"
    using a1 by simp
  from read_line_line [OF this assms(1)] assms(2)
  have "exec_command A C ''server_set_port'' a1 = Inl Bad_Lexical_Cast"
    by (simp add: exec_command_def)
  with main_loop_unfold [where background = background and i = i and a = a, OF assms(4) read]
  show ?thesis by simp
qed

lemma bad_port_ends_program_witness:
  "main_loop tiny_asio sample_config (\<lambda>j b. Inr b) 0 (sample_app (lines_text [''server_set_port'', ''abc''] @ []) True) =
     Some (Inl Bad_Lexical_Cast)"
  by (rule bad_port_ends_program [where l = "''abc''" and rest = "[]", OF _ _ _ refl refl])
    (simp_all add: newline_def sample_config_def)

lemma quit_program:
  assumes io: "io_inv (app_io a0)" and in0: "app_in a0 = \<lparr>unread = ''quit'' @ [newline], good = True\<rparr>"
  obtains a where "run_app tiny_asio C (\<lambda>j b. Inr b) a0 = Some (Inr a)"
proof -
  define a1 where "a1 = a0\<lparr>app_in := \<lparr>unread = [], good = True\<rparr>\<rparr>"
  have "read_line [] a0 = (''quit'', a1)"
    unfolding a1_def by (rule read_line_line) (simp_all add: in0 newline_def)
  then have loop: "main_loop tiny_asio C (\<lambda>j b. Inr b) 0 a0 = Some (Inr a1)"
    using main_loop_unfold [where background = "\<lambda>j. Inr" and i = 0 and a = a0 and A = tiny_asio and C = C] by simp
  have inv: "io_inv (app_io a1)" using io by (simp add: a1_def)
  then obtain io' where io': "io_stop (app_io a1) = Inr io'" using io_stop_inv by blast
  have "stop_server tiny_asio s = Inr (s\<lparr>srv_world := snd (tiny_close (srv_acceptor s) (srv_world s))\<rparr>)" for s
    by (simp add: stop_server_def tiny_close_def)
  then obtain a2 where a2: "finish_app tiny_asio (\<lambda>j b. Inr b) a1 = Inr a2"
    by (simp add: finish_app_def last_stop_def try_server_def io')
  have "threads_only_handle tiny_asio (\<lambda>j b :: tiny app. Inr b)" by (simp add: threads_only_handle_def)
  from finish_app_Inr [OF a2 inv tiny_acceptor_laws this] obtain a where "leave_main tiny_asio a2 = Inr a"
    by (blast intro: leave_main_Inr [of a2 tiny_asio] tiny_acceptor_laws tiny_close_again)
  with loop a2 show thesis by (intro that [of a]) (simp add: run_app_def)
qed

end
