(* ===== verification/Configuration_Properties.thy ===== *)
theory Configuration_Properties
  imports Configuration Application_Properties
begin

section \<open>Properties of the start of the program\<close>

text \<open>
  When the program gets as far as its command loop and in which state, what it ends with when it does not,
  and how it ends after that.
\<close>

subsection \<open>Concrete libraries\<close>

text \<open>
  An instance of the libraries for concrete inputs: the two options, a tree of full paths, and the
  settings of \<open>example/config.xml\<close> under the name \<open>config.xml\<close>.
\<close>

fun tiny_parse :: "string list \<Rightarrow> (string \<times> string) list result" where
  "tiny_parse [] = Inr []"
| "tiny_parse [x] =
     (if x = ''--help'' then Inr [(''help'', [])] else Inl Program_Options_Error)"
| "tiny_parse (x # y # xs) =
     (if x = ''--help'' then bind_result (tiny_parse (y # xs)) (\<lambda>ps. Inr ((''help'', []) # ps))
      else if x = ''--config'' then bind_result (tiny_parse xs) (\<lambda>ps. Inr ((''config'', y) # ps))
      else Inl Program_Options_Error)"

definition tiny_notify :: "option_description list \<Rightarrow> (string \<rightharpoonup> string) \<Rightarrow> string result" where
  "tiny_notify ds vm =
     (if list_ex (\<lambda>d. semantic d = Required_String \<and> vm (long_name d) = None) ds
      then Inl Program_Options_Error
      else Inr (case vm ''config'' of Some p \<Rightarrow> p | None \<Rightarrow> []))"

definition tiny_get :: "string \<Rightarrow> (string \<times> string) list \<Rightarrow> string result" where
  "tiny_get k t = (case map_of t k of None \<Rightarrow> Inl Property_Tree_Error | Some v \<Rightarrow> Inr v)"

definition tiny_libraries :: "((string \<times> string) list, (string \<times> string) list, tiny) libraries" where
  "tiny_libraries =
     \<lparr>parse_command_line = (\<lambda>ds argv. tiny_parse (tl argv)),
      store_options = (\<lambda>ps. Inr (map_of ps)),
      notify_options = tiny_notify,
      read_xml = (\<lambda>p w. if p = ''config.xml'' then Inr example_config else Inl Property_Tree_Error),
      get_child = (\<lambda>k t. if k = ''Config'' then Inr t else Inl Property_Tree_Error),
      get_string = tiny_get,
      get_ushort = (\<lambda>k t. bind_result (tiny_get k t) (\<lambda>ds. Inr (of_nat (digits_value ds)))),
      context_call = (\<lambda>c w. Inr ()), thread_created = (\<lambda>i. True),
      read_file_name = ''read_file'',
      cast_ushort = (\<lambda>l. None)\<rparr>"

lemma tiny_notify_checks: "notify_checks_required tiny_libraries"
  by (simp add: notify_checks_required_def tiny_libraries_def tiny_notify_def)

definition good_argv :: "string list" where
  "good_argv = [''app'', ''--config'', ''config.xml'']"

lemma tiny_get_example:
  "tiny_get ''Server.listen_address'' example_config = Inr ''127.0.0.1''"
  "tiny_get ''Server.listen_port'' example_config = Inr ''54321''"
  "tiny_get ''Server.certificate_file'' example_config = Inr ''secure/certificate.cert.pem''"
  "tiny_get ''Server.certificate_chain_file'' example_config = Inr ''secure/certificate-chain.cert.pem''"
  "tiny_get ''Server.diffie_hellman_parameter_file'' example_config = Inr ''secure/dh2048.pem''"
  "tiny_get ''Server.rsa_private_key_file'' example_config = Inr ''secure/private.key.pem''"
  "tiny_get ''Server.rsa_private_key_password'' example_config = Inr ''default_password''"
  by (simp_all add: tiny_get_def example_config_def)

lemma tiny_libraries_fields [simp]:
  "parse_command_line tiny_libraries ds argv = tiny_parse (tl argv)"
  "store_options tiny_libraries ps = Inr (map_of ps)" "notify_options tiny_libraries = tiny_notify"
  "read_xml tiny_libraries ''config.xml'' w = Inr example_config"
  "get_child tiny_libraries ''Config'' t = Inr t" "get_string tiny_libraries = tiny_get"
  "get_ushort tiny_libraries k t = bind_result (tiny_get k t) (\<lambda>ds. Inr (of_nat (digits_value ds)))"
  "context_call tiny_libraries c w = Inr ()" "thread_created tiny_libraries = (\<lambda>i. True)"
  by (simp_all add: tiny_libraries_def)

lemma good_arguments: "read_arguments tiny_libraries good_argv = ([], Inr ''config.xml'')"
  by (simp add: read_arguments_def good_argv_def help_output_def tiny_notify_def program_options_def
      long_name_def)

lemma good_config: "read_config tiny_libraries ''config.xml'' w = Inr example_config"
  by (simp add: read_config_def)

lemma good_settings: "load_settings tiny_libraries example_config w = Inr (''127.0.0.1'', 54321)"
  by (simp add: load_settings_Inr load_secure_data_Inr tiny_get_example digits_value_def digit_value_def)
    (intro exI [of _ "new_secure_data ''secure/certificate.cert.pem'' ''secure/certificate-chain.cert.pem''
       ''secure/dh2048.pem'' ''secure/private.key.pem'' ''default_password''"],
     simp add: new_secure_data_def)

subsection \<open>Getting as far as the command loop\<close>

lemma open_app_granted: "\<exists>a. open_app (\<lambda>i. True) hw input s = Inr a"
  by (simp add: open_app_iff list_all_iff)

lemma good_launch:
  obtains a where "launch tiny_libraries tiny_asio good_argv hw input tiny_world =
    ([], Inr (program_config tiny_libraries ''127.0.0.1'' 54321, a))"
proof -
  obtain a where "open_app (\<lambda>i. True) hw input (new_server_at tiny_asio (local_endpoint 54321) handle_request
      default_cipher_suite tiny_world) = Inr a"
    using open_app_granted by blast
  then show thesis
    by (intro that [of "a\<lparr>app_out := []\<rparr>"]) (simp add: launch_def good_arguments good_config good_settings
        new_server_def local_endpoint_def run_context_calls_Inr client_context_calls_def)
qed




text \<open>C40: \<open>--help\<close> alone prints its line and then ends the program with an exception, because the required
  \<open>--config\<close> is checked after it.\<close>

theorem help_ends_in_exception:
  assumes "notify_checks_required L" and "parse_command_line L program_options argv = Inr parsed"
    and "store_options L parsed = Inr vm" and "vm ''help'' \<noteq> None" and "vm ''config'' = None"
  shows "\<exists>e. main_function L A argv hw background input w =
    ([(Std_Out, ''This prints a help message!'' @ [newline])], Some (Inl e))"
proof -
  obtain e where "notify_options L program_options vm = Inl e"
    using assms(1,5) by (rule notify_without_config)
  then have "read_arguments L argv = (help_output vm, Inl e)"
    using assms(2,3) by (simp add: read_arguments_def)
  then show ?thesis using assms(4) by (simp add: main_function_def launch_def help_output_def)
qed

lemma help_ends_in_exception_witness:
  "\<exists>e. main_function tiny_libraries tiny_asio [''app'', ''--help''] 4 (\<lambda>j b. Inr b) [] tiny_world =
    ([(Std_Out, ''This prints a help message!'' @ [newline])], Some (Inl e))"
  by (rule help_ends_in_exception [OF tiny_notify_checks, where parsed = "[(''help'', [])]"
        and vm = "map_of [(''help'', [])]"]) simp_all

text \<open>When the program gets to its command loop, its worker threads run, and neither the server listens
  nor has it an accept outstanding, nor is the client connected: listening is left to a command.\<close>

theorem launch_does_not_listen:
  assumes "launch L A argv hw input w = (out, Inr (C, a))"
    and "\<And>h w'. acceptor_create A w = (h, w') \<Longrightarrow> \<not> acceptor_is_open A h w'"
  shows "\<not> is_listening A (app_server a) \<and> accepts (app_server a) = 0 \<and> sessions (app_server a) = [] \<and>
    \<not> is_connected A (app_client a) \<and> active (app_io a) \<and>
    thread_pool (app_io a) = replicate (unat (default_num_threads hw)) Joinable \<and>
    app_in a = \<lparr>unread = input, good = True\<rparr> \<and> app_out a = out"
proof -
  from assms(1) obtain s a' where
    s: "new_server A (listen_address C) (listen_port C) handle_request default_cipher_suite w = Inr s"
    and a': "open_app (thread_created L) hw input s = Inr a'" and a: "a = a'\<lparr>app_out := out\<rparr>"
    by (elim launch_Inr) blast
  from s obtain ep where "s = new_server_at A ep handle_request default_cipher_suite w"
    by (auto simp: new_server_def split: prod.splits if_splits)
  then have "\<not> is_listening A s" "accepts s = 0" "sessions s = []"
    using assms(2) by (auto simp: new_server_at_def is_listening_def split: prod.splits)
  then show ?thesis using open_app_Inr [OF a'] by (simp add: a new_client_def is_connected_def)
qed

subsection \<open>The whole program\<close>



lemma launch_does_not_listen_witness:
  "\<exists>out C a. launch tiny_libraries tiny_asio good_argv 4 [] tiny_world = (out, Inr (C, a)) \<and>
    (\<not> is_listening tiny_asio (app_server a) \<and> accepts (app_server a) = 0 \<and> sessions (app_server a) = [] \<and>
    \<not> is_connected tiny_asio (app_client a) \<and> active (app_io a) \<and>
    thread_pool (app_io a) = replicate (unat (default_num_threads 4)) Joinable \<and>
    app_in a = \<lparr>unread = [], good = True\<rparr> \<and> app_out a = out)"
proof -
  obtain a where launch: "launch tiny_libraries tiny_asio good_argv 4 [] tiny_world =
      ([], Inr (program_config tiny_libraries ''127.0.0.1'' 54321, a))"
    by (rule good_launch)
  from launch_does_not_listen [OF launch] launch show ?thesis by auto
qed

end
