(* ===== verification/Session_Failures.thy ===== *)
theory Session_Failures
  imports Sample_Session
begin

section \<open>What the sessions send and accept, and their faults\<close>

text \<open>
  The third group of statements about the sessions: what they send and accept in every reachable
  state, and the only faults of either side and how a peer provokes them.
\<close>

lemma server_reachable_inv:
  "session_run A (server_session A H) (server_start (new_session k w)) s \<Longrightarrow> server_inv s"
  by (erule server_invariant.run_keeps) (rule server_inv_start)

subsection \<open>What a server session sends and accepts\<close>

lemma framed_header: "framed m \<Longrightarrow> header_buffer m = header_buffer (message_of (content_buffer m))"
  using framed_message_of(1) [of "content_buffer m"] by (simp add: framed_def)

lemma server_inv_single:
  assumes "server_inv s" and "x \<in> set (pending s)"
  shows "pending s = [x]"
proof -
  have "length (pending s) \<le> 1"
    using assms(1) by (cases "(s, pending s)" rule: server_pending_ok.cases) (simp_all add: server_inv_def)
  with assms(2) show ?thesis by (cases "pending s") auto
qed

text \<open>Only the completion of a write of a header leads to a write of a content, of the same message.\<close>

lemma content_write_follows:
  assumes "server_inv s" and "session_step A (server_session A H) s t" and "Op_Write_Content bs \<in> set (pending t)"
  shows "pending s = [Op_Write_Header (header_buffer (message_of bs))]"
proof -
  from assms(2) obtain i ec d where i: "i < length (pending s)" and step: "deliver A (server_session A H) i ec d s = Inr t"
    by (rule session_stepE)
  obtain x where x: "pending s = [x]" using server_inv_single [OF assms(1) nth_mem [OF i]] by blast
  have 0: "i = 0" using assms(1) i by (rule server_inv_index)
  obtain p where p: "phase_of (pending s) = Some p"
    using assms(1) by (cases "(s, pending s)" rule: server_pending_ok.cases) (auto simp: server_inv_def)
  from p step have next_phase: "phase_of (pending t) = Some (phase_next p ec)" unfolding 0 by (rule server_deliver_phase)
  have "server_inv t" by (rule server_invariant.step_keeps [OF assms(2,1)])
  then have t: "pending t = [Op_Write_Content bs]" using assms(3) by (rule server_inv_single)
  with next_phase have "p = Writing_Header" "ec = Success"
    by (cases p; auto simp: transfer_next_def split: if_splits)+
  with p x obtain cs where cs: "x = Op_Write_Header cs" by (cases "[x]" rule: phase_of.cases) auto
  with x assms(1) have w: "framed (write_buffer s)" "pending s = [Op_Write_Header (header_buffer (write_buffer s))]"
    by (auto simp: server_inv_def)
  from server_response_header [OF w(2,1), of A H] step t \<open>ec = Success\<close> cs x
  have "bs = content_buffer (write_buffer s)" by (auto simp: 0 deliver_single)
  with w framed_header [OF w(1)] show ?thesis by simp
qed

text \<open>C20: Whatever response the handler leaves behind, the writes of a server session come in pairs: the
  header it writes is that of the content of the response, a write of a header that succeeds is followed by
  the write of exactly that content, and no content is written but right after its own header.\<close>

theorem server_writes_framed:
  assumes "session_run A (server_session A H) (server_start (new_session k w)) s"
    and "session_step A (server_session A H) s t"
  shows "(\<forall>bs. Op_Write_Header bs \<in> set (pending s) \<longrightarrow>
            bs = header_buffer (message_of (content_buffer (write_buffer s))) \<and>
            (\<exists>u. deliver A (server_session A H) 0 Success [] s = Inr u \<and>
               pending u = [Op_Write_Content (content_buffer (write_buffer s))])) \<and>
         (\<forall>bs. Op_Write_Content bs \<in> set (pending t) \<longrightarrow>
            pending s = [Op_Write_Header (header_buffer (message_of bs))])"
proof (intro conjI allI impI)
  note inv = server_reachable_inv [OF assms(1)]
  fix bs
  show "pending s = [Op_Write_Header (header_buffer (message_of bs))]" if "Op_Write_Content bs \<in> set (pending t)"
    using inv assms(2) that by (rule content_write_follows)
  assume "Op_Write_Header bs \<in> set (pending s)"
  with inv have p: "pending s = [Op_Write_Header bs]" by (rule server_inv_single)
  with inv have w: "framed (write_buffer s)" "bs = header_buffer (write_buffer s)"
    by (simp_all add: server_inv_def)
  show "bs = header_buffer (message_of (content_buffer (write_buffer s)))"
    unfolding w(2) by (rule framed_header [OF w(1)])
  from server_response_header [OF p w(1), of A H]
  show "\<exists>u. deliver A (server_session A H) 0 Success [] s = Inr u \<and>
      pending u = [Op_Write_Content (content_buffer (write_buffer s))]" by metis
qed

text \<open>A session that has got the header of a message of two bytes, and the message.\<close>

lemma sample_request:
  obtains s1 s2 s3 :: "tiny session_st" where
    "session_run tiny_asio (server_session tiny_asio handle_request) (server_start (new_session 5 (open_world 5))) s1"
    and "session_step tiny_asio (server_session tiny_asio handle_request) s1 s2"
    and "session_step tiny_asio (server_session tiny_asio handle_request) s2 s3"
    and "pending s1 = [Op_Read_Content 2]"
    and "pending s2 = [Op_Write_Header (header_buffer (message_of ''hi''))]"
    and "pending s3 = [Op_Write_Content ''hi'']"
proof -
  let ?V = "server_session tiny_asio handle_request" and ?h = "header_buffer (message_of ''hi'')"
  let ?s0 = "server_start (new_session 5 (open_world 5))"
  obtain r where d0: "deliver tiny_asio ?V 0 Success [] ?s0 = Inr r" and "ready r"
    by (rule server_handshake [of tiny_asio handle_request 5 "open_world 5"])
  then have p0: "pending r = [Op_Read_Header 28]" "length (header_buffer (read_buffer r)) = 28"
    by (simp_all add: ready_def)
  have h: "length ?h = 28" by (simp add: length_framed_header_iff fits_def)
  let ?m = "read_buffer r\<lparr>header_buffer := ?h, content_buffer := replicate 2 zero_byte\<rparr>"
  have "prepare_content_buffer_read (read_buffer r\<lparr>header_buffer := ?h\<rparr>) = Inr ?m"
    using prepare_content_read_framed [of "message_of ''hi''" "read_buffer r\<lparr>header_buffer := ?h\<rparr>"]
    by (simp add: fits_def numeral_2_eq_2)
  from server_request_header [OF p0 h this, of tiny_asio handle_request] obtain s1 where
    d1: "deliver tiny_asio ?V 0 Success ?h r = Inr s1" and p1: "pending s1 = [Op_Read_Content 2]"
    and m1: "read_buffer s1 = ?m" by auto
  have "handle_request (read_buffer s1\<lparr>content_buffer := ''hi''\<rparr>) (write_buffer s1) (world s1) =
      (set_content_buffer ''hi'' (write_buffer s1), world s1)"
    by (simp add: handle_request_def)
  from server_request_content [where s = s1 and c = "''hi''" and H = handle_request and A = tiny_asio, OF p1 _ _ this] obtain s2 where
    d2: "deliver tiny_asio ?V 0 Success ''hi'' s1 = Inr s2"
    and p2: "pending s2 = [Op_Write_Header (header_buffer (prepare_header_buffer_write (set_content_buffer ''hi'' (write_buffer s1))))]"
    and w2: "write_buffer s2 = prepare_header_buffer_write (set_content_buffer ''hi'' (write_buffer s1))"
    by (auto simp: m1)
  have c2: "content_buffer (write_buffer s2) = ''hi''" by (simp add: w2 set_content_buffer_def)
  have f2: "framed (write_buffer s2)" by (simp add: w2)
  have p2': "pending s2 = [Op_Write_Header ?h]"
    using p2 framed_header [OF f2] by (simp add: w2 [symmetric] c2)
  from server_response_header [OF p2' f2, of tiny_asio handle_request] obtain s3 where
    d3: "deliver tiny_asio ?V 0 Success [] s2 = Inr s3" and p3: "pending s3 = [Op_Write_Content ''hi'']"
    by (auto simp: c2)
  have "session_run tiny_asio ?V ?s0 s1"
  proof (rule run_step, rule run_step, rule run_refl)
    show "session_step tiny_asio ?V ?s0 r"
      by (rule completion [OF _ _ d0]) (simp_all add: server_start_def do_defs new_session_def)
    show "session_step tiny_asio ?V r s1"
      by (rule completion [OF _ _ d1]) (simp_all add: p0 h)
  qed
  moreover have "session_step tiny_asio ?V s1 s2" by (rule completion [OF _ _ d2]) (simp_all add: p1)
  moreover have "session_step tiny_asio ?V s2 s3" by (rule completion [OF _ _ d3]) (simp_all add: p2')
  ultimately show thesis using p1 p2' p3 by (rule that)
qed

lemma server_writes_framed_witness:
  "\<exists>(s :: tiny session_st) (t :: tiny session_st) u.
    pending s = [Op_Write_Header (header_buffer (message_of ''hi''))] \<and>
    pending t = [Op_Write_Content ''hi''] \<and>
    deliver tiny_asio (server_session tiny_asio handle_request) 0 Success [] s = Inr u \<and>
    pending u = [Op_Write_Content (content_buffer (write_buffer s))]"
proof -
  obtain s1 s t :: "tiny session_st" where
    run: "session_run tiny_asio (server_session tiny_asio handle_request) (server_start (new_session 5 (open_world 5))) s1"
      "session_step tiny_asio (server_session tiny_asio handle_request) s1 s"
    and step: "session_step tiny_asio (server_session tiny_asio handle_request) s t"
    and p: "pending s = [Op_Write_Header (header_buffer (message_of ''hi''))]" "pending t = [Op_Write_Content ''hi'']"
    by (rule sample_request)
  from server_writes_framed [OF run_step [OF run] step] p obtain u where
    "deliver tiny_asio (server_session tiny_asio handle_request) 0 Success [] s = Inr u"
    "pending u = [Op_Write_Content (content_buffer (write_buffer s))]" by auto
  with p show ?thesis by blast
qed

text \<open>A server session never waits for a content of ten to the tenth bytes or more, whatever header
  it received: a read of a content is one of fewer bytes, exactly as many as the received header
  declares.\<close>

theorem server_content_bounded:
  assumes "session_run A (server_session A H) (server_start (new_session k w)) s"
    and "Op_Read_Content n \<in> set (pending s)"
  shows "n < 10 ^ 10 \<and> get_header_buffer_content_length (read_buffer s) = Inr (of_nat n) \<and>
    length (content_buffer (read_buffer s)) = n"
  using server_reachable_inv [OF assms(1)] assms(2)
  by (cases "(s, pending s)" rule: server_pending_ok.cases) (auto simp: server_inv_def)

lemma server_content_bounded_witness:
  "\<exists>s :: tiny session_st. Op_Read_Content 2 \<in> set (pending s) \<and>
    ((2::nat) < 10 ^ 10 \<and> get_header_buffer_content_length (read_buffer s) = Inr (of_nat 2) \<and>
    length (content_buffer (read_buffer s)) = 2)"
proof -
  obtain s :: "tiny session_st" where
    "session_run tiny_asio (server_session tiny_asio handle_request) (server_start (new_session 5 (open_world 5))) s"
    and "pending s = [Op_Read_Content 2]"
    by (rule sample_request)
  with server_content_bounded [OF this(1), of 2] show ?thesis by (intro exI [of _ s]) simp
qed

subsection \<open>Faults\<close>

text \<open>C16: A server session never faults, except on the successful read of a header whose length field is
  blank (the uninitialised local variable is used) or reads as a negative number
  (\<open>std::length_error\<close>).\<close>

theorem server_faults_only_on_bad_header:
  assumes "session_run A (server_session A H) (server_start (new_session k w)) s"
    and "i < length (pending s)" and "admissible (pending s ! i) ec d"
    and "deliver A (server_session A H) i ec d s = Inl e"
  shows "ec = Success \<and> pending s = [Op_Read_Header 28] \<and> length d = 28 \<and>
    (list_all is_space (drop 18 d) \<and> e = Indeterminate_Value \<or>
     reads_negative (drop 18 d) \<and> e = Length_Error)"
proof -
  from server_fault_header [OF assms(4) server_reachable_inv [OF assms(1)] assms(2,3)]
  have f: "ec = Success" "pending s = [Op_Read_Header 28]" "length d = 28"
    "prepare_content_buffer_read (read_buffer s\<lparr>header_buffer := d\<rparr>) = Inl e"
    by simp_all
  then show ?thesis
    using prepare_content_read_Inl [of "read_buffer s\<lparr>header_buffer := d\<rparr>" e]
    by (simp add: length_field_def)
qed

lemma ready_header_fault:
  assumes "ready s" and "length h = 28"
    and "prepare_content_buffer_read (read_buffer s\<lparr>header_buffer := h\<rparr>) = Inl e"
  shows "deliver A (server_session A H) 0 Success h s = Inl e"
  using assms
  by (simp add: ready_def deliver_single completed_defs server_on_read_header_def Let_def overlay_full)

lemma ready_negative_fault:
  assumes "ready s" and "length h = 28" and "reads_negative (drop 18 h)"
  shows "deliver A (server_session A H) 0 Success h s = Inl Length_Error"
  by (rule ready_header_fault [OF assms(1,2)])
    (use assms(2,3) in \<open>simp add: prepare_content_read_Inl length_field_def\<close>)

lemma ready_blank_fault:
  assumes "ready s" and "length h = 28" and "list_all is_space (drop 18 h)"
  shows "deliver A (server_session A H) 0 Success h s = Inl Indeterminate_Value"
  by (rule ready_header_fault [OF assms(1,2)])
    (use assms(2,3) in \<open>simp add: prepare_content_read_Inl length_field_def\<close>)

text \<open>C21: Any peer that has passed the handshake ends the server process with one header: when the last
  ten of its 28 bytes read as a negative number, \<open>resize\<close> throws out of the completion handler; when
  they are blank, the size of the buffer is the value of an uninitialised variable.\<close>

theorem hostile_header_crashes_server:
  assumes "ready s" and "length h = 28"
  shows "(reads_negative (drop 18 h) \<longrightarrow>
            deliver A (server_session A H) 0 Success h s = Inl Length_Error) \<and>
         (list_all is_space (drop 18 h) \<longrightarrow>
            deliver A (server_session A H) 0 Success h s = Inl Indeterminate_Value)"
  using ready_negative_fault [OF assms] ready_blank_fault [OF assms] by blast

lemma hostile_header_crashes_server_witness:
  "deliver tiny_asio (server_session tiny_asio handle_request) 0 Success
     ''xxxxxxxxxxxxxxxxxx        -1'' sample_session = Inl Length_Error"
proof -
  have "reads_negative (drop 18 ''xxxxxxxxxxxxxxxxxx        -1'')"
    by (simp add: reads_negative_def is_space_def is_digit_def digits_value_def digit_value_def)
  moreover have "length ''xxxxxxxxxxxxxxxxxx        -1'' = 28" by simp
  ultimately show ?thesis
    using hostile_header_crashes_server [OF ready_sample, of "''xxxxxxxxxxxxxxxxxx        -1''"] by blast
qed

lemma server_faults_only_on_bad_header_witness:
  "\<exists>s d. deliver tiny_asio (server_session tiny_asio handle_request) 0 Success d s = Inl Length_Error \<and>
     (Success = Success \<and> pending s = [Op_Read_Header 28] \<and> length d = 28 \<and>
      (list_all is_space (drop 18 d) \<and> Length_Error = Indeterminate_Value \<or>
       reads_negative (drop 18 d) \<and> Length_Error = Length_Error))"
proof -
  let ?V = "server_session tiny_asio handle_request" and ?h = "''xxxxxxxxxxxxxxxxxx        -1''"
  let ?s0 = "server_start (new_session 5 (open_world 5))"
  obtain s1 where d1: "deliver tiny_asio ?V 0 Success [] ?s0 = Inr s1" and "ready s1"
    by (rule server_handshake [of tiny_asio handle_request 5 "open_world 5"])
  then have p1: "pending s1 = [Op_Read_Header 28]" "length (header_buffer (read_buffer s1)) = 28"
    by (simp_all add: ready_def)
  have "session_step tiny_asio ?V ?s0 s1"
    by (rule completion [OF _ _ d1]) (simp_all add: server_start_def do_defs new_session_def)
  then have run: "session_run tiny_asio ?V ?s0 s1" by (rule run_step [OF run_refl])
  have neg: "reads_negative (drop 18 ?h)"
    by (simp add: reads_negative_def is_space_def is_digit_def digits_value_def digit_value_def)
  have len: "length ?h = 28" by simp
  have "length_field (read_buffer s1\<lparr>header_buffer := ?h\<rparr>) = drop 18 ?h"
    by (rule length_field_update)
  then have "prepare_content_buffer_read (read_buffer s1\<lparr>header_buffer := ?h\<rparr>) = Inl Length_Error"
    using neg prepare_content_read_Inl [of "read_buffer s1\<lparr>header_buffer := ?h\<rparr>" Length_Error] len by simp
  then have fault: "deliver tiny_asio ?V 0 Success ?h s1 = Inl Length_Error"
    using p1 by (simp add: deliver_single completed_defs server_on_read_header_def Let_def overlay_full)
  have ok: "0 < length (pending s1)" "admissible (pending s1 ! 0) Success ?h" by (simp_all add: p1)
  show ?thesis
    by (rule exI [of _ s1], rule exI [of _ ?h], rule conjI [OF fault],
        rule server_faults_only_on_bad_header [OF run ok fault])
qed

subsection \<open>The states of both sessions are well formed\<close>

lemma server_inv_phase: "server_inv s \<Longrightarrow> \<exists>p. phase_of (pending s) = Some p"
  by (cases "(s, pending s)" rule: server_pending_ok.cases) (auto simp: server_inv_def)

lemma client_inv_phase: "client_inv s \<Longrightarrow> \<exists>p. client_phase_of (pending s) = Some p"
  by (cases "(s, pending s)" rule: client_pending_ok.cases) (auto simp: client_inv_def)

text \<open>C17: The states of the sessions are well formed: in every state a server session reaches, and in every
  state a client session reaches whose owner sends and stops while nothing is outstanding, the session
  is in exactly one of its documented phases, a write under way is that of a framed message, a header
  read has the size of a header, and a content read has the size the received header declares, below
  ten to the tenth.\<close>

theorem sessions_well_formed:
  assumes "session_run A (server_session A H) (server_start (new_session k w)) s"
    and "client_reach B R (new_session k' w') t"
  shows "(\<exists>p. phase_of (pending s) = Some p) \<and> server_pending_ok s (pending s) \<and>
    (\<exists>p. client_phase_of (pending t) = Some p) \<and> client_pending_ok t (pending t)"
  using server_reachable_inv [OF assms(1)] client_reach_inv [OF assms(2)]
    server_inv_phase [of s] client_inv_phase [of t]
  by (simp add: server_inv_def client_inv_def)

lemma sessions_well_formed_witness:
  "let s = server_start (new_session 5 (open_world 5)); t = client_start (new_session 6 (open_world 6))
   in (\<exists>p. phase_of (pending s) = Some p) \<and> server_pending_ok s (pending s) \<and>
      (\<exists>p. client_phase_of (pending t) = Some p) \<and> client_pending_ok t (pending t)"
  unfolding Let_def
  by (rule sessions_well_formed [where A = tiny_asio and H = handle_request and B = tiny_asio
        and R = "handle_response []", OF run_refl reach_start]) (simp add: new_session_def)

subsection \<open>Faults of a client session\<close>

text \<open>C18: A client session that is sent on and stopped only while quiet never faults, except on the
  successful read of a response header whose length field is blank or reads as a negative number.\<close>

theorem client_faults_only_on_bad_header:
  assumes "client_reach A R (new_session k w) s"
    and "i < length (pending s)" and "admissible (pending s ! i) ec d"
    and "deliver A (client_session A R) i ec d s = Inl e"
  shows "ec = Success \<and> pending s = [Op_Read_Header 28] \<and> length d = 28 \<and>
    (list_all is_space (drop 18 d) \<and> e = Indeterminate_Value \<or>
     reads_negative (drop 18 d) \<and> e = Length_Error)"
proof -
  from client_fault_header [OF assms(4) client_reach_inv [OF assms(1)] assms(2,3)]
  have f: "ec = Success" "pending s = [Op_Read_Header 28]" "length d = 28"
    "prepare_content_buffer_read (read_buffer s\<lparr>header_buffer := d\<rparr>) = Inl e"
    by simp_all
  then show ?thesis
    using prepare_content_read_Inl [of "read_buffer s\<lparr>header_buffer := d\<rparr>" e]
    by (simp add: length_field_def)
qed

lemma client_reach_deliver:
  assumes "client_reach A R s t" and "pending t = [x]" and "admissible x ec d"
    and "deliver A (client_session A R) 0 ec d t = Inr u"
  shows "client_reach A R s u"
  by (rule reach_step [OF assms(1) completion [OF _ _ assms(4)]]) (simp_all add: assms(2,3))

lemma client_faults_only_on_bad_header_witness:
  "\<exists>s d. deliver tiny_asio (client_session tiny_asio (handle_response [])) 0 Success d s = Inl Length_Error \<and>
     (Success = Success \<and> pending s = [Op_Read_Header 28] \<and> length d = 28 \<and>
      (list_all is_space (drop 18 d) \<and> Length_Error = Indeterminate_Value \<or>
       reads_negative (drop 18 d) \<and> Length_Error = Length_Error))"
proof -
  let ?V = "client_session tiny_asio (handle_response [])" and ?h = "''xxxxxxxxxxxxxxxxxx        -1''"
  let ?c = "new_session 5 (open_world 5)"
  obtain q where q: "deliver tiny_asio ?V 0 Success [] (client_start ?c) = Inr q" "pending q = []"
    by (simp add: client_start_def do_defs deliver_single client_completed_defs
        client_on_secure_handshake_def new_session_def)
  have r0: "client_reach tiny_asio (handle_response []) ?c q"
    by (rule client_reach_deliver [where x = "Op_Handshake Handshake_Client", OF reach_start _ _ q(1)])
      (simp_all add: client_start_def do_defs new_session_def)
  let ?s0 = "client_session_send (message_of ''hi'') q"
  have r1: "client_reach tiny_asio (handle_response []) ?c ?s0" using r0 q(2) by (rule reach_send)
  have p0: "pending ?s0 = [Op_Write_Header (header_buffer (message_of ''hi''))]"
    and w0: "framed (write_buffer ?s0)"
    by (simp_all add: client_session_send_def do_defs Let_def q(2) header_prepare_write)
  obtain s1 bs where d1: "deliver tiny_asio ?V 0 Success [] ?s0 = Inr s1" and p1: "pending s1 = [Op_Write_Content bs]"
    by (rule client_header_written [OF p0 w0, of tiny_asio "handle_response []"]) blast
  obtain s2 where d2: "deliver tiny_asio ?V 0 Success [] s1 = Inr s2" and p2: "pending s2 = [Op_Read_Header 28]"
    and len: "length (header_buffer (read_buffer s2)) = 28"
    by (rule client_content_written [OF p1, of tiny_asio "handle_response []"])
  have "client_reach tiny_asio (handle_response []) ?c s1"
    by (rule client_reach_deliver [OF r1 p0 _ d1]) simp
  then have r2: "client_reach tiny_asio (handle_response []) ?c s2"
    by (rule client_reach_deliver [OF _ p1 _ d2]) simp
  have neg: "reads_negative (drop 18 ?h)"
    by (simp add: reads_negative_def is_space_def is_digit_def digits_value_def digit_value_def)
  have "length_field (read_buffer s2\<lparr>header_buffer := ?h\<rparr>) = drop 18 ?h" by (rule length_field_update)
  then have "prepare_content_buffer_read (read_buffer s2\<lparr>header_buffer := ?h\<rparr>) = Inl Length_Error"
    using neg prepare_content_read_Inl [of "read_buffer s2\<lparr>header_buffer := ?h\<rparr>" Length_Error] by simp
  then have fault: "deliver tiny_asio ?V 0 Success ?h s2 = Inl Length_Error"
    using p2 len by (simp add: deliver_single client_completed_defs client_on_read_header_def Let_def overlay_full)
  have ok: "0 < length (pending s2)" "admissible (pending s2 ! 0) Success ?h" by (simp_all add: p2)
  show ?thesis
    by (rule exI [of _ s2], rule exI [of _ ?h], rule conjI [OF fault],
        rule client_faults_only_on_bad_header [OF r2 ok fault])
qed

end
