(* ===== verification/Running_Properties.thy ===== *)
theory Running_Properties
  imports Running Configuration_Properties Session_Failures Server_Properties
begin

section \<open>Properties of the running program\<close>

text \<open>
  What holds at every moment between the start of the program and its end, and what alone can end it by
  an exception out of a worker thread or out of the command loop.
\<close>

subsection \<open>The sample run\<close>

text \<open>The program on the small host, started, and told to start its server.\<close>

lemma sample_listening:
  obtains C :: config and a0 a :: "tiny app" where
    "launch tiny_libraries tiny_asio good_argv 4 (''server_start'' @ [newline]) tiny_world = ([], Inr (C, a0))"
    and "moment tiny_asio C [] [] a0 a" and "is_listening tiny_asio (server_part a)"
    and "0 < accepts (app_server a)" and "C = program_config tiny_libraries ''127.0.0.1'' 54321"
proof -
  let ?in = "''server_start'' @ [newline]" and ?C = "program_config tiny_libraries ''127.0.0.1'' 54321"
  define s where "s = new_server_at tiny_asio (local_endpoint 54321) handle_request default_cipher_suite tiny_world"
  have s: "new_server tiny_asio ''127.0.0.1'' 54321 handle_request default_cipher_suite tiny_world = Inr s"
    by (simp add: new_server_def s_def local_endpoint_def)
  obtain a0 where a0: "open_app (\<lambda>i. True) 4 ?in s = Inr a0" using open_app_granted by blast
  have fields: "app_server a0 = s" "app_world a0 = srv_world s" "app_in a0 = \<lparr>unread = ''server_start'' @ newline # [], good = True\<rparr>"
    using open_app_Inr [OF a0] by simp_all
  have clients: "run_context_calls tiny_libraries client_context_calls (srv_world s) = Inr ()"
    by (simp add: run_context_calls_Inr list_all_iff)
  let ?start = "a0\<lparr>app_out := []\<rparr>"
  have launched: "launch tiny_libraries tiny_asio good_argv 4 ?in tiny_world = ([], Inr (?C, ?start))"
    by (simp only: launch_def good_arguments prod.case good_config good_settings s clients bind_result.simps
        tiny_libraries_fields a0)
  let ?told = "?start\<lparr>app_in := \<lparr>unread = [], good = True\<rparr>\<rparr>"
  have rd: "read_line [] ?start = (''server_start'', ?told)"
    by (rule read_line_line) (simp_all add: fields newline_def)
  let ?a = "snd (on_server (\<lambda>s. ((), start_server tiny_asio s)) ?told)"
  have ex: "exec_command tiny_asio ?C ''server_start'' ?told = Inr ?a" by (simp add: exec_command_def)
  have m: "moment tiny_asio ?C [] [] ?start ?a"
    by (rule moment_command [OF moment_start rd _ ex]) simp
  have "server_part ?told = s" by (simp add: fields)
  then have part: "app_world ?a = srv_world (start_server tiny_asio s)" "app_server ?a = start_server tiny_asio s"
    by (simp_all add: on_server_def fields)
  have not: "\<not> is_listening tiny_asio s"
    by (simp add: s_def is_listening_def new_server_at_def)
  have "is_listening tiny_asio (start_server tiny_asio s)"
    by (rule start_listens) (simp_all add: tiny_acceptor_laws del: ep_protocol.simps)
  then show thesis by (intro that [OF launched m _ _ refl]) (simp_all add: part not)
qed

definition hostile_header :: bytes where
  "hostile_header = ''xxxxxxxxxxxxxxxxxx        -1''"

lemma hostile_header: "length hostile_header = 28" "reads_negative (drop 18 hostile_header)"
  by (simp_all add: hostile_header_def reads_negative_def is_space_def is_digit_def digits_value_def digit_value_def)

subsection \<open>Safety\<close>

lemma launch_ok:
  assumes "launch L A argv hw input w = (out, Inr (C, a))"
  shows "app_ok a \<and> thread_pool (app_io a) = replicate (unat (default_num_threads hw)) Joinable"
proof -
  from assms obtain s a' where
    s: "new_server A (listen_address C) (listen_port C) handle_request default_cipher_suite w = Inr s"
    and a': "open_app (thread_created L) hw input s = Inr a'" and a: "a = a'\<lparr>app_out := out\<rparr>"
    by (elim launch_Inr) blast
  have "app_ok a'" using open_app_ok [OF a'] new_server_fields [OF s] by blast
  then have "app_ok a" by (rule app_ok_cong) (simp_all add: a)
  then show ?thesis using open_app_Inr [OF a'] by (simp add: a)
qed

lemma moment_io: "moment A C pf pw a0 a \<Longrightarrow> app_io a = app_io a0"
proof (induction rule: moment.induct)
  case (moment_event a b)
  from moment_event(2) have "app_io b = app_io a" by cases simp_all
  with moment_event(3) show ?case by simp
next
  case (moment_command a input a1 b)
  then show ?case using exec_command_io [OF moment_command(4)] read_line_io [OF moment_command(2)] by simp
qed simp

lemma session_ok_sequential:
  "session_ok w x \<Longrightarrow> length (pending x) \<le> 1 \<and> list_all (op_stable (attach x w)) (pending x)"
  using server_inv_sequential [of "attach x w"] by (simp add: session_ok_def sequential_def)

text \<open>C10: At every moment of a run of the program, whatever connects to it, whatever its peers send, whatever
  fails and whatever is typed: its worker threads are running, every session of the server, which
  keeps the handler of the program, has at most one outstanding operation, on memory nobody touches,
  the sessions of the client have only operations of a client outstanding, and those it has let go of
  have work left.\<close>

theorem program_always_safe:
  assumes "launch L A argv hw input w = (out, Inr (C, a0))" and "moment A C pf pw a0 a"
  shows "active (app_io a) \<and>
    thread_pool (app_io a) = replicate (unat (default_num_threads hw)) Joinable \<and>
    srv_handler (app_server a) = handle_request \<and>
    list_all (\<lambda>x. length (pending x) \<le> 1 \<and> list_all (op_stable (attach x (app_world a))) (pending x))
      (sessions (app_server a)) \<and>
    list_all (\<lambda>x. list_all client_op (pending x))
      (detached (app_client a) @ case_option [] (\<lambda>x. [x]) (active_session (app_client a))) \<and>
    list_all (\<lambda>x. pending x \<noteq> []) (detached (app_client a))"
proof -
  from launch_ok [OF assms(1)] have ok: "app_ok a" using moment_ok [OF assms(2)] by blast
  have "thread_pool (app_io a) = replicate (unat (default_num_threads hw)) Joinable"
    using launch_ok [OF assms(1)] moment_io [OF assms(2)] by simp
  moreover have "list_all (\<lambda>x. length (pending x) \<le> 1 \<and> list_all (op_stable (attach x (app_world a))) (pending x))
      (sessions (app_server a))"
    using ok by (auto simp: app_ok_def elim!: list.pred_mono_strong dest: session_ok_sequential)
  moreover have "list_all (\<lambda>x. list_all client_op (pending x))
      (detached (app_client a) @ case_option [] (\<lambda>x. [x]) (active_session (app_client a)))"
    using ok by (auto simp: app_ok_def client_ok_def client_any_def elim!: list.pred_mono_strong split: option.splits)
  moreover have "list_all (\<lambda>x. pending x \<noteq> []) (detached (app_client a))"
    using ok by (auto simp: app_ok_def client_ok_def elim!: list.pred_mono_strong)
  ultimately show ?thesis using ok by (simp add: app_ok_def)
qed

lemma program_always_safe_witness:
  "\<exists>a :: tiny app. is_listening tiny_asio (server_part a) \<and>
    active (app_io a) \<and>
    thread_pool (app_io a) = replicate (unat (default_num_threads 4)) Joinable \<and>
    srv_handler (app_server a) = handle_request \<and>
    list_all (\<lambda>x. length (pending x) \<le> 1 \<and> list_all (op_stable (attach x (app_world a))) (pending x))
      (sessions (app_server a)) \<and>
    list_all (\<lambda>x. list_all client_op (pending x))
      (detached (app_client a) @ case_option [] (\<lambda>x. [x]) (active_session (app_client a))) \<and>
    list_all (\<lambda>x. pending x \<noteq> []) (detached (app_client a))"
proof -
  obtain C :: config and a0 a :: "tiny app" where run:
    "launch tiny_libraries tiny_asio good_argv 4 (''server_start'' @ [newline]) tiny_world = ([], Inr (C, a0))"
    "moment tiny_asio C [] [] a0 a" and l: "is_listening tiny_asio (server_part a)"
    by (rule sample_listening)
  show ?thesis by (rule exI [of _ a], rule conjI [OF l program_always_safe [OF run]])
qed

subsection \<open>What can end it\<close>


text \<open>The connection of a peer that then sends such a header.\<close>

lemma peer_reaches_fault:
  fixes a :: "'h host_scheme app"
  assumes "moment A C pf pw a0 a" and "is_listening A (server_part a)" and "0 < accepts (app_server a)"
    and h: "length h = 28" "reads_negative (drop 18 h)"
  shows "let i = length (sessions (app_server a));
      s = accept_completed A Success sock (server_part a);
      a1 = a\<lparr>app_server := s, app_world := srv_world s\<rparr>
    in app_event A pf pw a a1 \<and> moment A C pf pw a0 a1 \<and> possible (Session_Completes i 0 Success []) a1 \<and>
      (\<exists>a2. happen A C pw (Session_Completes i 0 Success []) a1 = Inr a2 \<and> moment A C pf pw a0 a2 \<and>
         possible (Session_Completes i 0 Success h) a2 \<and>
         happen A C pw (Session_Completes i 0 Success h) a2 = Inl Length_Error)"
proof -
  let ?w = "app_world a" and ?H = "srv_handler (app_server a)" and ?i = "length (sessions (app_server a))"
  define s where "s = accept_completed A Success sock (server_part a)"
  define b1 where "b1 = a\<lparr>app_server := s, app_world := srv_world s\<rparr>"
  have s: "srv_world s = ?w" "srv_handler s = ?H"
    "sessions s = sessions (app_server a) @ [session.truncate (server_start (new_session sock ?w))]"
    using assms(2) by (simp_all add: s_def accept_completed_def is_listening_def Let_def sessions_spawn)
  have e1: "app_event A pf pw a b1"
    unfolding b1_def by (rule run_accept [OF assms(3) s_def [symmetric]])
  have m1: "moment A C pf pw a0 b1" using assms(1) e1 by (rule moment_event)
  obtain t where t: "deliver A (server_session A ?H) 0 Success [] (server_start (new_session sock ?w)) = Inr t"
    and rdy: "ready t" and wt: "world t = ?w"
    by (rule server_handshake [of A ?H sock ?w])
  have w: "world (server_start (new_session sock ?w)) = ?w" by (simp add: server_start_def do_defs new_session_def)
  have att: "attach (session.truncate (server_start (new_session sock ?w))) ?w = server_start (new_session sock ?w)"
    using attach_truncate [of "server_start (new_session sock ?w)", unfolded w] .
  define s2 where "s2 = s\<lparr>sessions := (sessions s)[?i := session.truncate t], srv_world := world t\<rparr>"
  have ev: "session_event A ?i 0 Success [] (server_part b1) = Inr s2"
    using t by (simp add: b1_def s2_def session_event_def s att)
  have p1: "possible (Session_Completes ?i 0 Success []) b1"
    by (simp add: b1_def s server_start_def do_defs new_session_def)
  define b where "b = b1\<lparr>app_server := s2, app_world := srv_world s2\<rparr>"
  have h1: "happen A C pw (Session_Completes ?i 0 Success []) b1 = Inr b" using ev by (simp add: b_def)
  have m2: "moment A C pf pw a0 b" by (rule happen_moment [OF m1 p1 h1]) simp_all
  have att2: "attach (session.truncate t) ?w = t" using attach_truncate [of t, unfolded wt] .
  have "deliver A (server_session A ?H) 0 Success h t = Inl Length_Error"
    using rdy h by (rule ready_negative_fault)
  then have "happen A C pw (Session_Completes ?i 0 Success h) b = Inl Length_Error"
    by (simp add: b_def b1_def s2_def s wt att2 session_event_def)
  moreover have "possible (Session_Completes ?i 0 Success h) b"
    using rdy h(1) by (simp add: b_def b1_def s2_def s ready_def)
  ultimately show ?thesis
    using e1 m1 p1 h1 m2 unfolding Let_def b1_def s_def by blast
qed


text \<open>C22: While the server listens with an accept outstanding, whatever else is going on, any peer ends the
  program in three completions and nothing else: the accept completes with its connection, the handshake
  of the session that was added for it completes, and so does the read of its 28 bytes, of which the last
  ten read as a negative number. The states before the last are moments of the run, and it ends in
  \<open>std::length_error\<close>.\<close>

theorem peer_ends_program:
  fixes a :: "'h host_scheme app"
  assumes "moment A C pf pw a0 a" and "is_listening A (server_part a)" and "0 < accepts (app_server a)"
    and "length h = 28" and "reads_negative (drop 18 h)"
  shows "let i = length (sessions (app_server a));
      s = accept_completed A Success sock (server_part a);
      a1 = a\<lparr>app_server := s, app_world := srv_world s\<rparr>
    in app_event A pf pw a a1 \<and> moment A C pf pw a0 a1 \<and> possible (Session_Completes i 0 Success []) a1 \<and>
      (\<exists>a2. happen A C pw (Session_Completes i 0 Success []) a1 = Inr a2 \<and> moment A C pf pw a0 a2 \<and>
         possible (Session_Completes i 0 Success h) a2 \<and>
         happen A C pw (Session_Completes i 0 Success h) a2 = Inl Length_Error)"
  using assms by (rule peer_reaches_fault)

lemma peer_ends_program_witness:
  "\<exists>C a0 (a :: tiny app). moment tiny_asio C [] [] a0 a \<and>
    (let i = length (sessions (app_server a));
      s = accept_completed tiny_asio Success 7 (server_part a);
      a1 = a\<lparr>app_server := s, app_world := srv_world s\<rparr>
    in app_event tiny_asio [] [] a a1 \<and> moment tiny_asio C [] [] a0 a1 \<and>
      possible (Session_Completes i 0 Success []) a1 \<and>
      (\<exists>a2. happen tiny_asio C [] (Session_Completes i 0 Success []) a1 = Inr a2 \<and>
         moment tiny_asio C [] [] a0 a2 \<and> possible (Session_Completes i 0 Success hostile_header) a2 \<and>
         happen tiny_asio C [] (Session_Completes i 0 Success hostile_header) a2 = Inl Length_Error))"
proof -
  obtain C :: config and a0 a :: "tiny app" where
    m: "moment tiny_asio C [] [] a0 a" "is_listening tiny_asio (server_part a)" "0 < accepts (app_server a)"
    by (rule sample_listening)
  from peer_ends_program [where pw = "[]" and sock = 7, OF m hostile_header] m(1) show ?thesis by blast
qed

end
