(* ===== verification/Serving_Properties.thy ===== *)
theory Serving_Properties
  imports Serving Running_Properties Network_Properties
begin

section \<open>What the program does for the clients it serves\<close>

text \<open>
  The program as a whole, from its command line on, and clients elsewhere: what they are told while
  it runs, whatever else it does.
\<close>

lemma launch_serves:
  assumes "launch L A argv hw input w = (out, Inr (C, a0))"
  shows "app_ok a0" and "sessions (app_server a0) = []"
proof -
  show "app_ok a0" using launch_ok [OF assms] by simp
  from assms obtain s a where s: "new_server A (listen_address C) (listen_port C) handle_request default_cipher_suite w = Inr s"
    and a: "open_app (thread_created L) hw input s = Inr a" "a0 = a\<lparr>app_out := out\<rparr>"
    by (elim launch_Inr) blast
  show "sessions (app_server a0) = []" using new_server_fields [OF s] open_app_Inr [OF a(1)] a(2) by simp
qed

text \<open>C4: While the program runs, from its command line on, whatever is typed on its console, whatever its own
  client does, whatever other peers send, and whatever fails: it has called its handler on a beginning
  of what each client sent, each message whole, in order and once; the client has been told exactly
  its own messages, in order and once, at most the last missing, and none missing when it is quiet
  and has neither failed nor been stopped.\<close>

theorem program_echoes:
  assumes "launch L A argv hw input w = (out, Inr (C, a0))" and "serving_run A C pf pw G R a0 N"
    and "i < length (guests N)" and "guests N ! i = Some p"
    and "socket_calls_keep G g" and "sees_only g (R i)"
  shows "moment A C pf pw a0 (program N) \<and>
    map fst (calls_made p) = take (length (calls_made p)) (sent p) \<and>
    (\<exists>j. j \<le> length (sent p) \<and> length (sent p) \<le> Suc j \<and>
       (client_runs p \<and> pending (peer_end p) = [] \<longrightarrow> j = length (sent p)) \<and>
       g (world (peer_end p)) = g (told (R i) (take j (sent p)) (came_in p)))"
proof -
  have ok: "serving_ok A C pf pw G R a0 N"
    by (rule serving_run_ok [OF assms(2) launch_serves [OF assms(1)]])
  then have members: "members_ok G R A handle_request (server_part (program N)) (guests N)"
    and m: "moment A C pf pw a0 (program N)"
    by (simp_all add: serving_ok_def)
  let ?es = "calls_made p"
  note told = member_told [OF echo_handler.fitting_handler_axioms members assms(3-6), unfolded replies_echo]
  then obtain j where es: "map fst ?es = take (length ?es) (sent p)" and j: "j \<le> length ?es" "length (sent p) \<le> Suc j"
    "client_runs p \<and> pending (peer_end p) = [] \<longrightarrow> j = length (sent p)"
    "g (world (peer_end p)) = g (told (R i) (take j (map fst ?es)) (came_in p))"
    by blast
  have "length ?es \<le> length (sent p)" using arg_cong [OF es, of length] by simp
  with j have "j \<le> length (sent p)" "take j (map fst ?es) = take j (sent p)" by (simp_all add: es)
  with j m es show ?thesis by metis
qed

text \<open>The program is started and told to listen, and a client comes.\<close>

lemma sample_guest_comes:
  obtains C a0 i and w :: tiny and N :: "(tiny, unit tiny_ext) serving" where
    "launch tiny_libraries tiny_asio good_argv 4 (''server_start'' @ [newline]) tiny_world = ([], Inr (C, a0))"
    and "serving_run tiny_asio C [] [] tiny_asio (\<lambda>i. handle_response []) a0 N"
    and "i < length (guests N)" and "guests N ! i = Some sample_member"
    and "sessions (server_part (program N)) ! i = session.truncate (server_start (new_session 7 w))"
proof -
  let ?R = "\<lambda>i::nat. handle_response [] :: tiny response_handler"
  obtain C and a0 a :: "tiny app" where
    l: "launch tiny_libraries tiny_asio good_argv 4 (''server_start'' @ [newline]) tiny_world = ([], Inr (C, a0))"
    and m: "moment tiny_asio C [] [] a0 a" and up: "is_listening tiny_asio (server_part a)" "0 < accepts (app_server a)"
    by (rule sample_listening)
  note a0 = launch_serves [OF l]
  let ?n = "length (sessions (app_server a))" and ?s = "accept_completed tiny_asio Success 7 (server_part a)"
  let ?M = "\<lparr>program = a\<lparr>app_server := ?s, app_world := srv_world ?s\<rparr>,
      guests = replicate ?n None @ [Some sample_member]\<rparr> :: (tiny, unit tiny_ext) serving"
  have "serving_run tiny_asio C [] [] tiny_asio ?R a0 \<lparr>program = a, guests = replicate ?n None\<rparr>"
    using m a0(2) by (rule moment_serves)
  moreover have "serving_step tiny_asio C [] [] tiny_asio ?R \<lparr>program = a, guests = replicate ?n None\<rparr> ?M"
    using guest_comes [where N = "\<lparr>program = a, guests = replicate ?n None\<rparr>" and R = ?R and G = tiny_asio and h = 6 and v = "open_world 6",
        OF _ up(2,1) refl]
    by (simp add: sample_member_def)
  ultimately have run: "serving_run tiny_asio C [] [] tiny_asio ?R a0 ?M" by (rule serving_next)
  have "sessions (server_part (program ?M)) ! ?n = session.truncate (server_start (new_session 7 (app_world a)))"
    using up(1) by (simp add: accept_completed_fields nth_append)
  with l run show thesis by (intro that [of C a0 ?M ?n "app_world a"]) (simp_all add: nth_append)
qed

text \<open>Whatever its connection can do it does.\<close>

lemma sample_guest_does:
  assumes "launch tiny_libraries tiny_asio good_argv 4 (''server_start'' @ [newline]) tiny_world = ([], Inr (C, a0))"
    and "serving_run tiny_asio C [] [] tiny_asio (\<lambda>i. handle_response []) a0 N"
    and "i < length (guests N)" and "guests N ! i = Some sample_member"
    and "abrupt_run tiny_asio (handle_response []) tiny_asio handle_request
      (member_view (server_part (program N)) i sample_member) l"
  obtains N' and p :: "(tiny, tiny) member" where "serving_run tiny_asio C [] [] tiny_asio (\<lambda>i. handle_response []) a0 N'"
    and "i < length (guests N')" and "guests N' ! i = Some p" and "came_in p = open_world 6"
    and "sent p = asked (net l)" and "peer_end p = client_end (net l)" and "client_runs p = client_up l"
    and "session_runs p = server_up l"
proof -
  have "guest_at N i sample_member (member_view (server_part (program N)) i sample_member)"
    using assms(3,4) by (simp add: guest_at_def)
  from guest_does [where R = "\<lambda>i. handle_response []", OF assms(5,2) launch_serves [OF assms(1)] this]
  obtain N' p where N': "serving_run tiny_asio C [] [] tiny_asio (\<lambda>i. handle_response []) a0 N'"
    "i < length (guests N')" "guests N' ! i = Some p" "member_view (server_part (program N')) i p = l"
    "came_in p = came_in sample_member"
    by (auto simp: guest_at_def)
  have "sent p = asked (net l)" "peer_end p = client_end (net l)" "client_runs p = client_up l" "session_runs p = server_up l"
    unfolding N'(4) [symmetric] by (simp_all add: member_view_def)
  with N' show thesis by (intro that [of N' p]) (simp_all add: sample_member_def new_member_def)
qed

lemma program_echoes_witness:
  "\<exists>C a0 (N :: (tiny, unit tiny_ext) serving) i p.
    launch tiny_libraries tiny_asio good_argv 4 (''server_start'' @ [newline]) tiny_world = ([], Inr (C, a0)) \<and>
    guests N ! i = Some p \<and> sent p = [''hi''] \<and> moment tiny_asio C [] [] a0 (program N) \<and>
    screen (world (peer_end p)) = screen (handle_response [] (message_of ''hi'') (open_world 6))"
proof -
  obtain C a0 and N :: "(tiny, unit tiny_ext) serving" and i p where
    l: "launch tiny_libraries tiny_asio good_argv 4 (''server_start'' @ [newline]) tiny_world = ([], Inr (C, a0))"
    and N: "serving_run tiny_asio C [] [] tiny_asio (\<lambda>i. handle_response []) a0 N" "i < length (guests N)" "guests N ! i = Some p"
    and p: "sent p = [''hi'']" "came_in p = open_world 6" "client_runs p" "pending (peer_end p) = []"
  proof (rule sample_guest_comes)
    fix C a0 i and w :: tiny and N :: "(tiny, unit tiny_ext) serving"
    assume l: "launch tiny_libraries tiny_asio good_argv 4 (''server_start'' @ [newline]) tiny_world = ([], Inr (C, a0))"
      and N: "serving_run tiny_asio C [] [] tiny_asio (\<lambda>i. handle_response []) a0 N"
      "i < length (guests N)" "guests N ! i = Some sample_member"
      and fresh: "sessions (server_part (program N)) ! i = session.truncate (server_start (new_session 7 w))"
    obtain k where k: "abrupt_run tiny_asio (handle_response []) tiny_asio handle_request
        (member_view (server_part (program N)) i sample_member) k"
      "client_up k" "pending (client_end (net k)) = []" "asked (net k) = [''hi'']"
      by (rule sample_member_exchange [OF fresh])
    from sample_guest_does [OF l N k(1)] show thesis using l k(2-4) that by metis
  qed
  from program_echoes [OF l N tiny_keeps_files handle_response_sees] p
  have "moment tiny_asio C [] [] a0 (program N)"
    "screen (world (peer_end p)) = screen (handle_response [] (message_of ''hi'') (open_world 6))"
    by (auto simp: told_def)
  with l N(3) p(1) show ?thesis by blast
qed

text \<open>C5: No client ever waits in vain for want of a way on: whatever has happened to the program so far, as
  long as neither end of a client's connection has failed or been stopped, steps that are nothing but
  successful completions of operations outstanding at the two ends of that connection lead to where the
  handler has been called on everything the client sent and the client has been told all of it. No
  command, no other session and no failure takes part, and the other clients stay as they are.\<close>

theorem program_can_answer:
  assumes "launch L A argv hw input w = (out, Inr (C, a0))" and "serving_run A C pf pw G R a0 N"
    and "i < length (guests N)" and "guests N ! i = Some p"
    and "socket_calls_keep G g" and "sees_only g (R i)"
    and "client_runs p" and "session_runs p"
  shows "\<exists>N' q. (guest_completes A G R i)\<^sup>*\<^sup>* N N' \<and> serving_run A C pf pw G R a0 N' \<and>
    guests N' = (guests N)[i := Some q] \<and>
    client_runs q \<and> session_runs q \<and> pending (peer_end q) = [] \<and>
    sent q = sent p \<and> map fst (calls_made q) = sent p \<and>
    g (world (peer_end q)) = g (told (R i) (sent p) (came_in p))"
proof -
  note a0 = launch_serves [OF assms(1)]
  have members: "members_ok G R A handle_request (server_part (program N)) (guests N)"
    using serving_run_ok [OF assms(2) a0] by (simp add: serving_ok_def)
  obtain l where run: "(completes G (R i) A handle_request)\<^sup>*\<^sup>* (member_view (server_part (program N)) i p) l"
    and l: "client_up l" "server_up l" "pending (client_end (net l)) = []" "asked (net l) = sent p"
    by (rule member_quiet [OF echo_handler.fitting_handler_axioms members assms(3-8)])
  have "guest_at N i p (member_view (server_part (program N)) i p)" using assms(3,4) by (simp add: guest_at_def)
  from guest_can_complete [OF run assms(2) a0 this]
  obtain N' q where steps: "(guest_completes A G R i)\<^sup>*\<^sup>* N N'" "serving_run A C pf pw G R a0 N'"
    and q: "guests N' = (guests N)[i := Some q]" "came_in q = came_in p"
    and view: "member_view (server_part (program N')) i q = l"
    by (auto simp: guest_at_def)
  have up: "client_runs q" "session_runs q" "pending (peer_end q) = []" "sent q = sent p"
    using l unfolding view [symmetric] by (simp_all add: member_view_def)
  have "serving_ok A C pf pw G R a0 N'" by (rule serving_run_ok [OF steps(2) a0])
  then have "members_ok G R A handle_request (server_part (program N')) (guests N')" by (simp add: serving_ok_def)
  from member_told [OF echo_handler.fitting_handler_axioms this _ _ assms(5,6), unfolded replies_echo] q assms(3) up
  have "map fst (calls_made q) = sent p" "g (world (peer_end q)) = g (told (R i) (sent p) (came_in p))"
    by (auto simp: q(2))
  with steps q(1) up show ?thesis by blast
qed

text \<open>The client has connected and sent a message, and nothing of it has arrived yet.\<close>

lemma program_can_answer_witness:
  "\<exists>C a0 (N :: (tiny, unit tiny_ext) serving) N' q i.
    launch tiny_libraries tiny_asio good_argv 4 (''server_start'' @ [newline]) tiny_world = ([], Inr (C, a0)) \<and>
    (guest_completes tiny_asio tiny_asio (\<lambda>i. handle_response []) i)\<^sup>*\<^sup>* N N' \<and>
    guests N' ! i = Some q \<and> map fst (calls_made q) = [''hi''] \<and>
    screen (world (peer_end q)) = screen (handle_response [] (message_of ''hi'') (open_world 6))"
proof -
  obtain C a0 i and w :: tiny and N :: "(tiny, unit tiny_ext) serving" where
    l: "launch tiny_libraries tiny_asio good_argv 4 (''server_start'' @ [newline]) tiny_world = ([], Inr (C, a0))"
    and N: "serving_run tiny_asio C [] [] tiny_asio (\<lambda>i. handle_response []) a0 N"
      "i < length (guests N)" "guests N ! i = Some sample_member"
    by (rule sample_guest_comes)
  let ?l = "member_view (server_part (program N)) i sample_member"
  obtain k where s1: "abrupt_step tiny_asio (handle_response []) tiny_asio handle_request ?l (?l\<lparr>net := (net ?l)\<lparr>client_end := k\<rparr>\<rparr>)"
    and k: "pending k = []" "client_up ?l" "asked (net ?l) = []"
    by (rule sample_member_handshake [where V = "handle_response []" and s = "server_part (program N)" and i = i])
  let ?l1 = "?l\<lparr>net := (net ?l)\<lparr>client_end := k\<rparr>\<rparr>"
  let ?l2 = "?l1\<lparr>net := link_send (message_of ''hi'') (net ?l1)\<rparr>"
  have "abrupt_step tiny_asio (handle_response []) tiny_asio handle_request ?l1 ?l2"
    by (rule abrupt_send) (use k in \<open>simp_all add: fits_def\<close>)
  from sample_guest_does [OF l N abrupt_next [OF abrupt_next [OF abrupt_refl s1] this]]
  obtain M and p :: "(tiny, tiny) member" where M: "serving_run tiny_asio C [] [] tiny_asio (\<lambda>i. handle_response []) a0 M"
    "i < length (guests M)" "guests M ! i = Some p"
    and p: "came_in p = open_world 6" "sent p = asked (net ?l2)" "client_runs p = client_up ?l2"
    "session_runs p = server_up ?l2" .
  have "sent p = [''hi'']" "client_runs p" "session_runs p"
    using p k by (simp_all add: link_send_def member_view_def sample_member_def new_member_def)
  with program_can_answer [OF l M tiny_keeps_files handle_response_sees] p(1) M(2)
  obtain N' q where "(guest_completes tiny_asio tiny_asio (\<lambda>i. handle_response []) i)\<^sup>*\<^sup>* M N'"
    "guests N' ! i = Some q" "map fst (calls_made q) = [''hi'']"
    "screen (world (peer_end q)) = screen (handle_response [] (message_of ''hi'') (open_world 6))"
    by (auto simp: told_def)
  with l show ?thesis
    by (intro exI [of _ C] exI [of _ a0] exI [of _ M] exI [of _ N'] exI [of _ q] exI [of _ i] conjI)
qed

end
