(* ===== verification/Session_Discipline.thy ===== *)
theory Session_Discipline
  imports Sample_Session
begin

section \<open>Sequences and outstanding operations of the sessions\<close>

text \<open>
  The second group of statements about the sessions: the two sequences \<open>session.hpp\<close> documents, one
  outstanding operation at a time on memory nobody touches, and what a second send does to it.
\<close>

subsection \<open>The documented sequences\<close>

text \<open>C14: Whatever the outcomes of its operations, a server session goes through the documented
  sequence and no other: handshake, request header, request content, response header, response
  content and back to waiting; a failed transfer leads to the shutdown, a failed handshake and a
  cancelled operation end the session.\<close>

theorem server_follows_sequence:
  assumes "deliver_all A (server_session A H) es (server_start (new_session k w)) = Inr s"
  shows "phase_of (pending s) = Some (fold (\<lambda>(ec, d) p. phase_next p ec) es Handshaking)"
  using assms
  by (rule server_run_phase [rotated]) (simp add: server_start_def do_defs new_session_def)

lemma server_follows_sequence_witness:
  "\<exists>s. deliver_all tiny_asio (server_session tiny_asio handle_request) [(Success, []), (Eof, [])]
      (server_start (new_session 5 (open_world 5))) = Inr s \<and> phase_of (pending s) = Some Shutting_Down"
proof -
  obtain s where s: "deliver_all tiny_asio (server_session tiny_asio handle_request) [(Success, []), (Eof, [])]
      (server_start (new_session 5 (open_world 5))) = Inr s"
    by (simp add: server_start_def do_defs new_session_def deliver_single completed_defs
        server_on_secure_handshake_def Let_def)
  show ?thesis using server_follows_sequence [OF s] s by (simp add: transfer_next_def)
qed

text \<open>C15: A client session on which the owner called \<open>start\<close> or, while nothing was outstanding, \<open>send\<close>,
  goes through the documented sequence: request header, request content, response header, response
  content, and then waits for the next send, with the same ways out.\<close>

theorem client_follows_sequence:
  assumes "t = client_start (new_session k w) \<and> p = C_Handshaking \<or>
      (\<exists>u m. pending u = [] \<and> t = client_session_send m u) \<and> p = C_Writing_Header"
    and "deliver_all A (client_session A R) es t = Inr s"
  shows "client_phase_of (pending s) = Some (fold (\<lambda>(ec, d) p. client_phase_next p ec) es p)"
proof -
  have "client_phase_of (pending t) = Some p"
    using assms(1) by (auto simp: client_start_def client_session_send_def do_defs new_session_def)
  then show ?thesis using assms(2) by (rule client_run_phase)
qed

lemma client_follows_sequence_witness:
  "\<exists>s. deliver_all tiny_asio (client_session tiny_asio (\<lambda>m w. w)) request_write_events
      (client_session_send (message_of ''hi'') (new_session 5 (open_world 5))) = Inr s \<and>
    client_phase_of (pending s) = Some C_Awaiting_Header"
proof -
  have idle: "pending (new_session 5 (open_world 5)) = []" by (simp add: new_session_def)
  obtain s where s: "deliver_all tiny_asio (client_session tiny_asio (\<lambda>m w. w)) request_write_events
      (client_session_send (message_of ''hi'') (new_session 5 (open_world 5))) = Inr s"
    by (rule client_request [OF idle, of tiny_asio "\<lambda>m w. w" "message_of ''hi''"])
  have "client_phase_of (pending s) =
      Some (fold (\<lambda>(ec, d) p. client_phase_next p ec) request_write_events C_Writing_Header)"
    using client_follows_sequence [OF _ s] idle by blast
  then show ?thesis using s by (simp add: request_write_events_def client_transfer_next_def)
qed

subsection \<open>One operation at a time\<close>

text \<open>C13: In every state a server session reaches, under any completions with any error codes and any
  received bytes, at most one operation is outstanding, and the buffer it was issued on still has
  the size, and for a write the contents, it was issued with.\<close>

theorem server_one_operation:
  assumes "session_run A (server_session A H) (server_start (new_session k w)) s"
  shows "length (pending s) \<le> 1 \<and> list_all (op_stable s) (pending s)"
proof -
  have "sequential (server_start (new_session k w))"
    by (simp add: server_start_def sequential_issue_do new_session_def)
  with assms have "sequential s" by (rule server_hooks.sequential.run_keeps)
  then show ?thesis by (simp add: sequential_def)
qed

lemma server_one_operation_witness:
  "length (pending (server_start (new_session 5 (open_world 5)))) \<le> 1 \<and>
    list_all (op_stable (server_start (new_session 5 (open_world 5)))) (pending (server_start (new_session 5 (open_world 5))))"
  by (rule server_one_operation [where A = tiny_asio and H = handle_request]) (rule run_refl)

text \<open>A client session whose owner calls \<open>send\<close> and \<open>stop\<close> only while nothing is outstanding keeps
  to one outstanding operation at a time on memory nobody touches, in every state it reaches.\<close>

theorem client_one_operation:
  assumes "client_reach A R (new_session k w) s"
  shows "length (pending s) \<le> 1 \<and> list_all (op_stable s) (pending s)"
  using client_reach_sequential [OF assms] by (simp add: sequential_def)

lemma client_one_operation_witness:
  "length (pending (client_start (new_session 5 (open_world 5)))) \<le> 1 \<and>
    list_all (op_stable (client_start (new_session 5 (open_world 5)))) (pending (client_start (new_session 5 (open_world 5))))"
  by (rule client_one_operation [where A = tiny_asio and R = "\<lambda>m w. w"], rule reach_start)
    (simp add: new_session_def)

text \<open>C25: \<open>send\<close> does not look at what is outstanding: a second \<open>send\<close> with a content of another length
  before the first header is written leaves two writes outstanding, the memory of the first has
  changed under it, and even when all writes succeed in order the content of the first message is
  never sent while that of the second is sent twice.\<close>

theorem overlapping_sends:
  assumes "pending s = []" and "fits (content_buffer m1)" and "fits (content_buffer m2)"
    and "length (content_buffer m1) \<noteq> length (content_buffer m2)"
  shows "let t = client_session_send m2 (client_session_send m1 s);
             h1 = header_buffer (message_of (content_buffer m1));
             h2 = header_buffer (message_of (content_buffer m2))
    in pending t = [Op_Write_Header h1, Op_Write_Header h2] \<and> \<not> op_stable t (Op_Write_Header h1) \<and>
       emitted A (client_session A R) (replicate 4 (Success, [])) t =
         h1 @ h2 @ content_buffer m2 @ content_buffer m2"
proof -
  let ?m2 = "prepare_header_buffer_write m2"
  let ?h1 = "header_buffer (message_of (content_buffer m1))"
  let ?h2 = "header_buffer (message_of (content_buffer m2))"
  let ?t = "client_session_send m2 (client_session_send m1 s)"
  have h: "header_buffer (prepare_header_buffer_write m) = header_buffer (message_of (content_buffer m))" for m
    by (simp add: prepare_header_buffer_write_def message_of_def set_content_buffer_def)
  have p: "pending ?t = [Op_Write_Header ?h1, Op_Write_Header ?h2]"
    using assms(1) by (simp add: client_session_send_def do_defs h)
  have w: "write_buffer ?t = ?m2" by (simp add: client_session_send_def do_defs)
  have "?h1 \<noteq> ?h2"
  proof
    assume "?h1 = ?h2"
    then have "get_header_buffer_content_length (message_of (content_buffer m1)) =
        get_header_buffer_content_length (message_of (content_buffer m2))"
      by (simp add: get_header_buffer_content_length_def)
    then have "(of_nat (length (content_buffer m1)) :: size_t) = of_nat (length (content_buffer m2))"
      using assms(2,3) by (simp add: get_length_framed)
    then have "unat (of_nat (length (content_buffer m1)) :: size_t) =
        unat (of_nat (length (content_buffer m2)) :: size_t)" by simp
    with assms(2-4) show False by (simp add: unat_of_nat_small fits_def)
  qed
  then have "\<not> op_stable ?t (Op_Write_Header ?h1)" using w by (simp add: h)
  moreover have "emitted A (client_session A R) (replicate 4 (Success, [])) ?t =
      ?h1 @ ?h2 @ content_buffer m2 @ content_buffer m2"
    using p w by (simp add: numeral_eq_Suc deliver_def client_completed_defs client_on_write_header_def
        client_on_write_content_def Let_def prepare_content_write_framed do_defs)
  ultimately show ?thesis using p by (simp add: Let_def)
qed

lemma overlapping_sends_witness:
  "let t = client_session_send (message_of ''hello'') (client_session_send (message_of ''hi'') (new_session 5 (open_world 5)));
       h1 = header_buffer (message_of (content_buffer (message_of ''hi'')));
       h2 = header_buffer (message_of (content_buffer (message_of ''hello'')))
    in pending t = [Op_Write_Header h1, Op_Write_Header h2] \<and> \<not> op_stable t (Op_Write_Header h1) \<and>
       emitted tiny_asio (client_session tiny_asio (\<lambda>m w. w)) (replicate 4 (Success, [])) t =
         h1 @ h2 @ content_buffer (message_of ''hello'') @ content_buffer (message_of ''hello'')"
  by (rule overlapping_sends) (simp_all add: new_session_def, simp_all add: fits_def)

end
