(* ===== verification/Client_Ending.thy ===== *)
theory Client_Ending
  imports Client_Steps
begin

section \<open>How a stopped client session ends\<close>

text \<open>
  From any state a client session can be in, however many sends overlap, to its end after a stop: the
  operations that are outstanding may complete in any order and with any error codes, a transfer the
  stop did not cancel in time goes on with the exchange, and one that fails issues a further shutdown.
  The lemmas give the work that is left at every moment, and that the socket is closed when there is none.
\<close>

text \<open>An upper bound on the completions an outstanding operation leads to, its own included.\<close>

fun op_work :: "async_op \<Rightarrow> nat" where
  "op_work (Op_Write_Header _) = 5"
| "op_work (Op_Write_Content _) = 4"
| "op_work (Op_Read_Header _) = 3"
| "op_work (Op_Read_Content _) = 2"
| "op_work _ = 1"

definition work_left :: "'a session_scheme \<Rightarrow> nat" where
  "work_left s = sum_list (map op_work (pending s))"

text \<open>
  What the library documents of \<open>close\<close>, that the descriptor is closed even if an error is reported; and
  neither a cancellation nor the response handler opens a socket.
\<close>

definition stays_closed :: "'w asio \<Rightarrow> 'w response_handler \<Rightarrow> bool" where
  "stays_closed A R \<longleftrightarrow>
     (\<forall>h w. \<not> socket_is_open A h (snd (socket_close A h w))) \<and>
     (\<forall>h w. \<not> socket_is_open A h w \<longrightarrow> \<not> socket_is_open A h (snd (socket_cancel A h w))) \<and>
     (\<forall>h m w. \<not> socket_is_open A h w \<longrightarrow> \<not> socket_is_open A h (R m w))"

lemma stays_closedD:
  assumes "stays_closed A R"
  shows "\<not> socket_is_open A h (snd (socket_close A h w))"
    and "\<not> socket_is_open A h w \<Longrightarrow> \<not> socket_is_open A h (snd (socket_cancel A h w))"
    and "\<not> socket_is_open A h w \<Longrightarrow> \<not> socket_is_open A h (R m w)"
  using assms unfolding stays_closed_def by blast+

text \<open>
  \<open>brings A x k t\<close>: a completion of \<open>x\<close> leads from \<open>k\<close> to \<open>t\<close>, which has only operations of less work
  outstanding beside those of \<open>k\<close>, and whose socket is closed if that of \<open>k\<close> was.
\<close>

definition brings :: "'w asio \<Rightarrow> async_op \<Rightarrow> 'w session_st \<Rightarrow> 'w session_st \<Rightarrow> bool" where
  "brings A x k t \<longleftrightarrow> socket t = socket k \<and>
     (\<exists>xs. pending t = pending k @ xs \<and> sum_list (map op_work xs) < op_work x) \<and>
     (is_alive A t \<longrightarrow> is_alive A k)"

lemma brings_same:
  "socket t = socket k \<Longrightarrow> pending t = pending k @ xs \<Longrightarrow> sum_list (map op_work xs) < op_work x \<Longrightarrow>
   (is_alive A t \<Longrightarrow> is_alive A k) \<Longrightarrow> brings A x k t"
  by (auto simp: brings_def)

lemma close_brings:
  assumes "do_close_socket A (client_on_close_socket A) s = Inr t" and "stays_closed A R"
  shows "pending t = pending s" and "socket t = socket s" and "\<not> is_alive A t"
  using client_close.close_world [OF assms(1)] client_close.close_pending [OF assms(1)] stays_closedD(1) [OF assms(2)]
  by (simp_all add: is_alive_def)

lemma op_work_pos: "0 < op_work x"
  by (cases x) simp_all

lemma complete_brings:
  assumes "complete A (client_session A R) x ec k = Inr t" and "client_op x" and "stays_closed A R"
  shows "brings A x k t \<and> (x = Op_Shutdown \<longrightarrow> \<not> is_alive A t)"
proof (cases "x = Op_Shutdown \<or> (\<exists>h. x = Op_Handshake h)")
  case True
  with assms(1) consider s where "do_close_socket A (client_on_close_socket A) s = Inr t" "pending s = pending k" "socket s = socket k"
    | "t = k \<or> t = debug A ''CLIENT | secure handshake OK'' [] k" "x \<noteq> Op_Shutdown"
    by (auto simp: client_completed_defs client_on_secure_handshake_def client_on_shutdown_secure_stream_def
        split: if_splits)
  then show ?thesis
  proof cases
    case 1
    from close_brings [OF 1(1) assms(3)] 1(2,3) op_work_pos show ?thesis by (simp add: brings_def)
  next
    case 2
    with op_work_pos show ?thesis by (auto simp: brings_def is_alive_def)
  qed
next
  case False
  with assms(2) have tr: "is_transfer x" by (cases x) simp_all
  have "brings A x k t"
  proof (cases "ec = Success")
    case True
    have keeps: "socket_is_open A h (R m w) \<Longrightarrow> socket_is_open A h w" for h m w
      using stays_closedD(3) [OF assms(3)] by blast
    with True assms(1) tr show ?thesis
      by (cases x) (auto simp: client_completed_defs client_on_write_header_def client_on_write_content_def
          client_on_read_header_def client_on_read_content_def do_defs Let_def bind_result_conv is_alive_def brings_def)
  next
    case failed: False
    show ?thesis
    proof (cases "ec = Operation_Aborted")
      case True
      with assms(1) tr op_work_pos show ?thesis by (simp add: complete_aborted brings_def)
    next
      case False
      obtain s where "complete A (client_session A R) x ec k = Inr (stop A s)" "pending s = pending k"
        "socket s = socket k" "world s = world k"
        by (rule complete_failed [OF tr failed False, of A "client_session A R" k])
      moreover have "1 < op_work x" using tr by (cases x) simp_all
      ultimately show ?thesis
        using assms(1) stays_closedD(2) [OF assms(3)] by (auto simp: brings_def is_alive_def)
    qed
  qed
  with False show ?thesis by simp
qed

text \<open>After a stop a shutdown is outstanding, or the socket is closed.\<close>

definition ending :: "'w asio \<Rightarrow> 'w session_st \<Rightarrow> bool" where
  "ending A s \<longleftrightarrow> client_any s \<and> (Op_Shutdown \<in> set (pending s) \<or> \<not> is_alive A s)"

lemma ending_stop: "client_any s \<Longrightarrow> ending A (stop A s)"
  by (simp add: ending_def)

lemma ending_step:
  assumes "session_step A (client_session A R) s t" and "ending A s" and "stays_closed A R"
  shows "ending A t \<and> work_left t < work_left s"
proof -
  from assms(1) obtain i ec d where i: "i < length (pending s)" and step: "deliver A (client_session A R) i ec d s = Inr t"
    by (rule session_stepE)
  define x where "x = pending s ! i"
  define k where "k = store_read x d (s\<lparr>pending := take i (pending s) @ drop (Suc i) (pending s)\<rparr>)"
  have split: "pending s = take i (pending s) @ x # drop (Suc i) (pending s)"
    unfolding x_def using i by (rule id_take_nth_drop)
  have k: "pending k = take i (pending s) @ drop (Suc i) (pending s)" "is_alive A k = is_alive A s"
    by (simp_all add: k_def is_alive_def)
  have any: "client_any s" using assms(2) by (simp add: ending_def)
  then have "client_op x" using i by (simp add: client_any_def list_all_length x_def)
  moreover have "complete A (client_session A R) x ec k = Inr t"
    using step i by (simp add: deliver_def Let_def x_def k_def)
  ultimately have "brings A x k t \<and> (x = Op_Shutdown \<longrightarrow> \<not> is_alive A t)"
    using complete_brings assms(3) by blast
  then obtain xs where t: "pending t = pending k @ xs" "sum_list (map op_work xs) < op_work x"
    and alive: "is_alive A t \<longrightarrow> is_alive A s" "x = Op_Shutdown \<longrightarrow> \<not> is_alive A t"
    by (auto simp: brings_def k(2))
  have "work_left s = sum_list (map op_work (pending k)) + op_work x"
    unfolding work_left_def by (subst split) (simp add: k)
  with t have "work_left t < work_left s" by (simp add: work_left_def)
  moreover have "Op_Shutdown \<in> set (pending t) \<or> \<not> is_alive A t" if "x \<noteq> Op_Shutdown"
  proof (cases "Op_Shutdown \<in> set (pending s)")
    case True
    then have "Op_Shutdown \<in> set (take i (pending s) @ x # drop (Suc i) (pending s))" by (simp flip: split)
    with that show ?thesis by (auto simp: t k)
  next
    case False
    with assms(2) alive show ?thesis by (auto simp: ending_def)
  qed
  moreover have "client_any t" by (rule client_any_deliver [OF step any])
  ultimately show ?thesis using alive(2) by (auto simp: ending_def)
qed

lemma ending_steps:
  assumes "(session_step A (client_session A R) ^^ n) s t" and "ending A s" and "stays_closed A R"
  shows "ending A t \<and> n + work_left t \<le> work_left s"
  using assms(1)
proof (induction n arbitrary: t)
  case 0
  with assms(2) show ?case by simp
next
  case (Suc n)
  then obtain u where u: "(session_step A (client_session A R) ^^ n) s u" and step: "session_step A (client_session A R) u t"
    by auto
  from Suc.IH [OF u] ending_step [OF step _ assms(3)] show ?case by auto
qed

text \<open>Whatever is outstanding can complete.\<close>

lemma client_can_complete:
  assumes "client_any s" and "pending s \<noteq> []"
  shows "\<exists>t. session_step A (client_session A R) s t"
proof -
  obtain x xs where p: "pending s = x # xs" using assms(2) by (cases "pending s") auto
  with assms(1) have op: "client_op x" by (simp add: client_any_def)
  let ?k = "store_read x [] (s\<lparr>pending := xs\<rparr>)"
  have "\<exists>t. complete A (client_session A R) x Operation_Aborted ?k = Inr t"
  proof (cases "x = Op_Shutdown")
    case True
    obtain t where "do_close_socket A (client_on_close_socket A)
        (debug A ''CLIENT | shutting down secure (SSL/TLS) protocol on stream OK'' [] ?k) = Inr t"
      by (rule client_close.closes)
    with True show ?thesis by (simp add: client_completed_defs client_on_shutdown_secure_stream_def)
  next
    case False
    with op have "is_transfer x \<or> (\<exists>h. x = Op_Handshake h)" by (cases x) simp_all
    then show ?thesis by (simp add: complete_aborted)
  qed
  then obtain t where "deliver A (client_session A R) 0 Operation_Aborted [] s = Inr t"
    using p by (auto simp: deliver_def)
  moreover have "admissible x Operation_Aborted []" by (cases x) simp_all
  ultimately show ?thesis using p by (intro exI [of _ t]) (auto intro: completion [of 0])
qed

end
