(* ===== verification/Session_Ends.thy ===== *)
theory Session_Ends
  imports Sample_Session Client_Ending
begin

section \<open>How the sessions end\<close>

text \<open>
  The fourth group of statements about the sessions: what a cancelled and a failed operation lead to,
  that a session always gets to closing its socket, and the unused timeout of the client session.
\<close>

subsection \<open>Cancelled and failed operations\<close>

text \<open>A cancelled transfer or handshake of any session is dropped: nothing new is issued, no virtual
  function is called, nothing is printed, and neither the world nor the outgoing message changes.\<close>

theorem cancelled_operation_dropped:
  assumes "pending s = [x]" and "is_transfer x \<or> (\<exists>t. x = Op_Handshake t)"
  shows "\<exists>s'. deliver A V 0 Operation_Aborted d s = Inr s' \<and> pending s' = [] \<and> world s' = world s \<and>
    console s' = console s \<and> write_buffer s' = write_buffer s"
  using assms by (simp add: deliver_single complete_aborted)

lemma cancelled_operation_dropped_witness:
  "\<exists>s'. deliver tiny_asio (server_session tiny_asio handle_request) 0 Operation_Aborted [] sample_session = Inr s' \<and>
    pending s' = [] \<and> world s' = world sample_session \<and> console s' = console sample_session \<and>
    write_buffer s' = write_buffer sample_session"
  by (rule cancelled_operation_dropped [where x = "Op_Read_Header 28"]) simp_all

text \<open>After a failed transfer every session only cancels the operations on its socket and issues the
  shutdown of the secure stream: the socket is as open as the cancellation left it, and as long as
  the shutdown has not completed no other operation, such as the null write, is outstanding that
  could close it.\<close>

theorem failed_transfer_waits_for_shutdown:
  assumes "pending s = [x]" and "is_transfer x" and "ec \<noteq> Success" and "ec \<noteq> Operation_Aborted"
  shows "\<exists>s'. deliver A V 0 ec d s = Inr s' \<and> pending s' = [Op_Shutdown] \<and>
    world s' = snd (socket_cancel A (socket s) (world s)) \<and>
    (is_alive A s' \<longleftrightarrow> socket_is_open A (socket s) (snd (socket_cancel A (socket s) (world s))))"
proof -
  obtain s1 where "complete A V x ec (store_read x d (s\<lparr>pending := []\<rparr>)) = Inr (stop A s1)"
    and "pending s1 = []" and "socket s1 = socket s" and "world s1 = world s"
    using complete_failed [OF assms(2-4), of A V "store_read x d (s\<lparr>pending := []\<rparr>)"] by auto
  then show ?thesis using assms(1) by (simp add: deliver_single is_alive_def)
qed

lemma failed_transfer_waits_for_shutdown_witness:
  "\<exists>s'. deliver tiny_asio (server_session tiny_asio handle_request) 0 Eof [] sample_session = Inr s' \<and>
    pending s' = [Op_Shutdown] \<and> world s' = snd (socket_cancel tiny_asio (socket sample_session) (world sample_session)) \<and>
    (is_alive tiny_asio s' \<longleftrightarrow> socket_is_open tiny_asio (socket sample_session)
       (snd (socket_cancel tiny_asio (socket sample_session) (world sample_session))))"
  by (rule failed_transfer_waits_for_shutdown [where x = "Op_Read_Header 28"]) simp_all

text \<open>C24: A server session one of whose transfers fails always gets to closing its socket: once the
  shutdown and, if that did not fail in the SSL layer, the null write have completed, with whatever
  error codes, nothing is outstanding, the socket has been cancelled and closed and nothing else was
  done to the world, and if the close succeeded the session is not alive.\<close>

theorem failed_transfer_closes_server:
  assumes "pending s = [x]" and "is_transfer x" and "ec \<noteq> Success" and "ec \<noteq> Operation_Aborted"
    and "close_closes A"
  shows "\<exists>s'. deliver_all A (server_session A H) [(ec, d), (ec1, []), (ec2, [])] s = Inr s' \<and>
    pending s' = [] \<and>
    (let closed = socket_close A (socket s) (snd (socket_cancel A (socket s) (world s)))
     in world s' = snd closed \<and> (fst closed = Success \<longrightarrow> \<not> is_alive A s'))"
proof -
  obtain s1 where step: "complete A (server_session A H) x ec (store_read x d (s\<lparr>pending := []\<rparr>)) = Inr (stop A s1)"
    and s1: "pending s1 = []" "socket s1 = socket s" "world s1 = world s"
    using complete_failed [OF assms(2-4), of A "server_session A H" "store_read x d (s\<lparr>pending := []\<rparr>)"]
    by auto
  have "pending (stop A s1) = [Op_Shutdown]" by (simp add: s1)
  from server_shutdown [OF this, of A H ec1 ec2] obtain s' where
    s': "deliver_all A (server_session A H) [(ec1, []), (ec2, [])] (stop A s1) = Inr s'" "pending s' = []"
      "world s' = snd (socket_close A (socket s) (snd (socket_cancel A (socket s) (world s))))"
      "socket s' = socket s"
    by (auto simp: s1)
  have "\<not> is_alive A s'"
    if "fst (socket_close A (socket s) (snd (socket_cancel A (socket s) (world s)))) = Success"
    using close_closesD [OF assms(5)] that s'(3,4) by (metis is_alive_def prod.collapse)
  then show ?thesis
    using step s' assms(1) by (simp add: deliver_single Let_def del: deliver_all.simps(1))
qed

lemma failed_transfer_closes_server_witness:
  "\<exists>s'. deliver_all tiny_asio (server_session tiny_asio handle_request)
      [(Eof, []), (Eof, []), (Success, [])] sample_session = Inr s' \<and> pending s' = [] \<and>
    (let closed = socket_close tiny_asio (socket sample_session)
           (snd (socket_cancel tiny_asio (socket sample_session) (world sample_session)))
     in world s' = snd closed \<and> (fst closed = Success \<longrightarrow> \<not> is_alive tiny_asio s'))"
  by (rule failed_transfer_closes_server [where x = "Op_Read_Header 28"]) (simp_all add: tiny_close_closes)

text \<open>A handshake that fails, other than by cancellation, closes the socket at once, at both ends,
  and leaves nothing outstanding.\<close>

theorem failed_handshake_closes:
  assumes "pending s = [Op_Handshake t]" and "ec \<noteq> Success" and "ec \<noteq> Operation_Aborted"
  shows "(\<exists>s'. deliver A (server_session A H) 0 ec [] s = Inr s' \<and> pending s' = [] \<and>
            world s' = snd (socket_close A (socket s) (world s))) \<and>
         (\<exists>s'. deliver A (client_session A R) 0 ec [] s = Inr s' \<and> pending s' = [] \<and>
            world s' = snd (socket_close A (socket s) (world s)))"
proof -
  let ?s = "debug A ''Error on secure handshake'' (ec_message A ec) (s\<lparr>pending := []\<rparr>)"
  have "deliver A V 0 ec [] s = do_close_socket A (on_close_socket V) ?s" for V
    using assms by (simp add: deliver_single handshake_completed_def)
  moreover obtain s1 where "do_close_socket A (server_on_close_socket A) ?s = Inr s1" "pending s1 = []"
    "world s1 = snd (socket_close A (socket s) (world s))"
    using server_close.closes [of A ?s] by auto
  moreover obtain s2 where "do_close_socket A (client_on_close_socket A) ?s = Inr s2" "pending s2 = []"
    "world s2 = snd (socket_close A (socket s) (world s))"
    using client_close.closes [of A ?s] by auto
  ultimately show ?thesis by simp
qed

lemma failed_handshake_closes_witness:
  "(\<exists>s'. deliver tiny_asio (server_session tiny_asio handle_request) 0 (Ssl_Error 1) []
        (server_start (new_session 5 (open_world 5))) = Inr s' \<and> pending s' = [] \<and>
        world s' = snd (socket_close tiny_asio (socket (server_start (new_session 5 (open_world 5)))) 
          (world (server_start (new_session 5 (open_world 5)))))) \<and>
   (\<exists>s'. deliver tiny_asio (client_session tiny_asio (\<lambda>m w. w)) 0 (Ssl_Error 1) []
        (server_start (new_session 5 (open_world 5))) = Inr s' \<and> pending s' = [] \<and>
        world s' = snd (socket_close tiny_asio (socket (server_start (new_session 5 (open_world 5))))
          (world (server_start (new_session 5 (open_world 5))))))"
  by (rule failed_handshake_closes [where t = Handshake_Server])
    (simp_all add: server_start_def do_defs new_session_def)

text \<open>C34: A client session that is stopped always ends with its socket closed, in whatever state it is
  stopped: quiet, in its handshake, in the middle of an exchange, or with several sends under way. The
  operations that were outstanding and the shutdown complete in any order and with any error codes, and
  whatever these issue completes too: as long as something is outstanding it can complete, at most
  as often as the work the session had left and one more (six times for one exchange), and when nothing
  is outstanding any more the session is not alive.\<close>

theorem stopped_client_closes:
  assumes "client_any s" and "stays_closed A R"
    and "(session_step A (client_session A R) ^^ n) (stop A s) t"
  shows "n \<le> Suc (work_left s) \<and>
    (if pending t = [] then \<not> is_alive A t else \<exists>u. session_step A (client_session A R) t u)"
proof -
  have "ending A t" "n + work_left t \<le> work_left (stop A s)"
    using ending_steps [OF assms(3) ending_stop [OF assms(1)] assms(2)] by simp_all
  moreover have "work_left (stop A s) = Suc (work_left s)" by (simp add: work_left_def)
  ultimately show ?thesis using client_can_complete [of t A R] by (auto simp: ending_def)
qed

lemma tiny_stays_closed: "stays_closed tiny_asio (\<lambda>m w. w)"
  by (simp add: stays_closed_def tiny_close_def)

text \<open>The shutdown completes first, then the read that the stop has cancelled.\<close>

lemma stopped_client_closes_witness:
  "\<exists>t. pending t = [] \<and> \<not> is_alive tiny_asio t \<and> is_alive tiny_asio sample_session \<and>
    2 \<le> Suc (work_left sample_session)"
proof -
  let ?V = "client_session tiny_asio (\<lambda>m w. w)"
  let ?s = "stop tiny_asio sample_session"
  have any: "client_any sample_session" by (simp add: client_any_def)
  have p: "pending ?s = [Op_Read_Header 28, Op_Shutdown]" by simp
  obtain u where u: "deliver tiny_asio ?V 1 Eof [] ?s = Inr u" "pending u = [Op_Read_Header 28]"
  proof -
    let ?k = "?s\<lparr>pending := [Op_Read_Header 28]\<rparr>"
    obtain u where "do_close_socket tiny_asio (client_on_close_socket tiny_asio)
        (debug tiny_asio ''CLIENT | shutting down secure (SSL/TLS) protocol on stream OK'' [] ?k) = Inr u"
      and "pending u = [Op_Read_Header 28]"
      by (rule client_close.closes [of tiny_asio "debug tiny_asio
          ''CLIENT | shutting down secure (SSL/TLS) protocol on stream OK'' [] ?k"]) auto
    then show thesis
      by (intro that) (simp_all add: deliver_def client_completed_defs client_on_shutdown_secure_stream_def)
  qed
  obtain t where t: "deliver tiny_asio ?V 0 Operation_Aborted [] u = Inr t" "pending t = []"
    using u(2) by (simp add: deliver_single read_header_completed_def)
  have "session_step tiny_asio ?V ?s u" by (rule completion [OF _ _ u(1)]) simp_all
  moreover have "session_step tiny_asio ?V u t" by (rule completion [OF _ _ t(1)]) (simp_all add: u(2))
  ultimately have "(session_step tiny_asio ?V ^^ 2) ?s t" by (auto simp: numeral_2_eq_2)
  from stopped_client_closes [OF any tiny_stays_closed this] t(2) show ?thesis
    by (intro exI [of _ t]) (simp add: is_alive_def open_world_def)
qed

subsection \<open>The timeout\<close>

text \<open>Setting the expiry time of the timeout asks the timer for a thousand times the given number of
  milliseconds, and never starts a wait when none is outstanding, because the timer, as its library
  documents, then has no wait to cancel: the timeout can never be armed.\<close>

theorem timeout_never_armed:
  assumes "Op_Wait \<notin> set (pending s)"
    and "fst (timer_expires_from_now A h (1000 * ms) (world s)) \<le> count_list (pending s) Op_Wait"
  shows "pending (set_timeout_expiry_time A h ms s) = pending s \<and>
    world (set_timeout_expiry_time A h ms s) = snd (timer_expires_from_now A h (1000 * ms) (world s))"
proof -
  obtain w where "timer_expires_from_now A h (1000 * ms) (world s) = (0, w)"
    using assms by (cases "timer_expires_from_now A h (1000 * ms) (world s)") (simp add: count_list_0_iff)
  then show ?thesis
    by (simp add: set_timeout_expiry_time_def milliseconds_of_seconds_def Let_def)
qed

lemma timeout_never_armed_witness:
  "pending (set_timeout_expiry_time tiny_asio 9 default_timeout_ms sample_session) = pending sample_session \<and>
    world (set_timeout_expiry_time tiny_asio 9 default_timeout_ms sample_session) =
      snd (timer_expires_from_now tiny_asio 9 (1000 * default_timeout_ms) (world sample_session))"
  by (rule timeout_never_armed) simp_all

end
