(* ===== verification/Session_Properties.thy ===== *)
theory Session_Properties
  imports Sample_Session
begin

section \<open>Properties of the sessions\<close>

text \<open>
  The first group of statements about \<open>session\<close>, \<open>server_session\<close> and \<open>client_session\<close>: the
  transactions from the first byte to the last, at the server, on arbitrary bytes, and end to end.
\<close>

subsection \<open>Transactions\<close>

text \<open>C2: A server session whose handshake succeeds and whose peer sends any number of well-formed
  requests calls the handler on exactly these requests, in order and each once, threads the
  handler's effects, puts the framed responses on the stream in the same order and nothing else,
  and is then waiting for the next request: it implements the abstract request loop \<open>serve\<close>.\<close>

theorem server_answers_requests:
  assumes "list_all fits cs"
  shows "\<exists>t. deliver_all A (server_session A H) ((Success, []) # concat (map request_events cs))
        (server_start (new_session k w)) = Inr t \<and> ready t \<and>
    emitted A (server_session A H) ((Success, []) # concat (map request_events cs))
        (server_start (new_session k w)) = fst (serve H new_message w cs) \<and>
    world t = snd (serve H new_message w cs)"
proof -
  obtain u where u: "deliver A (server_session A H) 0 Success [] (server_start (new_session k w)) = Inr u"
    "ready u" "write_buffer u = new_message" "world u = w"
    by (rule server_handshake [of A H k w])
  have "pending (server_start (new_session k w)) = [Op_Handshake Handshake_Server]"
    by (simp add: server_start_def do_defs new_session_def)
  with server_serves [OF u(2) assms, of A H] u show ?thesis by simp
qed

lemma server_answers_requests_witness:
  "\<exists>t. deliver_all tiny_asio (server_session tiny_asio handle_request)
        ((Success, []) # concat (map request_events [''a'', ''bc''])) (server_start (new_session 5 (open_world 5))) =
          Inr t \<and> ready t \<and>
    emitted tiny_asio (server_session tiny_asio handle_request)
        ((Success, []) # concat (map request_events [''a'', ''bc''])) (server_start (new_session 5 (open_world 5))) =
      fst (serve handle_request new_message (open_world 5) [''a'', ''bc'']) \<and>
    world t = snd (serve handle_request new_message (open_world 5) [''a'', ''bc''])"
  by (rule server_answers_requests) (simp add: fits_def)

text \<open>With a handler that answers requests that fit the length field by contents that fit it,
  what the server session puts on the stream for a list of requests is read by a receiver as
  exactly one response per request, with nothing left over.\<close>

theorem server_output_receivable:
  assumes "\<And>q r w. fits (content_buffer q) \<Longrightarrow> fits (content_buffer (fst (H q r w)))"
    and "list_all fits cs" and "ready s"
  shows "\<exists>rs. receive_all (emitted A (server_session A H) (concat (map request_events cs)) s) = (rs, []) \<and>
    length rs = length cs"
proof -
  have "fitting_handler H" by unfold_locales (rule assms(1))
  from fitting_handler.serve_receivable [OF this assms(2)] obtain rs where
    rs: "list_all fits rs" "length rs = length cs"
      "fst (serve H (write_buffer s) (world s) cs) = concat (map encode rs)"
    by blast
  have "receive_all (concat (map encode rs) @ []) = (rs @ fst (receive_all []), snd (receive_all []))"
    using rs(1) by (rule receive_all_concat)
  moreover have "receive_all [] = ([], [])"
    by (intro receive_all_stop) (simp add: receive_content_def receive_short)
  ultimately show ?thesis
    using rs server_serves [OF assms(3,2), of A H] by (intro exI [of _ rs]) auto
qed

lemma server_output_receivable_witness:
  "\<exists>rs. receive_all (emitted tiny_asio (server_session tiny_asio handle_request)
      (concat (map request_events [''a'', ''bc''])) sample_session) = (rs, []) \<and> length rs = length [''a'', ''bc'']"
  by (rule server_output_receivable) (simp_all add: content_handle_request, simp_all add: fits_def)

text \<open>The example server is an echo server: what it puts on the stream for a list of requests is
  read by a receiver as the same list of contents, and it leaves the world alone.\<close>

theorem echo_server:
  assumes "list_all fits cs" and "ready s"
  shows "receive_all (emitted A (server_session A handle_request) (concat (map request_events cs)) s) = (cs, [])"
    (is "receive_all ?out = _")
proof -
  have "?out = concat (map encode cs) @ []"
    using server_serves [OF assms(2,1), of A handle_request] by (auto simp: serve_echo)
  moreover have "receive_all [] = ([], [])"
    by (intro receive_all_stop) (simp add: receive_content_def receive_short)
  ultimately show ?thesis using receive_all_concat [OF assms(1), of "[]"] by simp
qed

lemma echo_server_witness:
  "receive_all (emitted tiny_asio (server_session tiny_asio handle_request)
      (concat (map request_events [''ping'', []])) sample_session) = ([''ping'', []], [])"
  by (rule echo_server) (simp_all add: fits_def)

text \<open>C19: The two reads of a server session are the receiver of the wire protocol: on any bytes of
  which that receiver takes a message, with whatever header, the session hands exactly that message
  to the handler and writes the header of the framed response.\<close>

theorem server_reads_refine_receive:
  assumes "receive bs = Got m rest" and "ready s"
    and "H m (write_buffer s) (world s) = (response, w)"
  shows "bs = take 28 bs @ content_buffer m @ rest \<and>
    (\<exists>t. deliver_all A (server_session A H) [(Success, take 28 bs), (Success, content_buffer m)] s = Inr t \<and>
      pending t = [Op_Write_Header (header_buffer (prepare_header_buffer_write response))] \<and>
      write_buffer t = prepare_header_buffer_write response \<and> world t = w)"
proof -
  let ?h = "take 28 bs"
  obtain m' where long: "28 \<le> length bs"
    and prep: "prepare_content_buffer_read
        (prepare_header_buffer_read empty_message\<lparr>header_buffer := ?h\<rparr>) = Inr m'"
    and fit: "length (content_buffer m') \<le> length (drop 28 bs)"
    and m: "m = m'\<lparr>content_buffer := take (length (content_buffer m')) (drop 28 bs)\<rparr>"
    and rest: "rest = drop (length (content_buffer m')) (drop 28 bs)"
    using assms(1) by (auto simp: receive_def Let_def split: if_splits sum.splits)
  have h: "length ?h = 28" using long by simp
  have "prepare_content_buffer_read (read_buffer s\<lparr>header_buffer := ?h\<rparr>) = Inr m'"
    unfolding prep [symmetric] by (rule prepare_content_read_cong) simp
  with assms(2) h obtain s1 where
    d1: "deliver A (server_session A H) 0 Success ?h s = Inr s1"
    and p1: "pending s1 = [Op_Read_Content (length (content_buffer m'))]" and r1: "read_buffer s1 = m'"
    and s1: "write_buffer s1 = write_buffer s" "world s1 = world s"
    unfolding ready_def by (blast elim: server_request_header [of s 28 ?h m' A H])
  have "read_buffer s1\<lparr>content_buffer := content_buffer m\<rparr> = m" by (simp add: r1 m)
  with assms(3) have
    "H (read_buffer s1\<lparr>content_buffer := content_buffer m\<rparr>) (write_buffer s1) (world s1) = (response, w)"
    by (simp add: s1)
  moreover have "length (content_buffer m) = length (content_buffer m')" using fit by (simp add: m)
  ultimately obtain t where
    "deliver A (server_session A H) 0 Success (content_buffer m) s1 = Inr t"
    "pending t = [Op_Write_Header (header_buffer (prepare_header_buffer_write response))]"
    "write_buffer t = prepare_header_buffer_write response" "world t = w"
    using server_request_content [where s = s1 and H = H and A = A, OF p1] r1 by metis
  moreover have "bs = ?h @ content_buffer m @ rest" by (simp add: m rest del: drop_drop)
  ultimately show ?thesis using d1 by auto
qed

lemma server_reads_refine_receive_witness:
  "encode ''hi'' @ ''next'' = take 28 (encode ''hi'' @ ''next'') @ content_buffer (message_of ''hi'') @ ''next'' \<and>
    (\<exists>t. deliver_all tiny_asio (server_session tiny_asio handle_request)
        [(Success, take 28 (encode ''hi'' @ ''next'')), (Success, content_buffer (message_of ''hi''))] sample_session = Inr t \<and>
      pending t = [Op_Write_Header (header_buffer (prepare_header_buffer_write (message_of ''hi'')))] \<and>
      write_buffer t = prepare_header_buffer_write (message_of ''hi'') \<and> world t = open_world 5)"
proof (rule server_reads_refine_receive)
  show "receive (encode ''hi'' @ ''next'') = Got (message_of ''hi'') ''next''"
    by (rule receive_encode) (simp add: fits_def)
  show "handle_request (message_of ''hi'') (write_buffer sample_session) (world sample_session) =
      (message_of ''hi'', open_world 5)"
    by (simp add: handle_request_def message_of_def set_content_buffer_def
        prepare_header_buffer_write_def empty_message_def new_message_def)
qed simp

subsection \<open>End to end\<close>

text \<open>End to end: a message sent by a quiet client session reaches the handler of a waiting server
  session, whatever session that is, as the message with exactly that content, and the content of
  the handler's answer reaches the client's response handler, when each side reads the bytes the
  other has put on the stream; afterwards the client is quiet and the server waits again.\<close>

theorem exchange_end_to_end:
  assumes "pending c0 = []" and "ready s0" and "fits (content_buffer m)"
    and "H (message_of (content_buffer m)) (write_buffer s0) (world s0) = (response, w)"
    and "fits (content_buffer response)"
  shows "\<exists>c1 b1 s1 b2 c2.
    deliver_all A (client_session A R) request_write_events (client_session_send m c0) = Inr c1 \<and>
    emitted A (client_session A R) request_write_events (client_session_send m c0) = b1 \<and>
    deliver_all B (server_session B H) (frame_read_events b1 @ request_write_events) s0 = Inr s1 \<and>
    emitted B (server_session B H) (frame_read_events b1 @ request_write_events) s0 = b2 \<and>
    deliver_all A (client_session A R) (frame_read_events b2) c1 = Inr c2 \<and>
    pending c2 = [] \<and> world c2 = R (message_of (content_buffer response)) (world c0) \<and>
    ready s1 \<and> world s1 = w"
  using assms by (rule exchange)

lemma exchange_end_to_end_witness:
  "\<exists>c1 b1 s1 b2 c2.
    deliver_all tiny_asio (client_session tiny_asio (handle_response [])) request_write_events
      (client_session_send (message_of ''hi'') (new_session 6 tiny_world)) = Inr c1 \<and>
    emitted tiny_asio (client_session tiny_asio (handle_response [])) request_write_events
      (client_session_send (message_of ''hi'') (new_session 6 tiny_world)) = b1 \<and>
    deliver_all tiny_asio (server_session tiny_asio handle_request)
      (frame_read_events b1 @ request_write_events) sample_session = Inr s1 \<and>
    emitted tiny_asio (server_session tiny_asio handle_request)
      (frame_read_events b1 @ request_write_events) sample_session = b2 \<and>
    deliver_all tiny_asio (client_session tiny_asio (handle_response [])) (frame_read_events b2) c1 = Inr c2 \<and>
    pending c2 = [] \<and>
    world c2 = handle_response [] (message_of (content_buffer (message_of ''hi''))) (world (new_session 6 tiny_world)) \<and>
    ready s1 \<and> world s1 = open_world 5"
proof (rule exchange_end_to_end)
  show "handle_request (message_of (content_buffer (message_of ''hi''))) (write_buffer sample_session)
      (world sample_session) = (message_of ''hi'', open_world 5)"
    by (simp add: handle_request_def message_of_def set_content_buffer_def
        prepare_header_buffer_write_def empty_message_def new_message_def)
qed (simp_all add: new_session_def fits_def)

end
