(* ===== verification/Spec2Isabelle.thy ===== *)
theory Spec2Isabelle
  imports Link_Properties Network_Properties Protocol_Properties Serving_Properties
    Session_Discipline Session_Ends Session_Properties
begin

text \<open>
  A model of micro_tcp, a TCP client and server with TLS on top of Boost.Asio, and the theorems that
  make it correct. The sources are the files of \<open>src/include/micro_tcp\<close> and \<open>src/src/main.cpp\<close>.

  The program. A \<open>message\<close> is a pair of byte buffers: a header of 28 bytes (eighteen magic bytes and a
  decimal length field of ten characters) and a content. A \<open>session\<close> owns one message for reading, one
  for writing and a secure stream; it issues one asynchronous operation at a time, and the completion
  handler of each decides on the next. \<open>server_session\<close> loops over read request, call the
  \<open>request_handler\<close>, write response; \<open>client_session\<close> writes a request when told to, reads the
  response and calls the \<open>response_handler\<close>. \<open>server\<close> accepts connections and starts server sessions,
  \<open>client\<close> connects and keeps one active client session, \<open>io_manager\<close> runs the worker threads, and
  \<open>main\<close> is a console over one server and one client.

  How it is modelled. A thrown exception, the use of an indeterminate value and a call of
  \<open>std::terminate\<close> are values of \<open>cxx_fault\<close>, and an operation that can end so returns a \<open>result\<close>. The
  networking library and the operating system are a parameter: a record \<open>'w asio\<close> of the synchronous
  calls over an unspecified world \<open>'w\<close>, with the documented laws as the predicates \<open>close_closes\<close> and
  \<open>acceptor_laws\<close>. An asynchronous call adds an element to the list of outstanding operations of its
  object, and its completion is an event with an error code and, for a read, the received bytes
  (\<open>deliver\<close>); every error code and every admissible sequence of bytes is allowed. All handlers of a session
  run through one strand, so that a completion is one step. The two derived session classes are
  records of their virtual functions (\<open>session_vt\<close>).

  The theories, in the order they build on each other:
    \<^item> \<open>Prelude\<close>: byte buffers, faults and results, \<open>vector::resize\<close>.
    \<^item> \<open>Iostream\<close>: the parts of \<open><sstream>\<close> and \<open><iomanip>\<close> that \<open>message.cpp\<close> uses; decimal text and its
      value, what a field of bounded length can be read as.
    \<^item> \<open>Message\<close>: \<open>message.hpp\<close>, \<open>message.cpp\<close>; the framing invariant, the declared length of every
      header, when preparing a read throws.
    \<^item> \<open>Framing\<close>: the wire format seen from the byte stream (\<open>encode\<close>, \<open>receive\<close>); the locale \<open>stream_code\<close>,
      interpreted on it, gives unique readability.
    \<^item> \<open>Asio\<close>: the parameter, error codes, addresses, the console.
    \<^item> \<open>Session\<close>: \<open>session.hpp\<close>, \<open>session.cpp\<close>; operations, completion handlers, steps and runs; the
      locales \<open>logging_close\<close> (closing the socket), \<open>session_hooks\<close> (the contract of the virtual
      functions) and \<open>session_invariant\<close> (a predicate completions keep), where the second gives the
      third for \<open>sequential\<close>.
    \<^item> \<open>Files\<close>: \<open>files.hpp\<close> and the two example handlers on a host with a disk and a console.
    \<^item> \<open>Server_Session\<close>, \<open>Server_Transaction\<close>: \<open>server_session.cpp\<close>; the interpretations of the three
      locales, the phases of the documented sequence, the invariant of the reachable states, the only
      faults, the abstract request loop \<open>serve\<close> and its implementation, the end of a session.
    \<^item> \<open>Client_Session\<close>, \<open>Client_Invariant\<close>, \<open>Client_Transaction\<close>: \<open>client_session.cpp\<close>; the same for
      the client side, the locale \<open>fitting_handler\<close> with its interpretation on the echo handler, and the
      composition of a client session with a server session for one fixed order of completions.
    \<^item> \<open>Link\<close>: a client session and a server session over two byte channels, whose completions interleave
      freely; the abstract \<open>conversation\<close>, what each end is doing (\<open>asking\<close>, \<open>hearing\<close>, \<open>replying\<close>), the
      invariant of all runs, progress and the number of completions.
    \<^item> \<open>Lossy_Link\<close>: the same connection when any transfer of either end may fail at any time with any
      error, after any part of its bytes, and a quiet client may be stopped.
    \<^item> \<open>Stopped_Link\<close>: the same when the client may be stopped at any time, also while it waits, so that a
      shutdown and a transfer are outstanding together; its handlers see what those of \<open>Lossy_Link\<close> see.
    \<^item> \<open>Shared_Link\<close>: the same connection when the world of the server is shared and may be replaced by any
      other between two completions; the calls of the handler are recorded.
    \<^item> \<open>Flaky_Link\<close>: the failures and stops of \<open>Stopped_Link\<close>, from before the handshakes on and in the shared
      world of \<open>Shared_Link\<close>; every run follows one that does not fail, some of whose completions have not
      taken place.
    \<^item> \<open>Steady_Link\<close>: from every state of such a connection neither end of which has failed, completions of its
      own lead to the end of the exchange; the completions left of an exchange as a measure, and two
      connections that go on alike (\<open>mirrors\<close>).
    \<^item> \<open>Server\<close>: \<open>server.hpp\<close>, \<open>server.cpp\<close>; state, operations, the steps of a server with its sessions.
    \<^item> \<open>Network\<close>: a server with clients connected to its first sessions, while it serves any other
      connections and its owner calls it; each connection is one of \<open>Shared_Link\<close>, the server is
      one of \<open>Server\<close>.
    \<^item> \<open>Open_Network\<close>: a server from before its first connection on, to which clients come in any order
      with peers that are not modelled; their connections are those of \<open>Flaky_Link\<close>.
    \<^item> \<open>Client\<close>: \<open>client.hpp\<close>, \<open>client.cpp\<close>.
    \<^item> \<open>Client_Steps\<close>: the steps of a client with its active session and those it has let go of, whose owner
      need not wait for anything; what still holds of them, and their only fault.
    \<^item> \<open>Client_Ending\<close>: a client session that has been stopped: the work its outstanding operations still
      lead to as a measure every completion lowers, and what is so until its socket is closed.
    \<^item> \<open>Io_Manager\<close>: \<open>io_manager.hpp\<close>, \<open>io_manager.cpp\<close>; the invariant of the worker threads, and the state
      a thread the system refuses to create leaves behind.
    \<^item> \<open>Application\<close>: \<open>main.cpp\<close> from the construction of the objects to their destruction. What the threads
      do between the calls of the main thread, the exception that leaves one of them included, is a function
      of the instant and the state.
    \<^item> \<open>Script\<close>: the abstract language of the console: commands with their arguments, a parser from
      lines and an interpreter, which the command loop implements.
    \<^item> \<open>Running\<close>: the program between start and end, where the worker threads complete operations of the
      server and the client in any order between the commands and on the way out; its invariant and its
      faults.
    \<^item> \<open>Serving\<close>: the program of \<open>Running\<close> with clients elsewhere that come to its server as in
      \<open>Open_Network\<close>, while its console, its own client and other peers go on; the program is at a moment
      of a run of \<open>Running\<close>, the connections are those of \<open>Flaky_Link\<close>.
    \<^item> \<open>Configuration\<close>: \<open>secure_data.hpp\<close> and the rest of \<open>main.cpp\<close>: options, configuration file and TLS
      contexts, with the libraries as a record of functions, the settings of \<open>example/config.xml\<close>, and
      the whole of \<open>main\<close>.
    \<^item> \<open>Sample\<close>, \<open>Sample_Session\<close>: a small concrete host and objects on it, on which the theorems with
      hypotheses are instantiated.
    \<^item> The other theories state the properties: the wire protocol
      (\<open>Protocol_Properties\<close>), transactions (\<open>Session_Properties\<close>), sequences and outstanding operations
      (\<open>Session_Discipline\<close>), faults (\<open>Session_Failures\<close>), cancelled and failed operations and the end
      of sessions (\<open>Session_Ends\<close>), connections (\<open>Link_Properties\<close>), the server (\<open>Server_Properties\<close>), a
      server with its clients (\<open>Network_Properties\<close>), client, I/O manager and application
      (\<open>Application_Properties\<close>), the start of the program (\<open>Configuration_Properties\<close>), its run
      (\<open>Running_Properties\<close>), and what it does for the clients it serves (\<open>Serving_Properties\<close>).

  What the theorems show. Messages of less than \<open>10 ^ 10\<close> bytes survive the wire format in any number
  and order (C1, C27), longer ones do not (C28), and the string stream and the buffers decode every
  sequence of bytes as a decoder written from the format does (C12). A server session implements an
  abstract request loop on well-formed requests (C2) and reads arbitrary bytes as the wire
  protocol says (C19). A client session and a server session on one connection implement an abstract
  conversation under every interleaving (C3), never get stuck and never go on for ever (C9), and when
  anything fails or the client is stopped in the middle of an exchange each handler has seen a prefix of
  what it should, the client at most one behind (C8). In a server with many clients each is told the
  answers to its own messages, whatever the others do (C6); from before the first connection on, with
  handshakes, whatever fails and whoever disconnects, each is told a prefix of them, and all of them when
  it still runs and is quiet (C7). The whole program, from its command line on, does so with the messages
  a client itself has sent, whatever is typed on its console meanwhile (C4), and can always bring the
  exchange with a client to its end as long as neither end of the connection has failed (C5). Both sessions
  follow the documented sequences under all error codes (C14, C15), keep to one outstanding operation
  on untouched memory (C13, C23, but C25), are in a well-formed state (C17, C20) and fault on nothing
  but a header with a blank or negative length field (C16, C18, C26), which a peer can send (C21). All
  that is put together for the program as a whole: what holds at every moment of its run, with any
  connections, failures and input (C10), the only ways an exception can end it (C11), and that one of
  them is open to every peer (C22). After a failed transfer a server session cancels and closes its socket
  (C24), and a stopped client session ends with its socket closed (C34). The accept
  loop, the setters and the client behave as stated in C35 to C38, including the places where the
  code does not do what its names or messages say. The program gets to its command loop exactly on a
  complete and accepted configuration and with all its threads (C30, C40), executes the commands of its
  input up to \<open>quit\<close> (C32), with which its loop ends (C31), and leaves nothing running when it returns, its
  destructors included; it ends by an exception only for stated causes (C29), and its I/O manager goes wrong
  only when a thread is refused (C33), but it never ends after the end of its input (C39). What \<open>files.hpp\<close> writes it
  reads back (lemma \<open>file_roundtrip\<close>).

  Bounds and termination. Nothing in the model runs on fuel: \<open>receive_all\<close> terminates because a message
  taken off a stream makes it shorter, and the command loop of \<open>main\<close> is a \<open>partial_function\<close> into
  \<open>option\<close> whose value \<open>None\<close> is a loop that does not end. Sizes are words of 64 bits, ports words of 16,
  thread counts words of 32. \<open>vector::max_size\<close> is \<open>2 ^ 63 - 1\<close>.

  Assumptions on the surroundings. The connections of \<open>Link\<close>, \<open>Lossy_Link\<close>, \<open>Stopped_Link\<close> and
  \<open>Network\<close> start after both handshakes, those of \<open>Flaky_Link\<close>, \<open>Open_Network\<close> and \<open>Serving\<close> before them;
  in all of them the channels deliver the bytes of a completed write in order, each client has a world of its own, and
  its owner sends only while it is quiet, its handshake included. Where connections fail he
  does not send after a failure of a transfer or a stop (in \<open>Lossy_Link\<close> alone he also stops only a quiet
  client), the calls that cancel and close sockets leave alone what is observed of the world
  (\<open>socket_calls_keep\<close>), and, where the client is stopped while it waits, its response handler treats
  alike what looks alike (\<open>sees_only\<close>). Where a client session is to end closed, a socket is not open
  after \<open>close\<close>, as the library documents even for a close that reports an error, and neither \<open>cancel\<close> nor
  the response handler opens it (\<open>stays_closed\<close>). The threads of the
  program neither start nor stop the I/O manager nor open the acceptor (\<open>threads_only_handle\<close>), as nothing
  that \<open>main\<close> lets them run does. The session of a server whose connection has failed keeps its
  place in the list of sessions. Closing a closed acceptor succeeds (\<open>close_again\<close>), as the destructor
  of the server does after \<open>stop\<close>. Request handlers answer a request that fits the length field by
  a response that fits it.

  Not modelled. Exhausted memory, in \<open>vector::reserve\<close> too; directories and full disks; exceptions thrown by handlers of the
  user; what the parsers of Boost and OpenSSL do inside (the calls, their order and the exceptions
  they may end in are); data races between the strand of a session and
  calls from other threads, which are steps between completions here; the deletion of copy
  constructors and the lifetimes of library objects.
\<close>

end
